(* ===== verification/Prelude.thy ===== *)
theory Prelude
  imports Complex_Main "HOL-Library.Word"
begin

text \<open>
  What the components of the mcareers model share: the types that name its values (time,
  identifiers, results that may be an error), the collections of rewrite rules the
  component theories fill, and generic lemmas on lists that the table and queue models use.

  Time is an \<^typ>\<open>int\<close> that counts microseconds since 1970-01-01T00:00Z: it is the resolution
  of a Python \<^verbatim>\<open>datetime\<close> and of a PostgreSQL \<^verbatim>\<open>TIMESTAMPTZ\<close>.  A UUID is its 128-bit value.
\<close>

section \<open>Types\<close>

type_synonym datetime = int
type_synonym uuid = "128 word"

text \<open>A call that may raise: \<open>Inl\<close> is the exception, \<open>Inr\<close> the value.\<close>

type_synonym ('e, 'a) result = "'e + 'a"

abbreviation seconds :: "int \<Rightarrow> int" where
  "seconds n \<equiv> n * 1000000"

section \<open>Collections of rules\<close>

named_theorems double_simps \<open>values and order of rounded doubles\<close>
named_theorems table_simps \<open>effect of SQL statements on the jobs table\<close>
named_theorems row_simps \<open>what an operation writes in a row\<close>
named_theorems zset_simps \<open>effect of queue operations on the Redis structures\<close>

section \<open>Lists\<close>

lemma length_filter_le_1:
  assumes "distinct (map f xs)"
    and "\<And>x. x \<in> set xs \<Longrightarrow> P x \<Longrightarrow> f x = k"
  shows "length (filter P xs) \<le> 1"
  using assms
proof (induction xs)
  case Nil
  then show ?case by simp
next
  case (Cons x xs)
  show ?case
  proof (cases "P x")
    case True
    have "filter P xs = []"
      using Cons.prems True by (force simp: filter_empty_conv)
    with True show ?thesis by simp
  next
    case False
    with Cons show ?thesis by simp
  qed
qed

lemma find_map_upd:
  assumes "\<And>x. P (f x) \<longleftrightarrow> P x"
  shows "find P (map f xs) = map_option f (find P xs)"
  using assms by (induction xs) auto

lemma find_Some_set: "find P xs = Some x \<Longrightarrow> x \<in> set xs \<and> P x"
  by (induction xs) (auto split: if_splits)

lemma find_unique:
  assumes "distinct (map f xs)" "x \<in> set xs" "f x = k"
  shows "find (\<lambda>y. f y = k) xs = Some x"
  using assms by (induction xs) (auto simp: image_iff)

lemma sorted_take_le_drop:
  assumes "sorted (map f xs)" "x \<in> set (take n xs)" "y \<in> set (drop n xs)"
  shows "f x \<le> f y"
proof -
  from assms(1) have "sorted (map f (take n xs) @ map f (drop n xs))"
    by (simp flip: map_append)
  with assms(2,3) show ?thesis by (auto simp: sorted_append)
qed

lemma length_filter_map_upd:
  "length (filter Q (map (\<lambda>x. if P x then f x else x) xs)) =
     length (filter (\<lambda>x. P x \<and> Q (f x)) xs) + length (filter (\<lambda>x. \<not> P x \<and> Q x) xs)"
  by (induction xs) auto

lemma map_if_cong_id: "(\<And>x. x \<in> set xs \<Longrightarrow> \<not> P x) \<Longrightarrow> map (\<lambda>x. if P x then f x else x) xs = xs"
  by (induction xs) auto

end
