(* ===== verification/Doubles.thy ===== *)
theory Doubles
  imports Prelude
begin

text \<open>
  Python's \<^verbatim>\<open>float\<close> arithmetic, as far as the program computes with it: a double is the exact
  rational it stands for, and every operation is the exact operation followed by
  \<open>rnd53\<close>, rounding to the nearest number with a 53-bit significand, ties to even.
  The values the program rounds (timestamps, percentages, seconds) stay far from the
  subnormal and the overflow range, which are left out.

  The lemmas say that rounding is monotone and leaves every representable number alone;
  together they bound every computation below without an error analysis.
\<close>

section \<open>Rounding to an integer, ties to even\<close>

definition round_half_even :: "rat \<Rightarrow> int" where
  "round_half_even x =
     (let f = \<lfloor>x\<rfloor>; r = x - of_int f in
      if r < 1 / 2 then f else if 1 / 2 < r then f + 1 else if even f then f else f + 1)"

lemma round_half_even_of_int [simp]: "round_half_even (of_int n) = n"
  by (simp add: round_half_even_def)

lemma round_half_even_bounds: "\<lfloor>x\<rfloor> \<le> round_half_even x \<and> round_half_even x \<le> \<lfloor>x\<rfloor> + 1"
  by (simp add: round_half_even_def Let_def)

lemma round_half_even_error: "\<bar>of_int (round_half_even x) - x\<bar> \<le> 1 / 2"
proof -
  have f: "of_int \<lfloor>x\<rfloor> \<le> x" "x < of_int \<lfloor>x\<rfloor> + 1" by linarith+
  show ?thesis
    unfolding round_half_even_def Let_def
    by (rule abs_leI; insert f; simp split: if_splits; linarith)
qed

lemma round_half_even_mono:
  assumes "x \<le> y"
  shows "round_half_even x \<le> round_half_even y"
proof (cases "\<lfloor>x\<rfloor> = \<lfloor>y\<rfloor>")
  case True
  with assms show ?thesis unfolding round_half_even_def Let_def by auto
next
  case False
  with assms have "\<lfloor>x\<rfloor> + 1 \<le> \<lfloor>y\<rfloor>" using floor_mono [OF assms] by linarith
  then show ?thesis using round_half_even_bounds [of x] round_half_even_bounds [of y] by linarith
qed

section \<open>The binary exponent\<close>

function bitlen :: "int \<Rightarrow> int" where
  "bitlen n = (if n \<le> 0 then 0 else 1 + bitlen (n div 2))"
  by pat_completeness auto
termination
  by (relation "measure nat") auto

declare bitlen.simps [simp del]

lemma bitlen_bounds:
  "0 < n \<Longrightarrow> 2 ^ nat (bitlen n - 1) \<le> n \<and> n < 2 ^ nat (bitlen n) \<and> 0 < bitlen n"
proof (induction n rule: bitlen.induct)
  case (1 n)
  show ?case
  proof (cases "n div 2 = 0")
    case True
    with 1 have "n = 1" by auto
    then show ?thesis by (simp add: bitlen.simps [of 1] bitlen.simps [of 0])
  next
    case False
    with 1 have ih: "2 ^ nat (bitlen (n div 2) - 1) \<le> n div 2" "n div 2 < 2 ^ nat (bitlen (n div 2))"
      "0 < bitlen (n div 2)" by auto
    from ih(3) obtain k where k: "bitlen (n div 2) = 1 + int k"
      by (metis add.commute zle_iff_zadd int_one_le_iff_zero_less)
    have "bitlen n = 2 + int k" using 1 k by (simp add: bitlen.simps [of n])
    moreover have "2 ^ Suc k \<le> n" "n < 2 ^ Suc (Suc k)"
      using ih(1,2) by (auto simp: k nat_add_distrib)
    ultimately show ?thesis by (simp add: nat_add_distrib)
  qed
qed

definition flog2 :: "rat \<Rightarrow> int" where
  "flog2 x =
     (let (p, q) = quotient_of x; k = bitlen p - bitlen q in
      if 2 powi k \<le> x then k else k - 1)"

lemma powi_2_less: "(2::rat) powi a < 2 powi b \<longleftrightarrow> a < b"
  using power_int_strict_increasing [of a b "2::rat"] power_int_increasing [of b a "2::rat"]
  by (cases "a < b") (auto simp: not_less)

lemma powi_2_add1: "(2::rat) powi (k + 1) = 2 * 2 powi k"
  by (simp add: power_int_add)

lemma flog2_bounds:
  assumes "0 < x"
  shows "2 powi (flog2 x) \<le> x" and "x < 2 powi (flog2 x + 1)"
proof -
  obtain p q where pq: "quotient_of x = (p, q)" by force
  then have q: "0 < q" and x: "x = of_int p / of_int q"
    using quotient_of_denom_pos quotient_of_div by auto
  from assms x q have p: "0 < p" by (simp add: zero_less_divide_iff)
  define a b where "a = nat (bitlen p)" and "b = nat (bitlen q)"
  define k where "k = int a - int b"
  have P: "2 ^ (a - 1) \<le> p" "p < 2 ^ a" "0 < a" and Q: "2 ^ (b - 1) \<le> q" "q < 2 ^ b" "0 < b"
    and ab: "bitlen p = int a" "bitlen q = int b"
    using bitlen_bounds [OF p] bitlen_bounds [OF q] by (auto simp: a_def b_def nat_diff_distrib)
  have P': "(2::rat) ^ (a - 1) \<le> of_int p" "of_int p < (2::rat) ^ a"
    and Q': "(2::rat) ^ (b - 1) \<le> of_int q" "of_int q < (2::rat) ^ b"
    using P Q by (metis of_int_le_iff of_int_less_iff of_int_power of_int_numeral)+
  have pa: "(2::rat) ^ a = 2 * 2 ^ (a - 1)" and pb: "(2::rat) ^ b = 2 * 2 ^ (b - 1)"
    using P(3) Q(3) by (metis Suc_pred' power_Suc)+
  have k: "(2::rat) powi k = 2 ^ a / 2 ^ b"
    unfolding k_def by (simp add: power_int_diff power_int_of_nat)
  have up: "x < 2 powi (k + 1)"
  proof -
    have "x < 2 ^ a / 2 ^ (b - 1)"
      unfolding x using P' Q' q p by (intro frac_less) auto
    also have "\<dots> = 2 * (2 ^ a / 2 ^ b)" by (simp add: pb)
    finally show ?thesis by (simp add: powi_2_add1 k)
  qed
  have low: "2 powi (k - 1) \<le> x"
  proof -
    have "2 ^ (a - 1) / 2 ^ b \<le> x"
      unfolding x using P' Q' q p by (intro frac_le) auto
    moreover have "2 powi (k - 1) = (2::rat) ^ (a - 1) / 2 ^ b"
      using powi_2_add1 [of "k - 1"] by (simp add: k pa)
    ultimately show ?thesis by simp
  qed
  have f: "flog2 x = (if 2 powi k \<le> x then k else k - 1)"
    by (simp add: flog2_def pq k_def ab)
  show "2 powi (flog2 x) \<le> x" using f low by simp
  show "x < 2 powi (flog2 x + 1)" using f up by auto
qed

lemma flog2_mono: "0 < x \<Longrightarrow> x \<le> y \<Longrightarrow> flog2 x \<le> flog2 y"
  using flog2_bounds [of x] flog2_bounds [of y] powi_2_less [of "flog2 x" "flog2 y + 1"] by linarith

lemma flog2_unique: "2 powi e \<le> x \<Longrightarrow> x < 2 powi (e + 1) \<Longrightarrow> flog2 x = e"
proof -
  assume e: "2 powi e \<le> x" "x < 2 powi (e + 1)"
  then have "0 < x" using zero_less_power_int [of "2::rat" e] by linarith
  with e flog2_bounds [of x] powi_2_less [of e "flog2 x + 1"] powi_2_less [of "flog2 x" "e + 1"]
  show ?thesis by linarith
qed

section \<open>Rounding to a double\<close>

definition rnd_pos :: "rat \<Rightarrow> rat" where
  "rnd_pos x = (let u = 2 powi (flog2 x - 52) in of_int (round_half_even (x / u)) * u)"

definition rnd53 :: "rat \<Rightarrow> rat" where
  "rnd53 x = (if x = 0 then 0 else if x < 0 then - rnd_pos (- x) else rnd_pos x)"


lemma rnd_pos_binade:
  assumes "0 < x"
  shows "2 powi flog2 x \<le> rnd_pos x" and "rnd_pos x \<le> 2 powi (flog2 x + 1)"
proof -
  define u :: rat where "u = 2 powi (flog2 x - 52)"
  have u: "0 < u" by (simp add: u_def)
  have lo: "2 powi flog2 x = 2 ^ 52 * u" and hi: "2 powi (flog2 x + 1) = 2 ^ 53 * u"
    unfolding u_def by (simp_all add: power_int_diff power_int_add)
  have "of_int (2 ^ 52) \<le> x / u" "x / u \<le> of_int (2 ^ 53)"
    using flog2_bounds [OF assms] u lo hi by (simp_all add: field_simps)
  then have "2 ^ 52 \<le> round_half_even (x / u)" "round_half_even (x / u) \<le> 2 ^ 53"
    using round_half_even_mono round_half_even_of_int by metis+
  then have "(2::rat) ^ 52 \<le> of_int (round_half_even (x / u))"
    "of_int (round_half_even (x / u)) \<le> (2::rat) ^ 53"
    by (metis of_int_le_iff of_int_numeral of_int_power)+
  with u show "2 powi flog2 x \<le> rnd_pos x" "rnd_pos x \<le> 2 powi (flog2 x + 1)"
    unfolding lo hi rnd_pos_def Let_def u_def [symmetric] by (auto intro: mult_right_mono)
qed

lemma rnd_pos_mono:
  assumes "0 < x" "x \<le> y"
  shows "rnd_pos x \<le> rnd_pos y"
proof (cases "flog2 x = flog2 y")
  case True
  have "round_half_even (x / 2 powi (flog2 y - 52)) \<le> round_half_even (y / 2 powi (flog2 y - 52))"
    using assms by (intro round_half_even_mono divide_right_mono) auto
  then show ?thesis
    unfolding rnd_pos_def Let_def True by (intro mult_right_mono) auto
next
  case False
  with flog2_mono [OF assms] have "flog2 x + 1 \<le> flog2 y" by linarith
  then have "(2::rat) powi (flog2 x + 1) \<le> 2 powi flog2 y"
    by (intro power_int_increasing) auto
  moreover have "0 < y" using assms by linarith
  ultimately show ?thesis
    using rnd_pos_binade [OF assms(1)] rnd_pos_binade [of y] by linarith
qed

lemma rnd_pos_positive: "0 < x \<Longrightarrow> 0 < rnd_pos x"
  using rnd_pos_binade(1) [of x] zero_less_power_int [of "2::rat" "flog2 x"] by linarith

lemma rnd53_mono: "x \<le> y \<Longrightarrow> rnd53 x \<le> rnd53 y"
  using rnd_pos_mono [of x y] rnd_pos_mono [of "- y" "- x"] rnd_pos_positive [of "- x"]
    rnd_pos_positive [of y]
  unfolding rnd53_def by (auto simp: not_less)

lemma rnd53_minus [double_simps]: "rnd53 (- x) = - rnd53 x"
  by (auto simp: rnd53_def)

lemma rnd_pos_representable:
  assumes "0 < m" "m \<le> 2 ^ 53"
  shows "rnd_pos (of_int m * 2 powi k) = of_int m * 2 powi k"
proof -
  let ?x = "of_int m * 2 powi k :: rat"
  define e where "e = flog2 ?x"
  have pos: "0 < ?x" using assms by simp
  have "of_int m \<le> (of_int (2 ^ 53) :: rat)" using assms(2) by (simp only: of_int_le_iff)
  then have "?x \<le> 2 ^ 53 * 2 powi k" by (intro mult_right_mono) auto
  also have "\<dots> = 2 powi (k + 53)" by (simp add: power_int_add)
  finally have le: "?x \<le> 2 powi (k + 53)" .
  have "(2::rat) powi e \<le> 2 powi (k + 53)"
    using flog2_bounds(1) [OF pos] le unfolding e_def by linarith
  then have ek: "e \<le> k + 53" using powi_2_less [of "k + 53" e] by linarith
  have "\<exists>n. ?x / 2 powi (e - 52) = of_int n"
  proof (cases "e \<le> k + 52")
    case True
    then obtain d where d: "k = e - 52 + int d" by (metis add.commute diff_le_eq zle_iff_zadd)
    have "?x / 2 powi (e - 52) = of_int m * 2 powi (int d)"
      unfolding d by (subst power_int_add) simp_all
    also have "\<dots> = of_int (m * 2 ^ d)" by simp
    finally show ?thesis by blast
  next
    case False
    with ek have e: "e = k + 53" by linarith
    with flog2_bounds(1) [OF pos] le have "?x = 2 powi (k + 53)" unfolding e_def by simp
    then have "?x / 2 powi (e - 52) = 2 powi (k + 53 - (k + 1))"
      unfolding e by (simp add: power_int_diff power_int_add)
    also have "\<dots> = of_int (2 ^ 52)" by simp
    finally show ?thesis by blast
  qed
  then show ?thesis
    unfolding rnd_pos_def Let_def e_def [symmetric]
    by (metis round_half_even_of_int nonzero_eq_divide_eq power_int_eq_0_iff zero_neq_numeral)
qed

lemma rnd53_representable:
  assumes "\<bar>m\<bar> \<le> 2 ^ 53"
  shows "rnd53 (of_int m * 2 powi k) = of_int m * 2 powi k"
proof -
  have p: "0 < (2::rat) powi k" by simp
  then have np: "\<not> (2::rat) powi k < 0" by (simp only: not_less less_imp_le)
  consider "m = 0" | "0 < m" | "m < 0" by linarith
  then show ?thesis
  proof cases
    case 1
    then show ?thesis by (simp add: rnd53_def)
  next
    case 2
    with assms p rnd_pos_representable [of m k] show ?thesis
      by (simp add: rnd53_def mult_less_0_iff np)
  next
    case 3
    with assms p rnd_pos_representable [of "- m" k] show ?thesis
      by (simp add: rnd53_def mult_less_0_iff)
  qed
qed

lemma rnd53_of_int [double_simps]: "\<bar>m\<bar> \<le> 2 ^ 53 \<Longrightarrow> rnd53 (of_int m) = of_int m"
  using rnd53_representable [of m 0] by simp

lemma rnd53_numeral [double_simps]: "(numeral n :: int) \<le> 2 ^ 53 \<Longrightarrow> rnd53 (numeral n) = numeral n"
  using rnd53_of_int [of "numeral n"] by simp

lemma rnd53_1 [double_simps]: "rnd53 1 = 1"
  using rnd53_of_int [of 1] by simp

lemma rnd53_0 [simp]: "rnd53 0 = 0"
  by (simp add: rnd53_def)

lemma rnd53_nonneg: "0 \<le> x \<Longrightarrow> 0 \<le> rnd53 x"
  using rnd53_mono [of 0 x] by simp

section \<open>Python's int(), round() to microseconds and datetime.timestamp()\<close>

text \<open>\<^verbatim>\<open>int(x)\<close> truncates towards zero.\<close>

definition py_int :: "rat \<Rightarrow> int" where
  "py_int x = (if 0 \<le> x then \<lfloor>x\<rfloor> else - \<lfloor>- x\<rfloor>)"

lemma py_int_mono: "x \<le> y \<Longrightarrow> py_int x \<le> py_int y"
  unfolding py_int_def using floor_mono [of x y] floor_mono [of "- y" "- x"]
  by (auto simp: not_le) (meson dual_order.trans less_imp_le neg_0_le_iff_le neg_le_0_iff_le
      zero_le_floor order_less_imp_le)

lemma py_int_of_int [simp]: "py_int (of_int n) = n"
  by (auto simp: py_int_def simp flip: of_int_minus)

text \<open>
  \<^verbatim>\<open>aware.timestamp()\<close> is \<^verbatim>\<open>(self - epoch).total_seconds()\<close>, one correctly rounded division of
  the microsecond count by \<^verbatim>\<open>10**6\<close>.
\<close>

definition timestamp :: "datetime \<Rightarrow> rat" where
  "timestamp t = rnd53 (of_int t / 1000000)"

lemma timestamp_mono: "s \<le> t \<Longrightarrow> timestamp s \<le> timestamp t"
  unfolding timestamp_def by (intro rnd53_mono divide_right_mono) auto

text \<open>
  \<^verbatim>\<open>timedelta(seconds=x)\<close> in microseconds: the whole seconds are exact, the fraction is
  multiplied by \<^verbatim>\<open>1e6\<close> (rounded) and rounded half to even.
\<close>

definition timedelta_seconds :: "rat \<Rightarrow> int" where
  "timedelta_seconds x =
     py_int x * 1000000 + round_half_even (rnd53 ((x - of_int (py_int x)) * 1000000))"

lemma timedelta_seconds_of_int [simp]: "timedelta_seconds (of_int n) = seconds n"
  using round_half_even_of_int [of 0] by (simp add: timedelta_seconds_def)

end
