(* ===== verification/Py_Text.thy ===== *)
theory Py_Text
  imports Doubles "HOL-Library.Char_ord"
begin

text \<open>
  The string operations of Python's standard library that the program uses: \<^verbatim>\<open>strip\<close>,
  \<^verbatim>\<open>repr\<close>, decimal and \<^verbatim>\<open>:g\<close> formatting and the text form of a UUID.

  A Python string is a \<^typ>\<open>string\<close>: one \<^typ>\<open>char\<close> per code point, for the code points up
  to U+00FF.  HTTP header values are exactly such strings (they are decoded as Latin-1);
  payload texts with other code points are outside the model.
\<close>

section \<open>strip\<close>

definition is_space :: "char \<Rightarrow> bool" where
  "is_space c =
     (let n = of_char c :: int in
      (9 \<le> n \<and> n \<le> 13) \<or> (28 \<le> n \<and> n \<le> 32) \<or> n = 133 \<or> n = 160)"

definition strip :: "string \<Rightarrow> string" where
  "strip s = rev (dropWhile is_space (rev (dropWhile is_space s)))"

lemma strip_length: "length (strip s) \<le> length s"
  using length_dropWhile_le [of is_space "rev (dropWhile is_space s)"]
    length_dropWhile_le [of is_space s]
  by (simp add: strip_def)

lemma strip_hd: "strip s \<noteq> [] \<Longrightarrow> \<not> is_space (hd (strip s))"
proof -
  assume ne: "strip s \<noteq> []"
  define t where "t = dropWhile is_space s"
  obtain ws where "rev t = ws @ dropWhile is_space (rev t)"
    by (metis takeWhile_dropWhile_id)
  then have t: "t = strip s @ rev ws"
    by (metis rev_append rev_rev_ident strip_def t_def)
  with ne have "t \<noteq> []" "hd t = hd (strip s)" by auto
  then show ?thesis using hd_dropWhile [of is_space s] by (auto simp: t_def)
qed

lemma strip_last: "strip s \<noteq> [] \<Longrightarrow> \<not> is_space (last (strip s))"
  unfolding strip_def by (metis hd_dropWhile hd_rev last_rev rev_is_Nil_conv)

lemma strip_fixed:
  assumes "s \<noteq> [] \<Longrightarrow> \<not> is_space (hd s)" "s \<noteq> [] \<Longrightarrow> \<not> is_space (last s)"
  shows "strip s = s"
proof (cases "s = []")
  case False
  then have "dropWhile is_space s = s" "dropWhile is_space (rev s) = rev s"
    using assms by (simp_all add: dropWhile_eq_self_iff hd_rev)
  then show ?thesis by (simp add: strip_def)
qed (simp add: strip_def)

lemma strip_strip [simp]: "strip (strip s) = strip s"
  by (rule strip_fixed) (auto dest: strip_hd strip_last)

section \<open>Decimal numbers\<close>

function dec_nat :: "int \<Rightarrow> string" where
  "dec_nat n = (if n < 10 then [char_of (48 + nat n)]
                else dec_nat (n div 10) @ [char_of (48 + nat (n mod 10))])"
  by pat_completeness auto
termination
  by (relation "measure nat") auto

declare dec_nat.simps [simp del]

text \<open>\<^verbatim>\<open>str(n)\<close> of an \<^verbatim>\<open>int\<close>.\<close>

definition py_str_int :: "int \<Rightarrow> string" where
  "py_str_int n = (if n < 0 then ''-'' @ dec_nat (- n) else dec_nat n)"

lemma dec_nat_nonempty [simp]: "dec_nat n \<noteq> []"
  by (subst dec_nat.simps) simp

section \<open>f-string format :g of a non-negative double\<close>

definition flog10 :: "rat \<Rightarrow> int" where
  "flog10 x =
     (let (p, q) = quotient_of x; k = int (length (dec_nat p)) - int (length (dec_nat q)) in
      if 10 powi k \<le> x then k else k - 1)"

definition rstrip0 :: "string \<Rightarrow> string" where
  "rstrip0 s = rev (dropWhile (\<lambda>c. c = CHR ''0'') (rev s))"

definition dotted :: "string \<Rightarrow> string \<Rightarrow> string" where
  "dotted i f = (let g = rstrip0 f in if g = [] then i else i @ ''.'' @ g)"

text \<open>Six significant digits; an exponent below -4 or above 5 is written \<^verbatim>\<open>e-05\<close>, \<^verbatim>\<open>e+06\<close>.\<close>

definition fmt_g :: "rat \<Rightarrow> string" where
  "fmt_g x =
     (if x = 0 then ''0'' else
      let e0 = flog10 x;
          m0 = round_half_even (x / 10 powi (e0 - 5));
          (m, e) = (if m0 = 1000000 then (100000, e0 + 1) else (m0, e0));
          ds = dec_nat m
      in if - 4 \<le> e \<and> e < 6 then
           (if 0 \<le> e then dotted (take (nat (e + 1)) ds) (drop (nat (e + 1)) ds)
            else dotted ''0'' (replicate (nat (- e - 1)) (CHR ''0'') @ ds))
         else
           dotted (take 1 ds) (drop 1 ds) @ ''e'' @ (if e < 0 then ''-'' else ''+'') @
           (if \<bar>e\<bar> < 10 then ''0'' else []) @ dec_nat \<bar>e\<bar>)"

section \<open>isoformat of a UTC datetime\<close>

text \<open>Year, month and day of a day number counted from 1970-01-01, proleptic Gregorian.\<close>

definition civil_from_days :: "int \<Rightarrow> int \<times> int \<times> int" where
  "civil_from_days z =
     (let z1 = z + 719468;
          era = z1 div 146097;
          doe = z1 mod 146097;
          yoe = (doe - doe div 1460 + doe div 36524 - doe div 146096) div 365;
          doy = doe - (365 * yoe + yoe div 4 - yoe div 100);
          mp = (5 * doy + 2) div 153;
          d = doy - (153 * mp + 2) div 5 + 1;
          m = (if mp < 10 then mp + 3 else mp - 9);
          y = yoe + era * 400 + (if m \<le> 2 then 1 else 0)
      in (y, m, d))"

definition pad :: "nat \<Rightarrow> int \<Rightarrow> string" where
  "pad k n = (let s = dec_nat n in replicate (k - length s) (CHR ''0'') @ s)"

definition isoformat :: "datetime \<Rightarrow> string" where
  "isoformat t =
     (let us = t mod 1000000; s = t div 1000000; days = s div 86400; sec = s mod 86400;
          (y, m, d) = civil_from_days days
      in pad 4 y @ ''-'' @ pad 2 m @ ''-'' @ pad 2 d @ ''T'' @
         pad 2 (sec div 3600) @ '':'' @ pad 2 (sec div 60 mod 60) @ '':'' @ pad 2 (sec mod 60) @
         (if us = 0 then [] else ''.'' @ pad 6 us) @ ''+00:00'')"

section \<open>repr of a string\<close>

definition hex_digit :: "int \<Rightarrow> char" where
  "hex_digit d = char_of (nat (if d < 10 then 48 + d else 87 + d))"

definition is_printable :: "char \<Rightarrow> bool" where
  "is_printable c =
     (let n = of_char c :: int in (32 \<le> n \<and> n < 127) \<or> (161 \<le> n \<and> n \<noteq> 173))"

definition repr_char :: "char \<Rightarrow> char \<Rightarrow> string" where
  "repr_char q c =
     (if c = q \<or> c = CHR 0x5C then [CHR 0x5C, c]
      else if c = CHR 0x09 then [CHR 0x5C, CHR ''t'']
      else if c = CHR 0x0A then [CHR 0x5C, CHR ''n'']
      else if c = CHR 0x0D then [CHR 0x5C, CHR ''r'']
      else if is_printable c then [c]
      else [CHR 0x5C, CHR ''x'', hex_digit (of_char c div 16), hex_digit (of_char c mod 16)])"

text \<open>Single quotes, unless the text holds a single quote and no double quote.\<close>

definition py_repr :: "string \<Rightarrow> string" where
  "py_repr s =
     (let q = (if CHR 0x27 \<in> set s \<and> CHR 0x22 \<notin> set s then CHR 0x22 else CHR 0x27)
      in [q] @ concat (map (repr_char q) s) @ [q])"

section \<open>UUID text\<close>

primrec hex_fixed :: "nat \<Rightarrow> int \<Rightarrow> string" where
  "hex_fixed 0 n = []"
| "hex_fixed (Suc k) n = hex_fixed k (n div 16) @ [hex_digit (n mod 16)]"

text \<open>\<^verbatim>\<open>str(uuid)\<close>: 32 lower-case hex digits grouped 8-4-4-4-12.\<close>

definition uuid_str :: "uuid \<Rightarrow> string" where
  "uuid_str u =
     (let h = hex_fixed 32 (uint u) in
      take 8 h @ ''-'' @ take 4 (drop 8 h) @ ''-'' @ take 4 (drop 12 h) @ ''-'' @
      take 4 (drop 16 h) @ ''-'' @ drop 20 h)"

definition hex_value :: "char \<Rightarrow> int option" where
  "hex_value c =
     (let n = of_char c :: int in
      if 48 \<le> n \<and> n \<le> 57 then Some (n - 48)
      else if 97 \<le> n \<and> n \<le> 102 then Some (n - 87)
      else if 65 \<le> n \<and> n \<le> 70 then Some (n - 55) else None)"

fun hex_int :: "int \<Rightarrow> string \<Rightarrow> int option" where
  "hex_int acc [] = Some acc"
| "hex_int acc (c # cs) =
     (case hex_value c of None \<Rightarrow> None | Some d \<Rightarrow> hex_int (16 * acc + d) cs)"

text \<open>\<^verbatim>\<open>uuid.UUID(s)\<close> on hyphenated or plain hex text; \<open>None\<close> is its \<^verbatim>\<open>ValueError\<close>.\<close>

definition uuid_parse :: "string \<Rightarrow> uuid option" where
  "uuid_parse s =
     (let h = filter (\<lambda>c. c \<noteq> CHR ''-'') s in
      if length h = 32 then map_option word_of_int (hex_int 0 h) else None)"

lemma length_hex_fixed [simp]: "length (hex_fixed k n) = k"
  by (induction k arbitrary: n) auto

lemma hex_digit_inverse:
  assumes "0 \<le> d" "d < 16"
  shows "hex_value (hex_digit d) = Some d" and "hex_digit d \<noteq> CHR ''-''"
proof -
  have "\<forall>e \<in> set [0..15]. hex_value (hex_digit e) = Some e \<and> hex_digit e \<noteq> CHR ''-''"
    by code_simp
  with assms show "hex_value (hex_digit d) = Some d" "hex_digit d \<noteq> CHR ''-''" by auto
qed

lemma hex_int_append:
  "hex_int acc (xs @ ys) = (case hex_int acc xs of None \<Rightarrow> None | Some a \<Rightarrow> hex_int a ys)"
  by (induction xs arbitrary: acc) (auto split: option.split)

lemma hex_int_hex_fixed:
  "0 \<le> n \<Longrightarrow> hex_int acc (hex_fixed k n) = Some (acc * 16 ^ k + n mod 16 ^ k)"
proof (induction k arbitrary: n)
  case 0
  then show ?case by simp
next
  case (Suc k)
  have "n mod (16 * 16 ^ k) = 16 * (n div 16 mod 16 ^ k) + n mod 16"
    by (rule zmod_zmult2_eq) simp
  with Suc show ?case
    by (simp add: hex_int_append hex_digit_inverse(1) algebra_simps)
qed

lemma hex_fixed_no_dash: "c \<in> set (hex_fixed k n) \<Longrightarrow> c \<noteq> CHR ''-''"
  by (induction k arbitrary: n) (auto simp: hex_digit_inverse(2) [symmetric])

lemma uuid_str_dashless: "filter (\<lambda>c. c \<noteq> CHR ''-'') (uuid_str u) = hex_fixed 32 (uint u)"
proof -
  let ?h = "hex_fixed 32 (uint u)"
  have nd: "\<And>xs. set xs \<subseteq> set ?h \<Longrightarrow> filter (\<lambda>c. c \<noteq> CHR ''-'') xs = xs"
    by (auto simp: filter_id_conv dest: hex_fixed_no_dash)
  have sub: "\<And>a b. set (take a (drop b ?h)) \<subseteq> set ?h" "\<And>b. set (drop b ?h) \<subseteq> set ?h"
    "\<And>a. set (take a ?h) \<subseteq> set ?h"
    by (meson in_set_dropD in_set_takeD subsetI)+
  have "take 12 ?h = take 8 ?h @ take 4 (drop 8 ?h)" "take 16 ?h = take 12 ?h @ take 4 (drop 12 ?h)"
    "take 20 ?h = take 16 ?h @ take 4 (drop 16 ?h)"
    using take_add [of 8 4 ?h] take_add [of 12 4 ?h] take_add [of 16 4 ?h] by simp_all
  moreover have "take 20 ?h @ drop 20 ?h = ?h" by (rule append_take_drop_id)
  ultimately have
    "take 8 ?h @ take 4 (drop 8 ?h) @ take 4 (drop 12 ?h) @ take 4 (drop 16 ?h) @ drop 20 ?h = ?h"
    by (metis append.assoc)
  then show ?thesis
    by (simp add: uuid_str_def Let_def nd sub)
qed

lemma uuid_parse_str [simp]: "uuid_parse (uuid_str u) = Some u"
proof -
  have "uint u < 16 ^ 32" using uint_bounded [of u] by simp
  then have "hex_int 0 (hex_fixed 32 (uint u)) = Some (uint u)"
    by (subst hex_int_hex_fixed) auto
  then show ?thesis by (simp add: uuid_parse_def uuid_str_dashless)
qed

end
