(* ===== verification/Json.thy ===== *)
theory Json
  imports Py_Text
begin

text \<open>
  JSON values as Python holds them, and \<^verbatim>\<open>json.dumps\<close> with its default separators and
  \<^verbatim>\<open>ensure_ascii\<close>, which \<^verbatim>\<open>app/api/schemas.py\<close> uses to measure a payload.  A Python float is
  carried by its \<^verbatim>\<open>repr\<close>, the text \<^verbatim>\<open>dumps\<close> writes for it.  A dict is its list of items in
  insertion order.
\<close>

datatype json =
    JNull
  | JBool bool
  | JInt int
  | JFloat string
  | JStr string
  | JArr "json list"
  | JObj "(string \<times> json) list"

type_synonym json_dict = "(string \<times> json) list"

text \<open>\<^verbatim>\<open>d.get(k)\<close> and \<^verbatim>\<open>d.get(k, default)\<close>.\<close>

definition dict_get :: "json_dict \<Rightarrow> string \<Rightarrow> json" where
  "dict_get d k = (case map_of d k of None \<Rightarrow> JNull | Some v \<Rightarrow> v)"

definition dict_get_default :: "json_dict \<Rightarrow> string \<Rightarrow> json \<Rightarrow> json" where
  "dict_get_default d k v = (case map_of d k of None \<Rightarrow> v | Some w \<Rightarrow> w)"

definition esc_char :: "char \<Rightarrow> string" where
  "esc_char c =
     (let n = of_char c :: int; b = CHR 0x5C in
      if c = CHR 0x22 \<or> c = b then [b, c]
      else if n = 10 then [b, CHR ''n'']
      else if n = 13 then [b, CHR ''r'']
      else if n = 9 then [b, CHR ''t'']
      else if n = 8 then [b, CHR ''b'']
      else if n = 12 then [b, CHR ''f'']
      else if 32 \<le> n \<and> n \<le> 126 then [c]
      else [b, CHR ''u''] @ hex_fixed 4 n)"

definition dumps_str :: "string \<Rightarrow> string" where
  "dumps_str s = [CHR 0x22] @ concat (map esc_char s) @ [CHR 0x22]"

fun join :: "string \<Rightarrow> string list \<Rightarrow> string" where
  "join sep [] = []"
| "join sep [x] = x"
| "join sep (x # y # xs) = x @ sep @ join sep (y # xs)"

fun dumps :: "json \<Rightarrow> string" where
  "dumps JNull = ''null''"
| "dumps (JBool b) = (if b then ''true'' else ''false'')"
| "dumps (JInt n) = py_str_int n"
| "dumps (JFloat t) = t"
| "dumps (JStr s) = dumps_str s"
| "dumps (JArr xs) = ''['' @ join '', '' (map dumps xs) @ '']''"
| "dumps (JObj kvs) =
     ''{'' @ join '', '' (map (\<lambda>(k, v). dumps_str k @ '': '' @ dumps v) kvs) @ ''}''"

text \<open>
  What a \<^verbatim>\<open>jsonb\<close> column of PostgreSQL takes: \<^verbatim>\<open>\u0000\<close> is valid JSON, but its documentation
  excludes it from \<^verbatim>\<open>jsonb\<close>, in strings and in keys.
\<close>

fun storable :: "json \<Rightarrow> bool" where
  "storable (JStr s) = (CHR 0x00 \<notin> set s)"
| "storable (JArr xs) = list_all storable xs"
| "storable (JObj kvs) = list_all (\<lambda>(k, v). CHR 0x00 \<notin> set k \<and> storable v) kvs"
| "storable v = True"

lemma length_esc_char: "1 \<le> length (esc_char c) \<and> length (esc_char c) \<le> 6"
  by (simp add: esc_char_def Let_def)

lemma length_dumps_str: "length s + 2 \<le> length (dumps_str s) \<and> length (dumps_str s) \<le> 6 * length s + 2"
proof (induction s)
  case Nil
  then show ?case by (simp add: dumps_str_def)
next
  case (Cons c s)
  then show ?case using length_esc_char [of c] by (simp add: dumps_str_def)
qed

end
