(* ===== verification/Models.thy ===== *)
theory Models
  imports Json
begin

text \<open>
  The ORM models of \<^verbatim>\<open>app/db/models.py\<close>, column by column, with the constraints of
  \<^verbatim>\<open>app/db/schema.sql\<close>, and the abstract life cycle of a job that every operation of the
  program is checked against.
\<close>

section \<open>Enumerations\<close>

datatype JobStatus = Scheduled | Pending | Processing | Completed | Failed | Cancelled

datatype JobType = Email | Webhook | Report | Batch

datatype LogLevel = Info | Warning | Error

fun status_value :: "JobStatus \<Rightarrow> string" where
  "status_value Scheduled = ''scheduled''"
| "status_value Pending = ''pending''"
| "status_value Processing = ''processing''"
| "status_value Completed = ''completed''"
| "status_value Failed = ''failed''"
| "status_value Cancelled = ''cancelled''"

fun job_type_value :: "JobType \<Rightarrow> string" where
  "job_type_value Email = ''email''"
| "job_type_value Webhook = ''webhook''"
| "job_type_value Report = ''report''"
| "job_type_value Batch = ''batch''"

text \<open>The members in declaration order, as iterating over the class yields them.\<close>

definition all_statuses :: "JobStatus list" where
  "all_statuses = [Scheduled, Pending, Processing, Completed, Failed, Cancelled]"

lemma set_all_statuses [simp]: "set all_statuses = UNIV"
proof -
  have "s \<in> set all_statuses" for s by (cases s) (simp_all add: all_statuses_def)
  then show ?thesis by blast
qed

lemma distinct_all_statuses [simp]: "distinct all_statuses"
  by (simp add: all_statuses_def)

instantiation JobStatus :: enum
begin

definition enum_JobStatus :: "JobStatus list" where
  "enum_JobStatus = all_statuses"

definition enum_all_JobStatus :: "(JobStatus \<Rightarrow> bool) \<Rightarrow> bool" where
  "enum_all_JobStatus P = list_all P all_statuses"

definition enum_ex_JobStatus :: "(JobStatus \<Rightarrow> bool) \<Rightarrow> bool" where
  "enum_ex_JobStatus P = list_ex P all_statuses"

instance
  by intro_classes (simp_all add: enum_JobStatus_def enum_all_JobStatus_def enum_ex_JobStatus_def
      list_all_iff list_ex_iff)

end

lemma status_value_inject [simp]: "status_value s = status_value t \<longleftrightarrow> s = t"
  by (cases s; cases t) simp_all

lemma job_type_value_inject [simp]: "job_type_value s = job_type_value t \<longleftrightarrow> s = t"
  by (cases s; cases t) simp_all

text \<open>\<^verbatim>\<open>JobType(text)\<close>; \<open>None\<close> is its \<^verbatim>\<open>ValueError\<close>.\<close>

definition job_type_of_value :: "string \<Rightarrow> JobType option" where
  "job_type_of_value s = find (\<lambda>t. job_type_value t = s) [Email, Webhook, Report, Batch]"

lemma job_type_of_value [simp]: "job_type_of_value (job_type_value t) = Some t"
  by (cases t) (simp_all add: job_type_of_value_def)

section \<open>Rows\<close>

record job =
  job_id :: uuid
  job_type :: JobType
  payload :: json_dict
  status :: JobStatus
  priority :: int
  attempt_count :: int
  max_attempts :: int
  error_message :: "string option"
  error_details :: "json option"
  progress_pct :: int
  scheduled_at :: "datetime option"
  next_run_at :: "datetime option"
  idempotency_key :: "string option"
  worker_id :: "string option"
  leased_until :: "datetime option"
  result :: "json option"
  created_at :: datetime
  started_at :: "datetime option"
  completed_at :: "datetime option"

text \<open>
  A row of \<^verbatim>\<open>job_logs\<close>.  Its own id and creation time are filled in by the database and read
  by nothing.
\<close>

record job_log =
  log_job_id :: uuid
  log_level :: LogLevel
  log_message :: string
  log_metadata :: "json option"

section \<open>Constraints of the schema\<close>

text \<open>The \<^verbatim>\<open>CHECK\<close> constraints on one row.\<close>

definition row_ok :: "job \<Rightarrow> bool" where
  "row_ok j \<longleftrightarrow> 0 \<le> progress_pct j \<and> progress_pct j \<le> 100 \<and> 0 \<le> attempt_count j \<and> 0 < max_attempts j"

text \<open>The partial unique index \<^verbatim>\<open>uq_jobs_idempotency_key\<close>.\<close>

definition keys_unique :: "job list \<Rightarrow> bool" where
  "keys_unique rows \<longleftrightarrow> distinct (map idempotency_key (filter (\<lambda>j. idempotency_key j \<noteq> None) rows))"

definition table_ok :: "job list \<Rightarrow> bool" where
  "table_ok rows \<longleftrightarrow> distinct (map job_id rows) \<and> keys_unique rows \<and> list_all row_ok rows"

text \<open>A plain row, for the witnesses.\<close>

definition sample_job :: "uuid \<Rightarrow> JobStatus \<Rightarrow> datetime \<Rightarrow> job" where
  "sample_job i st created = \<lparr>job_id = i, job_type = Email, payload = [(''to'', JStr ''a@b.c'')],
     status = st, priority = 0, attempt_count = 0, max_attempts = 3, error_message = None,
     error_details = None, progress_pct = 0, scheduled_at = None, next_run_at = None,
     idempotency_key = None, worker_id = None, leased_until = None, result = None,
     created_at = created, started_at = None, completed_at = None\<rparr>"

lemma sample_job_simps [simp]:
  "job_id (sample_job i st t) = i" "status (sample_job i st t) = st"
  "job_type (sample_job i st t) = Email" "payload (sample_job i st t) = [(''to'', JStr ''a@b.c'')]"
  "priority (sample_job i st t) = 0" "attempt_count (sample_job i st t) = 0"
  "max_attempts (sample_job i st t) = 3" "error_message (sample_job i st t) = None"
  "progress_pct (sample_job i st t) = 0" "scheduled_at (sample_job i st t) = None"
  "next_run_at (sample_job i st t) = None" "idempotency_key (sample_job i st t) = None"
  "worker_id (sample_job i st t) = None" "leased_until (sample_job i st t) = None"
  "result (sample_job i st t) = None" "created_at (sample_job i st t) = t"
  "started_at (sample_job i st t) = None" "completed_at (sample_job i st t) = None"
  "row_ok (sample_job i st t)"
  by (simp_all add: sample_job_def row_ok_def)

section \<open>The life cycle of a job\<close>

text \<open>
  The specification: the status changes the README and DECISIONS.md describe.  Submission
  starts a job in \<open>Scheduled\<close> or \<open>Pending\<close>.
\<close>

inductive lifecycle :: "JobStatus \<Rightarrow> JobStatus \<Rightarrow> bool" where
  promote: "lifecycle Scheduled Pending"
| claim: "lifecycle Pending Processing"
| finish: "lifecycle Processing Completed"
| fail: "lifecycle Processing Failed"
| retry_or_reap: "lifecycle Processing Pending"
| cancel_pending: "lifecycle Pending Cancelled"
| cancel_scheduled: "lifecycle Scheduled Cancelled"
| reopen: "lifecycle Failed Pending"

code_pred lifecycle .

inductive_simps lifecycle_from [simp]:
  "lifecycle Scheduled s" "lifecycle Pending s" "lifecycle Processing s"
  "lifecycle Failed s" "lifecycle Completed s" "lifecycle Cancelled s"

definition terminal :: "JobStatus \<Rightarrow> bool" where
  "terminal s \<longleftrightarrow> s = Completed \<or> s = Cancelled"

lemma terminal_no_edge: "terminal s \<Longrightarrow> \<not> lifecycle s t"
  by (auto simp: terminal_def)

end
