(* ===== verification/Job_Table.thy ===== *)
theory Job_Table
  imports Models "HOL-Library.Product_Lexorder"
begin

text \<open>
  The statements the program sends to PostgreSQL, as operations on the table \<^verbatim>\<open>jobs\<close>.

  The table is the list of its rows in heap order.  \<open>SELECT \<dots> WHERE \<dots> ORDER BY k LIMIT n\<close> is a
  filter, a stable sort by \<open>k\<close> and a prefix: rows that tie on \<open>k\<close> come in heap order, which
  PostgreSQL leaves open and which every theorem quantifies over.  \<open>UPDATE \<dots> WHERE \<dots> RETURNING\<close>
  rewrites the rows that satisfy the condition and returns them rewritten.  One statement is
  one atomic step (READ COMMITTED, with the row lock the update takes).

  A column that is \<open>NULL\<close> makes a comparison not true, so it fails every \<open>WHERE\<close>.

  The second half is the unit of work of an SQLAlchemy session: an object loaded from a row,
  changed in memory and written back at commit, where only the columns whose value differs
  from the loaded one are written, and the \<open>UPDATE\<close> is addressed by primary key alone.
\<close>

section \<open>State\<close>

record database =
  jobs :: "job list"
  job_logs :: "job_log list"

text \<open>A violated constraint, or a value the column's type refuses.\<close>

datatype db_error = IntegrityError | DBAPIError

definition empty_db :: database where
  "empty_db = \<lparr>jobs = [], job_logs = []\<rparr>"

definition db_ok :: "database \<Rightarrow> bool" where
  "db_ok db \<longleftrightarrow> table_ok (jobs db)"

section \<open>Statements\<close>

text \<open>\<open>col <= t\<close>, \<open>col < t\<close> on a nullable column.\<close>

fun col_le :: "datetime option \<Rightarrow> datetime \<Rightarrow> bool" where
  "col_le None t = False"
| "col_le (Some a) t = (a \<le> t)"

fun col_less :: "datetime option \<Rightarrow> datetime \<Rightarrow> bool" where
  "col_less None t = False"
| "col_less (Some a) t = (a < t)"

definition get_row :: "uuid \<Rightarrow> job list \<Rightarrow> job option" where
  "get_row i rows = find (\<lambda>j. job_id j = i) rows"

definition select_rows :: "(job \<Rightarrow> bool) \<Rightarrow> (job \<Rightarrow> 'k::linorder) \<Rightarrow> nat \<Rightarrow> job list \<Rightarrow> job list" where
  "select_rows P k n rows = take n (sort_key k (filter P rows))"

definition update_where :: "(job \<Rightarrow> bool) \<Rightarrow> (job \<Rightarrow> job) \<Rightarrow> job list \<Rightarrow> job list" where
  "update_where P f rows = map (\<lambda>j. if P j then f j else j) rows"

definition update_returning ::
    "(job \<Rightarrow> bool) \<Rightarrow> (job \<Rightarrow> job) \<Rightarrow> job list \<Rightarrow> job list \<times> job list" where
  "update_returning P f rows = (map f (filter P rows), update_where P f rows)"

text \<open>\<^verbatim>\<open>scalar_one_or_none()\<close>; the primary key keeps the result at one row at most.\<close>

fun scalar_one_or_none :: "'a list \<Rightarrow> 'a option" where
  "scalar_one_or_none [] = None"
| "scalar_one_or_none (x # xs) = Some x"

text \<open>
  \<open>INSERT\<close>: the values are read first, then the constraints of the schema are checked, all by
  the statement itself, so an error surfaces where the session flushes.
\<close>

definition insert_row :: "job \<Rightarrow> job list \<Rightarrow> (db_error, job list) result" where
  "insert_row j rows =
     (if \<not> storable (JObj (payload j)) then Inl DBAPIError
      else if row_ok j \<and> job_id j \<notin> job_id ` set rows \<and>
         (idempotency_key j = None \<or> idempotency_key j \<notin> idempotency_key ` set rows)
      then Inr (rows @ [j]) else Inl IntegrityError)"

section \<open>The session's unit of work\<close>

definition merge_col :: "(job \<Rightarrow> 'a) \<Rightarrow> job \<Rightarrow> job \<Rightarrow> job \<Rightarrow> 'a" where
  "merge_col c loaded new row = (if c new = c loaded then c row else c new)"

definition orm_row :: "job \<Rightarrow> job \<Rightarrow> job \<Rightarrow> job" where
  "orm_row loaded new row = row\<lparr>
     job_type := merge_col job_type loaded new row,
     payload := merge_col payload loaded new row,
     status := merge_col status loaded new row,
     priority := merge_col priority loaded new row,
     attempt_count := merge_col attempt_count loaded new row,
     max_attempts := merge_col max_attempts loaded new row,
     error_message := merge_col error_message loaded new row,
     error_details := merge_col error_details loaded new row,
     progress_pct := merge_col progress_pct loaded new row,
     scheduled_at := merge_col scheduled_at loaded new row,
     next_run_at := merge_col next_run_at loaded new row,
     idempotency_key := merge_col idempotency_key loaded new row,
     worker_id := merge_col worker_id loaded new row,
     leased_until := merge_col leased_until loaded new row,
     result := merge_col result loaded new row,
     created_at := merge_col created_at loaded new row,
     started_at := merge_col started_at loaded new row,
     completed_at := merge_col completed_at loaded new row\<rparr>"

text \<open>\<^verbatim>\<open>session.commit()\<close> with one changed job and the log rows staged since the last commit.\<close>

definition orm_commit :: "job \<Rightarrow> job \<Rightarrow> job_log list \<Rightarrow> database \<Rightarrow> database" where
  "orm_commit loaded new logs db = db\<lparr>
     jobs := update_where (\<lambda>j. job_id j = job_id loaded) (orm_row loaded new) (jobs db),
     job_logs := job_logs db @ logs\<rparr>"

text \<open>\<^verbatim>\<open>append_job_log\<close> of \<^verbatim>\<open>app/services/job_log.py\<close>: a row staged on the session.\<close>

definition append_job_log ::
    "job_log list \<Rightarrow> uuid \<Rightarrow> string \<Rightarrow> LogLevel \<Rightarrow> json option \<Rightarrow> job_log list" where
  "append_job_log staged i message level metadata =
     staged @ [\<lparr>log_job_id = i, log_level = level, log_message = message, log_metadata = metadata\<rparr>]"

section \<open>Reading the table\<close>

lemma get_row_Some: "get_row i rows = Some j \<Longrightarrow> j \<in> set rows \<and> job_id j = i"
  unfolding get_row_def by (rule find_Some_set)

lemma get_row_None: "get_row i rows = None \<longleftrightarrow> i \<notin> job_id ` set rows"
  by (auto simp: get_row_def find_None_iff)

lemma get_row_unique:
  "distinct (map job_id rows) \<Longrightarrow> j \<in> set rows \<Longrightarrow> get_row (job_id j) rows = Some j"
  unfolding get_row_def by (rule find_unique) auto

lemma get_row_update_where [table_simps]:
  assumes "\<And>j. P j \<Longrightarrow> job_id (f j) = job_id j"
  shows "get_row i (update_where P f rows) =
    map_option (\<lambda>j. if P j then f j else j) (get_row i rows)"
  unfolding get_row_def update_where_def by (rule find_map_upd) (simp add: assms)

lemma get_row_append [table_simps]:
  "get_row i (rows @ [j]) =
    (case get_row i rows of None \<Rightarrow> if job_id j = i then Some j else None | Some r \<Rightarrow> Some r)"
  unfolding get_row_def by (induction rows) auto

lemma filter_id_row:
  assumes "distinct (map job_id rows)" "\<And>j. P j \<Longrightarrow> job_id j = i"
  shows "filter P rows = (case get_row i rows of None \<Rightarrow> [] | Some j \<Rightarrow> if P j then [j] else [])"
  using assms
proof (induction rows)
  case Nil
  then show ?case by (simp add: get_row_def)
next
  case (Cons r rows)
  show ?case
  proof (cases "job_id r = i")
    case True
    with Cons.prems have "i \<notin> job_id ` set rows" by auto
    then have "filter P rows = []" using Cons.prems(2) by (force simp: filter_empty_conv)
    with True show ?thesis by (simp add: get_row_def)
  next
    case False
    with Cons.prems(2) have "\<not> P r" by blast
    with Cons False show ?thesis by (simp add: get_row_def)
  qed
qed

text \<open>What \<open>UPDATE \<dots> WHERE id = i AND \<dots> RETURNING\<close> gives on a table with its primary key.\<close>

lemma update_returning_one [table_simps]:
  assumes "distinct (map job_id rows)" "\<And>j. P j \<Longrightarrow> job_id j = i"
  shows "scalar_one_or_none (fst (update_returning P f rows)) =
    (case get_row i rows of None \<Rightarrow> None | Some j \<Rightarrow> if P j then Some (f j) else None)"
  using filter_id_row [OF assms]
  by (auto simp: update_returning_def split: option.splits)

lemma snd_update_returning [simp]: "snd (update_returning P f rows) = update_where P f rows"
  by (simp add: update_returning_def)

lemma fst_update_returning [simp]: "fst (update_returning P f rows) = map f (filter P rows)"
  by (simp add: update_returning_def)

lemma update_where_none:
  "(\<And>j. j \<in> set rows \<Longrightarrow> \<not> P j) \<Longrightarrow> update_where P f rows = rows"
  unfolding update_where_def by (rule map_if_cong_id)

lemma set_select_rows: "j \<in> set (select_rows P k n rows) \<Longrightarrow> j \<in> set rows \<and> P j"
  unfolding select_rows_def by (auto dest: in_set_takeD)

lemma select_rows_all:
  "length (filter P rows) \<le> n \<Longrightarrow> set (select_rows P k n rows) = {j \<in> set rows. P j}"
  unfolding select_rows_def by auto

lemma sorted_select_rows: "sorted (map k (select_rows P k n rows))"
  unfolding select_rows_def by (metis sorted_sort_key sorted_wrt_take take_map)

lemma distinct_select_rows:
  "distinct (map job_id rows) \<Longrightarrow> distinct (map job_id (select_rows P k n rows))"
proof -
  assume d: "distinct (map job_id rows)"
  then have "distinct (filter P rows)" "inj_on job_id (set (filter P rows))"
    by (auto simp: distinct_map inj_on_def)
  then have "distinct (map job_id (sort_key k (filter P rows)))"
    by (auto simp: distinct_map)
  then show ?thesis unfolding select_rows_def by (metis distinct_take take_map)
qed

section \<open>Writing back an object\<close>

lemma orm_row_simps [row_simps]:
  "job_id (orm_row loaded new row) = job_id row"
  "job_type (orm_row loaded new row) = merge_col job_type loaded new row"
  "payload (orm_row loaded new row) = merge_col payload loaded new row"
  "status (orm_row loaded new row) = merge_col status loaded new row"
  "priority (orm_row loaded new row) = merge_col priority loaded new row"
  "attempt_count (orm_row loaded new row) = merge_col attempt_count loaded new row"
  "max_attempts (orm_row loaded new row) = merge_col max_attempts loaded new row"
  "error_message (orm_row loaded new row) = merge_col error_message loaded new row"
  "progress_pct (orm_row loaded new row) = merge_col progress_pct loaded new row"
  "scheduled_at (orm_row loaded new row) = merge_col scheduled_at loaded new row"
  "next_run_at (orm_row loaded new row) = merge_col next_run_at loaded new row"
  "idempotency_key (orm_row loaded new row) = merge_col idempotency_key loaded new row"
  "worker_id (orm_row loaded new row) = merge_col worker_id loaded new row"
  "leased_until (orm_row loaded new row) = merge_col leased_until loaded new row"
  "result (orm_row loaded new row) = merge_col result loaded new row"
  "created_at (orm_row loaded new row) = merge_col created_at loaded new row"
  "started_at (orm_row loaded new row) = merge_col started_at loaded new row"
  "completed_at (orm_row loaded new row) = merge_col completed_at loaded new row"
  by (simp_all add: orm_row_def)

text \<open>Writing back over the very row that was loaded yields the object.\<close>

lemma merge_col_same [simp]: "merge_col c loaded new loaded = c new"
  by (simp add: merge_col_def)

lemma merge_col_clean [simp]: "merge_col c loaded loaded row = c row"
  by (simp add: merge_col_def)

lemma orm_row_same [simp]: "job_id new = job_id loaded \<Longrightarrow> orm_row loaded new loaded = new"
  by (simp add: orm_row_def)

lemma orm_row_clean [simp]: "orm_row loaded loaded row = row"
  by (simp add: orm_row_def)

lemma orm_commit_jobs [table_simps]:
  "jobs (orm_commit loaded new logs db) =
    update_where (\<lambda>j. job_id j = job_id loaded) (orm_row loaded new) (jobs db)"
  "job_logs (orm_commit loaded new logs db) = job_logs db @ logs"
  by (simp_all add: orm_commit_def)

section \<open>The table invariant\<close>

lemma keys_unique_filter:
  "keys_unique rows \<longleftrightarrow> distinct (filter (\<lambda>k. k \<noteq> None) (map idempotency_key rows))"
  by (simp add: keys_unique_def filter_map o_def)

lemma keys_unique_map:
  assumes "keys_unique rows"
    and "\<And>j. j \<in> set rows \<Longrightarrow> idempotency_key (f j) = idempotency_key j \<or> idempotency_key (f j) = None"
  shows "keys_unique (map f rows)"
proof -
  have "distinct (filter (\<lambda>k. k \<noteq> None) (map idempotency_key rows)) \<Longrightarrow>
    (\<And>j. j \<in> set rows \<Longrightarrow> idempotency_key (f j) = idempotency_key j \<or> idempotency_key (f j) = None) \<Longrightarrow>
    distinct (filter (\<lambda>k. k \<noteq> None) (map idempotency_key (map f rows))) \<and>
    set (filter (\<lambda>k. k \<noteq> None) (map idempotency_key (map f rows)))
      \<subseteq> set (filter (\<lambda>k. k \<noteq> None) (map idempotency_key rows))"
  proof (induction rows)
    case Nil
    then show ?case by simp
  next
    case (Cons r rows)
    let ?old = "filter (\<lambda>k. k \<noteq> None) (map idempotency_key rows)"
    let ?new = "filter (\<lambda>k. k \<noteq> None) (map idempotency_key (map f rows))"
    have ih: "distinct ?new" "set ?new \<subseteq> set ?old"
      using Cons by (auto split: if_splits)
    show ?case
    proof (cases "idempotency_key (f r) = None")
      case True
      with ih show ?thesis by auto
    next
      case False
      with Cons.prems(2) [of r] have eq: "idempotency_key (f r) = idempotency_key r" by auto
      with False Cons.prems(1) have "idempotency_key r \<notin> set ?old" by auto
      with ih(2) have "idempotency_key r \<notin> set ?new" by blast
      with ih eq False show ?thesis by auto
    qed
  qed
  with assms show ?thesis by (auto simp: keys_unique_filter)
qed

lemma table_ok_update_where:
  assumes "table_ok rows"
    and "\<And>j. P j \<Longrightarrow> job_id (f j) = job_id j"
    and "\<And>j. j \<in> set rows \<Longrightarrow> P j \<Longrightarrow>
      idempotency_key (f j) = idempotency_key j \<or> idempotency_key (f j) = None"
    and "\<And>j. j \<in> set rows \<Longrightarrow> P j \<Longrightarrow> row_ok j \<Longrightarrow> row_ok (f j)"
  shows "table_ok (update_where P f rows)"
proof -
  have "map job_id (update_where P f rows) = map job_id rows"
    unfolding update_where_def using assms(2) by (simp add: o_def)
  moreover have "keys_unique (update_where P f rows)"
    unfolding update_where_def using assms(1,3) by (intro keys_unique_map) (auto simp: table_ok_def)
  moreover have "list_all row_ok (update_where P f rows)"
    using assms(1,4) by (auto simp: table_ok_def update_where_def list_all_iff)
  ultimately show ?thesis using assms(1) by (simp add: table_ok_def)
qed

lemma table_ok_distinct: "table_ok rows \<Longrightarrow> distinct (map job_id rows)"
  by (simp add: table_ok_def)

lemma table_ok_insert: "table_ok rows \<Longrightarrow> insert_row j rows = Inr rows' \<Longrightarrow> table_ok rows'"
  by (auto simp: table_ok_def insert_row_def keys_unique_def image_iff split: if_splits)

lemma orm_row_ok: "row_ok new \<Longrightarrow> row_ok row \<Longrightarrow> row_ok (orm_row loaded new row)"
  by (simp add: row_ok_def row_simps merge_col_def)

lemma orm_commit_db_ok:
  assumes "db_ok db" "idempotency_key new = idempotency_key loaded" "row_ok new"
  shows "db_ok (orm_commit loaded new logs db)"
  using assms unfolding db_ok_def orm_commit_jobs
  by (intro table_ok_update_where) (auto simp: row_simps orm_row_ok merge_col_def)

lemma db_ok_row: "db_ok db \<Longrightarrow> get_row i (jobs db) = Some j \<Longrightarrow> row_ok j"
  using get_row_Some by (fastforce simp: db_ok_def table_ok_def list_all_iff)

lemma db_ok_distinct: "db_ok db \<Longrightarrow> distinct (map job_id (jobs db))"
  by (simp add: db_ok_def table_ok_def)

lemma db_ok_empty [simp]: "db_ok empty_db"
  by (simp add: db_ok_def empty_db_def table_ok_def keys_unique_def)

section \<open>The contract of a guarded update\<close>

text \<open>
  Five operations of the program are one statement \<open>UPDATE jobs SET \<dots> WHERE \<dots>\<close>.  What they
  share: the statement keeps the identity of its rows, never invents an idempotency key,
  respects the \<^verbatim>\<open>CHECK\<close> constraints, and moves a row along an edge of the life cycle or leaves
  its status alone.
\<close>

locale guarded_update =
  fixes guard :: "job \<Rightarrow> bool"
    and set_cols :: "job \<Rightarrow> job"
  assumes keeps_id: "job_id (set_cols j) = job_id j"
    and keeps_key: "idempotency_key (set_cols j) = idempotency_key j \<or> idempotency_key (set_cols j) = None"
    and keeps_checks: "guard j \<Longrightarrow> row_ok j \<Longrightarrow> row_ok (set_cols j)"
    and follows_lifecycle: "guard j \<Longrightarrow> status (set_cols j) = status j \<or> lifecycle (status j) (status (set_cols j))"
begin

lemma table_kept: "table_ok rows \<Longrightarrow> table_ok (update_where guard set_cols rows)"
  using keeps_id keeps_key keeps_checks by (intro table_ok_update_where) auto

lemma row_after:
  "get_row i (update_where guard set_cols rows) =
    map_option (\<lambda>j. if guard j then set_cols j else j) (get_row i rows)"
  by (intro get_row_update_where keeps_id)

lemma status_after:
  assumes "get_row i rows = Some j" "get_row i (update_where guard set_cols rows) = Some j'"
  shows "status j' = status j \<or> lifecycle (status j) (status j')"
  using assms follows_lifecycle [of j] by (auto simp: row_after split: if_splits)

lemma ids_kept: "map job_id (update_where guard set_cols rows) = map job_id rows"
  unfolding update_where_def using keeps_id by (simp add: o_def)

end

section \<open>The contract of an object update\<close>

text \<open>
  The other operations load an object, compute new values and commit.  The lemmas hold for a
  commit over any row: over the row that was loaded it stores the new values, over a row that
  another process has changed meanwhile it stores the merge, and the table stays well-formed
  in both cases.
\<close>

locale object_update =
  fixes allowed :: "job \<Rightarrow> bool"
    and new :: "job \<Rightarrow> job"
  assumes new_id: "job_id (new j) = job_id j"
    and new_key: "idempotency_key (new j) = idempotency_key j"
    and new_ok: "row_ok j \<Longrightarrow> row_ok (new j)"
    and new_lifecycle: "allowed j \<Longrightarrow> status (new j) = status j \<or> lifecycle (status j) (status (new j))"
begin

lemma commit_db_ok: "db_ok db \<Longrightarrow> row_ok loaded \<Longrightarrow> db_ok (orm_commit loaded (new loaded) logs db)"
  by (intro orm_commit_db_ok new_key new_ok)

lemma commit_row:
  "get_row i (jobs (orm_commit loaded (new loaded) logs db)) =
    map_option (\<lambda>row. if i = job_id loaded then orm_row loaded (new loaded) row else row) (get_row i (jobs db))"
  using get_row_Some [of i "jobs db"]
  by (cases "get_row i (jobs db)") (auto simp: table_simps row_simps)

lemma commit_fresh:
  assumes "get_row i (jobs db) = Some loaded"
  shows "get_row i (jobs (orm_commit loaded (new loaded) logs db)) = Some (new loaded)"
  using get_row_Some [OF assms] by (simp add: commit_row assms new_id)

lemma commit_other:
  "i \<noteq> job_id loaded \<Longrightarrow>
    get_row i (jobs (orm_commit loaded (new loaded) logs db)) = get_row i (jobs db)"
  by (cases "get_row i (jobs db)") (simp_all add: commit_row)

lemma commit_ids: "map job_id (jobs (orm_commit loaded (new loaded) logs db)) = map job_id (jobs db)"
  by (simp add: table_simps update_where_def o_def row_simps)

end

end
