(* ===== verification/Claim.thy ===== *)
theory Claim
  imports Job_Table
begin

text \<open>
  \<^verbatim>\<open>app/worker/claim.py\<close>: the conditional \<open>UPDATE\<close> by which a worker takes a pending job, and
  the renewal of its lease.  \<open>now\<close> is the clock of the worker process
  (\<^verbatim>\<open>datetime.now(UTC)\<close>), \<open>db_now\<close> the clock of the database (\<^verbatim>\<open>now()\<close>, the start of the
  transaction).
\<close>

definition claim_guard :: "uuid \<Rightarrow> datetime \<Rightarrow> job \<Rightarrow> bool" where
  "claim_guard i db_now j \<longleftrightarrow>
     job_id j = i \<and> status j = Pending \<and> (next_run_at j = None \<or> col_le (next_run_at j) db_now)"

definition claim_set :: "string \<Rightarrow> datetime \<Rightarrow> datetime \<Rightarrow> job \<Rightarrow> job" where
  "claim_set w lease_end db_now j =
     j\<lparr>status := Processing, worker_id := Some w, leased_until := Some lease_end,
       started_at := Some db_now, attempt_count := attempt_count j + 1\<rparr>"

text \<open>An update that matches no row is rolled back; it has changed nothing.\<close>

definition claim_job ::
    "datetime \<Rightarrow> datetime \<Rightarrow> uuid \<Rightarrow> string \<Rightarrow> int \<Rightarrow> database \<Rightarrow> job option \<times> database" where
  "claim_job now db_now i w lease_seconds db =
     (let lease_end = now + seconds lease_seconds;
          (returned, rows) = update_returning (claim_guard i db_now) (claim_set w lease_end db_now) (jobs db)
      in case scalar_one_or_none returned of
           None \<Rightarrow> (None, db)
         | Some j \<Rightarrow> (Some j, db\<lparr>jobs := rows\<rparr>))"

definition renew_guard :: "uuid \<Rightarrow> string \<Rightarrow> job \<Rightarrow> bool" where
  "renew_guard i w j \<longleftrightarrow> job_id j = i \<and> status j = Processing \<and> worker_id j = Some w"

definition renew_set :: "datetime \<Rightarrow> job \<Rightarrow> job" where
  "renew_set lease_end j = j\<lparr>leased_until := Some lease_end\<rparr>"

definition renew_job_lease ::
    "datetime \<Rightarrow> uuid \<Rightarrow> string \<Rightarrow> int \<Rightarrow> database \<Rightarrow> datetime option \<times> database" where
  "renew_job_lease now i w lease_seconds db =
     (let lease_end = now + seconds lease_seconds;
          (returned, rows) = update_returning (renew_guard i w) (renew_set lease_end) (jobs db)
      in case scalar_one_or_none (map leased_until returned) of
           None \<Rightarrow> (None, db)
         | Some until \<Rightarrow> (until, db\<lparr>jobs := rows\<rparr>))"

section \<open>Lemmas\<close>

lemma claim_set_simps [row_simps]:
  "job_id (claim_set w l t j) = job_id j" "status (claim_set w l t j) = Processing"
  "worker_id (claim_set w l t j) = Some w" "leased_until (claim_set w l t j) = Some l"
  "started_at (claim_set w l t j) = Some t" "attempt_count (claim_set w l t j) = attempt_count j + 1"
  "max_attempts (claim_set w l t j) = max_attempts j" "job_type (claim_set w l t j) = job_type j"
  "payload (claim_set w l t j) = payload j" "progress_pct (claim_set w l t j) = progress_pct j"
  "idempotency_key (claim_set w l t j) = idempotency_key j"
  "next_run_at (claim_set w l t j) = next_run_at j"
  "error_message (claim_set w l t j) = error_message j"
  "row_ok j \<Longrightarrow> row_ok (claim_set w l t j)"
  by (simp_all add: claim_set_def row_ok_def)

lemma renew_set_simps [row_simps]:
  "job_id (renew_set l j) = job_id j" "status (renew_set l j) = status j"
  "worker_id (renew_set l j) = worker_id j" "leased_until (renew_set l j) = Some l"
  "attempt_count (renew_set l j) = attempt_count j" "max_attempts (renew_set l j) = max_attempts j"
  "idempotency_key (renew_set l j) = idempotency_key j" "row_ok (renew_set l j) = row_ok j"
  by (simp_all add: renew_set_def row_ok_def)

interpretation claiming: guarded_update "claim_guard i db_now" "claim_set w lease_end db_now"
  by unfold_locales (auto simp: row_simps claim_guard_def)

interpretation renewing: guarded_update "renew_guard i w" "renew_set lease_end"
  by unfold_locales (auto simp: row_simps)

lemma claim_job_eq:
  assumes "distinct (map job_id (jobs db))"
  shows "claim_job now db_now i w lease db =
    (case get_row i (jobs db) of
       None \<Rightarrow> (None, db)
     | Some j \<Rightarrow>
         if claim_guard i db_now j then
           (Some (claim_set w (now + seconds lease) db_now j),
            db\<lparr>jobs := update_where (claim_guard i db_now) (claim_set w (now + seconds lease) db_now) (jobs db)\<rparr>)
         else (None, db))"
proof -
  have "scalar_one_or_none (fst (update_returning (claim_guard i db_now) (claim_set w (now + seconds lease) db_now) (jobs db))) =
    (case get_row i (jobs db) of None \<Rightarrow> None
     | Some j \<Rightarrow> if claim_guard i db_now j then Some (claim_set w (now + seconds lease) db_now j) else None)"
    by (rule update_returning_one [OF assms]) (simp add: claim_guard_def)
  then show ?thesis
    by (auto simp: claim_job_def Let_def update_returning_def split: option.splits)
qed

lemma claim_job_db_ok: "db_ok db \<Longrightarrow> db_ok (snd (claim_job now db_now i w lease db))"
  by (auto simp: claim_job_eq db_ok_distinct db_ok_def claiming.table_kept table_ok_distinct split: option.splits)

lemma renew_job_lease_eq:
  assumes "distinct (map job_id (jobs db))"
  shows "renew_job_lease now i w lease db =
    (case get_row i (jobs db) of
       None \<Rightarrow> (None, db)
     | Some j \<Rightarrow>
         if renew_guard i w j then
           (Some (now + seconds lease),
            db\<lparr>jobs := update_where (renew_guard i w) (renew_set (now + seconds lease)) (jobs db)\<rparr>)
         else (None, db))"
proof -
  have "filter (renew_guard i w) (jobs db) =
      (case get_row i (jobs db) of None \<Rightarrow> [] | Some j \<Rightarrow> if renew_guard i w j then [j] else [])"
    by (rule filter_id_row [OF assms]) (simp add: renew_guard_def)
  then show ?thesis
    by (auto simp: renew_job_lease_def Let_def update_returning_def row_simps split: option.splits)
qed

text \<open>The row of a successful claim, and the other rows.\<close>

lemma claim_job_Some:
  assumes "db_ok db" "claim_job now db_now i w lease db = (Some j', db')"
  obtains j where "get_row i (jobs db) = Some j" "claim_guard i db_now j"
    "j' = claim_set w (now + seconds lease) db_now j" "get_row i (jobs db') = Some j'" "db_ok db'"
    "\<And>k. k \<noteq> i \<Longrightarrow> get_row k (jobs db') = get_row k (jobs db)" "job_logs db' = job_logs db"
proof -
  from assms obtain j where j: "get_row i (jobs db) = Some j" "claim_guard i db_now j"
    and j': "j' = claim_set w (now + seconds lease) db_now j"
    and db': "db' = db\<lparr>jobs := update_where (claim_guard i db_now)
                     (claim_set w (now + seconds lease) db_now) (jobs db)\<rparr>"
    by (auto simp: claim_job_eq db_ok_distinct split: option.splits if_splits)
  have ok: "db_ok db'" using claim_job_db_ok [OF assms(1), of now db_now i w lease] assms(2) by simp
  have row: "get_row i (jobs db') = Some j'" by (simp add: db' claiming.row_after j j')
  have other: "get_row k (jobs db') = get_row k (jobs db)" if "k \<noteq> i" for k
    using that get_row_Some [of k "jobs db"]
    by (cases "get_row k (jobs db)") (auto simp: db' claiming.row_after claim_guard_def)
  show ?thesis by (rule that [OF j j' row ok other]) (simp_all add: db')
qed

lemma claim_job_None:
  "db_ok db \<Longrightarrow> claim_job now db_now i w lease db = (None, db') \<Longrightarrow> db' = db"
  by (auto simp: claim_job_eq db_ok_distinct split: option.splits if_splits)

section \<open>Properties\<close>

text \<open>
  A claim succeeds exactly when the job exists, is pending and is due by the database's
  clock.  Then it counts one attempt more, belongs to this worker until the lease ends, and no
  other row changes; otherwise nothing changes at all.
\<close>

theorem claim_job_spec:
  assumes "db_ok db"
  shows "case claim_job now db_now i w lease db of
      (None, db') \<Rightarrow> db' = db \<and> (\<forall>j. get_row i (jobs db) = Some j \<longrightarrow>
        status j \<noteq> Pending \<or> (\<exists>t. next_run_at j = Some t \<and> db_now < t))
    | (Some j', db') \<Rightarrow> (\<exists>j. get_row i (jobs db) = Some j \<and> status j = Pending \<and>
        (\<forall>t. next_run_at j = Some t \<longrightarrow> t \<le> db_now) \<and>
        j' = j\<lparr>status := Processing, worker_id := Some w, leased_until := Some (now + seconds lease),
               started_at := Some db_now, attempt_count := attempt_count j + 1\<rparr> \<and>
        (\<forall>k. get_row k (jobs db') = (if k = i then Some j' else get_row k (jobs db))))"
proof (cases "claim_job now db_now i w lease db")
  case (Pair res db')
  show ?thesis
  proof (cases res)
    case None
    have "db' = db" using claim_job_None [OF assms] Pair None by simp
    moreover have "status j \<noteq> Pending \<or> (\<exists>t. next_run_at j = Some t \<and> db_now < t)"
      if "get_row i (jobs db) = Some j" for j
      using Pair None that get_row_Some [OF that] assms
      by (cases "next_run_at j") (auto simp: claim_job_eq db_ok_distinct claim_guard_def split: if_splits)
    ultimately show ?thesis using Pair None by simp
  next
    case (Some j')
    with Pair have c: "claim_job now db_now i w lease db = (Some j', db')" by simp
    obtain j where "get_row i (jobs db) = Some j" "claim_guard i db_now j"
      "j' = claim_set w (now + seconds lease) db_now j" "get_row i (jobs db') = Some j'"
      "\<And>k. k \<noteq> i \<Longrightarrow> get_row k (jobs db') = get_row k (jobs db)"
      by (rule claim_job_Some [OF assms c]) (rule that)
    then show ?thesis by (auto simp: c claim_guard_def claim_set_def)
  qed
qed

theorem claim_job_spec_witness:
  "fst (claim_job 1000 1000 1 ''w1'' 60 (empty_db\<lparr>jobs := [sample_job 1 Pending 0]\<rparr>)) \<noteq> None"
proof -
  let ?db = "empty_db\<lparr>jobs := [sample_job 1 Pending 0]\<rparr>"
  have "db_ok ?db" by (simp add: db_ok_def table_ok_def keys_unique_def)
  from claim_job_spec [OF this, where i = 1 and now = 1000 and db_now = 1000 and w = "''w1''" and lease = 60]
  show ?thesis
    by (auto simp: get_row_def split: prod.splits option.splits)
qed

text \<open>
  Exclusive ownership: after a worker has claimed a job, every claim of that job by any
  worker at any time finds nothing and changes nothing, as long as the row stays as it is.
\<close>

lemma claim_is_exclusive:
  assumes "db_ok db" and "claim_job now db_now i w lease db = (Some j, db1)"
  shows "claim_job now' db_now' i w' lease' db1 = (None, db1)"
proof -
  obtain j0 where "j = claim_set w (now + seconds lease) db_now j0"
    "get_row i (jobs db1) = Some j" "db_ok db1"
    by (rule claim_job_Some [OF assms]) (rule that)
  then show ?thesis by (simp add: claim_job_eq db_ok_distinct claim_guard_def row_simps)
qed

text \<open>
  A lease is renewed exactly when the job is still processed by this worker; then its row
  ends later and nothing else changes.  A worker whose job was reaped, finished or claimed by
  another is told so and changes nothing.
\<close>

lemma renew_job_lease_spec:
  assumes "db_ok db"
  shows "renew_job_lease now i w lease db =
    (case get_row i (jobs db) of
       Some j \<Rightarrow>
         if status j = Processing \<and> worker_id j = Some w then
           (Some (now + seconds lease),
            db\<lparr>jobs := map (\<lambda>k. if k = j then j\<lparr>leased_until := Some (now + seconds lease)\<rparr> else k) (jobs db)\<rparr>)
         else (None, db)
     | None \<Rightarrow> (None, db))"
proof (cases "get_row i (jobs db)")
  case (Some j)
  then have j: "j \<in> set (jobs db)" "job_id j = i" using get_row_Some by auto
  have eq: "k = j \<longleftrightarrow> job_id k = i" if "k \<in> set (jobs db)" for k
  proof
    assume "job_id k = i"
    with get_row_unique [OF db_ok_distinct [OF assms] that] have "get_row i (jobs db) = Some k" by simp
    with Some show "k = j" by simp
  qed (simp add: j(2))
  have upd: "update_where (renew_guard i w) (renew_set l) (jobs db) =
      map (\<lambda>k. if k = j then j\<lparr>leased_until := Some l\<rparr> else k) (jobs db)"
    if g: "status j = Processing" "worker_id j = Some w" for l
    unfolding update_where_def
  proof (rule map_cong [OF refl])
    fix k
    assume "k \<in> set (jobs db)"
    from eq [OF this] g j(2)
    show "(if renew_guard i w k then renew_set l k else k) = (if k = j then j\<lparr>leased_until := Some l\<rparr> else k)"
      unfolding renew_guard_def renew_set_def by metis
  qed
  show ?thesis
  proof (cases "status j = Processing \<and> worker_id j = Some w")
    case True
    then have "renew_guard i w j" using j by (simp add: renew_guard_def)
    with True show ?thesis
      unfolding renew_job_lease_eq [OF db_ok_distinct [OF assms]] Some option.case
      by (simp only: upd if_True simp_thms)
  next
    case False
    then have "\<not> renew_guard i w j" by (simp add: renew_guard_def)
    with False show ?thesis
      unfolding renew_job_lease_eq [OF db_ok_distinct [OF assms]] Some option.case
      by (simp only: if_False)
  qed
qed (simp add: renew_job_lease_eq db_ok_distinct [OF assms])

end
