(* ===== verification/Keys.thy ===== *)
theory Keys
  imports Doubles
begin

text \<open>
  \<^verbatim>\<open>app/queue/keys.py\<close>: the score of a job in \<^verbatim>\<open>jobs:pending\<close> and its order.  The Redis key
  names themselves are the fields of the record \<open>redis\<close> in \<open>Queue_Client\<close>.

  The creation time enters the score through two rounded operations,
  \<^verbatim>\<open>timestamp()\<close> and \<^verbatim>\<open>* 1000\<close>; the lemmas bound what the rounding can do for the times up to
  \<open>2 ^ 51\<close> microseconds, the year 2041.
\<close>

definition DEAD_LETTER_MAX_LEN :: nat where
  "DEAD_LETTER_MAX_LEN = 1000"

definition PRIORITY_SCALE :: int where
  "PRIORITY_SCALE = 10 ^ 12"

definition created_at_epoch_ms :: "datetime \<Rightarrow> int" where
  "created_at_epoch_ms t = py_int (rnd53 (timestamp t * 1000))"

definition priority_score :: "int \<Rightarrow> datetime \<Rightarrow> int" where
  "priority_score p t = (- p * PRIORITY_SCALE) + created_at_epoch_ms t"

definition max_time :: datetime where
  "max_time = 2 ^ 51"

section \<open>Rounding error of the milliseconds\<close>

lemma created_at_epoch_ms_mono: "s \<le> t \<Longrightarrow> created_at_epoch_ms s \<le> created_at_epoch_ms t"
  unfolding created_at_epoch_ms_def
  by (intro py_int_mono rnd53_mono mult_right_mono timestamp_mono) auto

lemma rnd53_relative_error:
  assumes "0 \<le> x"
  shows "\<bar>rnd53 x - x\<bar> \<le> x / 2 ^ 53"
proof (cases "x = 0")
  case False
  with assms have x: "0 < x" by simp
  define u :: rat where "u = 2 powi (flog2 x - 52)"
  have u: "0 < u" by (simp add: u_def)
  have "2 powi flog2 x = u * 2 ^ 52" unfolding u_def by (simp add: power_int_diff)
  with flog2_bounds(1) [OF x] have ux: "u * 2 ^ 52 \<le> x" by simp
  have "rnd53 x - x = (of_int (round_half_even (x / u)) - x / u) * u"
    using x u by (simp add: rnd53_def rnd_pos_def Let_def u_def [symmetric] algebra_simps)
  then have "\<bar>rnd53 x - x\<bar> = \<bar>of_int (round_half_even (x / u)) - x / u\<bar> * u"
    using u by (simp add: abs_mult)
  also have "\<dots> \<le> 1 / 2 * u"
    using u by (intro mult_right_mono round_half_even_error) auto
  also have "\<dots> \<le> x / 2 ^ 53" using ux by simp
  finally show ?thesis .
qed simp

lemma epoch_ms_error:
  assumes "0 \<le> t" "t \<le> max_time"
  shows "\<bar>rnd53 (timestamp t * 1000) - of_int t / 1000\<bar> < 1 / 1000"
proof -
  define v :: rat where "v = of_int t / 1000000"
  have tt: "of_int t \<le> (2251799813685248 :: rat)"
    using assms(2) of_int_le_iff [of t "2251799813685248", where 'a = rat]
    by (simp add: max_time_def)
  then have v: "0 \<le> v" "v \<le> 2251799814" using assms(1) by (simp_all add: v_def)
  define a where "a = timestamp t"
  have a: "\<bar>a - v\<bar> \<le> v / 2 ^ 53"
    unfolding a_def timestamp_def v_def by (rule rnd53_relative_error) (use assms in simp)
  have a0: "0 \<le> a" unfolding a_def timestamp_def using assms(1) by (intro rnd53_nonneg) simp
  define b where "b = rnd53 (a * 1000)"
  have b: "\<bar>b - a * 1000\<bar> \<le> a * 1000 / 2 ^ 53"
    unfolding b_def by (rule rnd53_relative_error) (use a0 in simp)
  have "a \<le> v + v / 2 ^ 53" using a by linarith
  then have a1: "a \<le> 2251799815" using v by simp
  have p: "(2::rat) ^ 53 = 9007199254740992" by simp
  have "\<bar>b - v * 1000\<bar> < 1 / 1000"
    using a b v a1 unfolding p by linarith
  then show ?thesis by (simp add: a_def b_def v_def)
qed

lemma created_at_epoch_ms_bounds:
  assumes "0 \<le> t" "t \<le> max_time"
  shows "t div 1000 - 1 \<le> created_at_epoch_ms t" "created_at_epoch_ms t \<le> t div 1000"
    and "t mod 1000 \<noteq> 0 \<Longrightarrow> created_at_epoch_ms t = t div 1000"
proof -
  define w where "w = rnd53 (timestamp t * 1000)"
  define k r where "k = t div 1000" and "r = t mod 1000"
  have t: "t = 1000 * k + r" "0 \<le> r" "r \<le> 999" by (auto simp: k_def r_def)
  have v: "of_int t / 1000 = (of_int k + of_int r / 1000 :: rat)" by (simp add: t(1) field_simps)
  have r: "0 \<le> (of_int r :: rat)" "(of_int r :: rat) \<le> 999"
    using t(2,3) of_int_le_iff [of r 999, where 'a = rat] by simp_all
  have err: "\<bar>w - (of_int k + of_int r / 1000)\<bar> < 1 / 1000"
    using epoch_ms_error [OF assms] unfolding w_def v by simp
  have w0: "0 \<le> w"
    unfolding w_def timestamp_def using assms(1) by (intro rnd53_nonneg mult_nonneg_nonneg) simp_all
  have e: "created_at_epoch_ms t = \<lfloor>w\<rfloor>"
    using w0 by (simp add: created_at_epoch_ms_def py_int_def w_def)
  have lt: "w < of_int k + 1" and gt: "of_int k - 1 \<le> w"
    using err r by linarith+
  show "t div 1000 - 1 \<le> created_at_epoch_ms t" "created_at_epoch_ms t \<le> t div 1000"
    unfolding e k_def [symmetric] using lt gt by (simp_all add: le_floor_iff floor_le_iff)
  show "created_at_epoch_ms t = t div 1000" if "t mod 1000 \<noteq> 0"
  proof -
    have "1 \<le> r" using that t(2) by (simp add: r_def)
    then have "1 \<le> (of_int r :: rat)" using of_int_le_iff [of 1 r, where 'a = rat] by simp
    then have "of_int k \<le> w" using err by linarith
    with lt show ?thesis unfolding e k_def [symmetric] by (simp add: floor_eq_iff)
  qed
qed

lemma priority_score_bound:
  assumes "\<bar>p\<bar> \<le> 1000" "0 \<le> t" "t \<le> max_time"
  shows "\<bar>priority_score p t\<bar> \<le> 2 ^ 53"
  using assms created_at_epoch_ms_bounds(1,2) [OF assms(2,3)]
  by (simp add: priority_score_def PRIORITY_SCALE_def max_time_def abs_le_iff) linarith

lemma rnd53_priority_score:
  assumes "\<bar>p\<bar> \<le> 1000" "0 \<le> t" "t \<le> max_time"
  shows "rnd53 (of_int (priority_score p t)) = of_int (priority_score p t)"
  by (intro rnd53_of_int priority_score_bound assms)

lemma priority_score_less:
  assumes "q < p" "0 \<le> s" "s \<le> max_time" "0 \<le> t" "t \<le> max_time" "t - s \<le> 10 ^ 15 - 3000"
  shows "priority_score p t < priority_score q s"
proof -
  have "created_at_epoch_ms t - created_at_epoch_ms s < 10 ^ 12"
    using created_at_epoch_ms_bounds(1) [of s] created_at_epoch_ms_bounds(2) [of t] assms by simp
  moreover have "q * 10 ^ 12 + 10 ^ 12 \<le> p * 10 ^ 12" using assms(1) by simp
  ultimately show ?thesis by (simp add: priority_score_def PRIORITY_SCALE_def)
qed

section \<open>Properties\<close>

text \<open>
  Higher priority first: of two jobs created at most about 31.6 years apart
  (10^15 - 3000 microseconds), the one with the higher priority has the smaller score,
  whatever the floating-point rounding of the creation times does.
\<close>

theorem priority_dominates_age:
  assumes "q < p" "0 \<le> s" "s \<le> max_time" "0 \<le> t" "t \<le> max_time" "t - s \<le> 10 ^ 15 - 3000"
  shows "priority_score p t < priority_score q s"
  using assms by (rule priority_score_less)

theorem priority_dominates_age_witness:
  "priority_score 1 1760000000000000 < priority_score 0 1750000000000000"
  by (rule priority_dominates_age) (simp_all add: max_time_def)

text \<open>
  Within one priority the score never decreases with the creation time, and grows
  strictly once the creation times are two milliseconds apart.
\<close>

lemma fifo_within_priority:
  assumes "0 \<le> s" "s \<le> t" "t \<le> max_time"
  shows "priority_score p s \<le> priority_score p t \<and>
    (s + 2000 \<le> t \<longrightarrow> priority_score p s < priority_score p t)"
proof -
  have "s + 2000 \<le> t \<Longrightarrow> s div 1000 + 2 \<le> t div 1000" by linarith
  then show ?thesis
    using assms created_at_epoch_ms_mono [of s t] created_at_epoch_ms_bounds(1) [of t]
      created_at_epoch_ms_bounds(2) [of s]
    by (simp add: priority_score_def) linarith
qed

text \<open>
  The score of every priority the API accepts is exact as a double, so Redis orders jobs
  by the integer the code computes.
\<close>

theorem score_exact_in_redis:
  assumes "\<bar>p\<bar> \<le> 1000" "0 \<le> t" "t \<le> max_time"
  shows "rnd53 (of_int (priority_score p t)) = of_int (priority_score p t)"
  using assms by (rule rnd53_priority_score)

theorem score_exact_in_redis_witness:
  "rnd53 (of_int (priority_score (- 1000) 1760000000123456)) =
    of_int (priority_score (- 1000) 1760000000123456)"
  by (rule score_exact_in_redis) (simp_all add: max_time_def)

text \<open>
  Milliseconds of the creation time: the two roundings never move the value upwards past
  the exact floor, lose at most one millisecond, and only at a whole millisecond.
\<close>

lemma created_at_epoch_ms_within_one:
  assumes "0 \<le> t" "t \<le> max_time"
  shows "created_at_epoch_ms t = t div 1000 \<or>
    (created_at_epoch_ms t = t div 1000 - 1 \<and> t mod 1000 = 0)"
  using created_at_epoch_ms_bounds [OF assms] by fastforce

end
