(* ===== verification/Redis_Zset.thy ===== *)
theory Redis_Zset
  imports Prelude "HOL-Library.AList"
begin

text \<open>
  Redis is a service the program calls: its sorted set is a parameter of the model, a record
  of the commands the program issues together with \<open>zscores\<close>, which reads a set as the map
  from members to scores (\<^verbatim>\<open>ZSCORE\<close>).  The locale states what the Redis documentation promises
  of the commands; every fact about the queues is proved from these laws, or assumes them as
  the hypothesis \<open>zset Z\<close>.  \<open>list_zset\<close> is a reference instance on association lists that
  satisfies them, on which the witnesses run.

  Members are compared as \<^verbatim>\<open>ZPOPMIN\<close> does among equal scores.  For UUIDs in their text form of
  fixed length in lower-case hex, that order is the order of the 128-bit values.
\<close>

section \<open>The commands\<close>

record ('z, 'm) zset_ops =
  \<comment> \<open>\<^verbatim>\<open>ZADD key [NX] score member\<close>: number of members added, new set\<close>
  zadd :: "bool \<Rightarrow> 'm \<Rightarrow> rat \<Rightarrow> 'z \<Rightarrow> nat \<times> 'z"
  \<comment> \<open>\<^verbatim>\<open>ZREM key member\<close>\<close>
  zrem :: "'m \<Rightarrow> 'z \<Rightarrow> 'z"
  \<comment> \<open>\<^verbatim>\<open>ZPOPMIN key 1\<close>: the popped pairs, new set\<close>
  zpopmin :: "'z \<Rightarrow> ('m \<times> rat) list \<times> 'z"
  \<comment> \<open>\<^verbatim>\<open>ZRANGEBYSCORE key min max [LIMIT 0 n]\<close>; \<open>None\<close> is an infinite bound, no limit\<close>
  zrangebyscore :: "rat option \<Rightarrow> rat option \<Rightarrow> nat option \<Rightarrow> 'z \<Rightarrow> ('m \<times> rat) list"
  \<comment> \<open>\<^verbatim>\<open>ZREMRANGEBYSCORE key -inf max\<close>\<close>
  zremrangebyscore :: "rat \<Rightarrow> 'z \<Rightarrow> 'z"
  \<comment> \<open>\<^verbatim>\<open>ZCARD key\<close>\<close>
  zcard :: "'z \<Rightarrow> nat"
  \<comment> \<open>the set as a map\<close>
  zscores :: "'z \<Rightarrow> 'm \<Rightarrow> rat option"

definition in_range :: "rat option \<Rightarrow> rat option \<Rightarrow> rat \<Rightarrow> bool" where
  "in_range lo hi x \<longleftrightarrow>
     (case lo of None \<Rightarrow> True | Some l \<Rightarrow> l \<le> x) \<and> (case hi of None \<Rightarrow> True | Some h \<Rightarrow> x \<le> h)"

definition take_limit :: "nat option \<Rightarrow> 'a list \<Rightarrow> 'a list" where
  "take_limit n xs = (case n of None \<Rightarrow> xs | Some k \<Rightarrow> take k xs)"

section \<open>The documented laws\<close>

locale zset =
  fixes Z :: "('z, 'm::linorder) zset_ops"
  assumes zscores_finite: "finite (dom (zscores Z s))"
    and zadd_count: "fst (zadd Z nx m x s) = (if zscores Z s m = None then 1 else 0)"
    and zadd_scores: "zscores Z (snd (zadd Z nx m x s)) =
      (if nx \<and> zscores Z s m \<noteq> None then zscores Z s else (zscores Z s)(m \<mapsto> x))"
    and zrem_scores: "zscores Z (zrem Z m s) = (zscores Z s)(m := None)"
    and zpopmin_empty: "zscores Z s = Map.empty \<Longrightarrow> zpopmin Z s = ([], s)"
    and zpopmin_least: "zscores Z s \<noteq> Map.empty \<Longrightarrow>
      \<exists>m x. fst (zpopmin Z s) = [(m, x)] \<and> zscores Z s m = Some x \<and>
        (\<forall>m' x'. zscores Z s m' = Some x' \<longrightarrow> x < x' \<or> x = x' \<and> m \<le> m') \<and>
        zscores Z (snd (zpopmin Z s)) = (zscores Z s)(m := None)"
    and zrange_set: "set (zrangebyscore Z lo hi None s) =
      {(m, x). zscores Z s m = Some x \<and> in_range lo hi x}"
    and zrange_distinct: "distinct (map fst (zrangebyscore Z lo hi None s))"
    and zrange_sorted: "sorted (map snd (zrangebyscore Z lo hi None s))"
    and zrange_limit: "zrangebyscore Z lo hi n s = take_limit n (zrangebyscore Z lo hi None s)"
    and zremrange_scores: "zscores Z (zremrangebyscore Z h s) m =
      (case zscores Z s m of None \<Rightarrow> None | Some x \<Rightarrow> if x \<le> h then None else Some x)"
    and zcard_scores: "zcard Z s = card (dom (zscores Z s))"
begin

lemma zpopmin_cases:
  obtains (empty) "zscores Z s = Map.empty" "zpopmin Z s = ([], s)"
  | (least) m x s' where "zpopmin Z s = ([(m, x)], s')" "zscores Z s m = Some x"
      "\<And>m' x'. zscores Z s m' = Some x' \<Longrightarrow> x < x' \<or> x = x' \<and> m \<le> m'"
      "zscores Z s' = (zscores Z s)(m := None)"
proof (cases "zscores Z s = Map.empty")
  case True
  then show ?thesis by (rule empty) (rule zpopmin_empty [OF True])
next
  case False
  then obtain m x where *: "fst (zpopmin Z s) = [(m, x)]" "zscores Z s m = Some x"
    "\<forall>m' x'. zscores Z s m' = Some x' \<longrightarrow> x < x' \<or> x = x' \<and> m \<le> m'"
    "zscores Z (snd (zpopmin Z s)) = (zscores Z s)(m := None)"
    using zpopmin_least [OF False] by (elim exE conjE) (rule that)
  show ?thesis
  proof (rule least)
    show "zpopmin Z s = ([(m, x)], snd (zpopmin Z s))" by (simp add: prod_eq_iff *(1))
    show "zscores Z s m = Some x" by (rule *(2))
    show "x < x' \<or> x = x' \<and> m \<le> m'" if "zscores Z s m' = Some x'" for m' x'
      using *(3) that by blast
    show "zscores Z (snd (zpopmin Z s)) = (zscores Z s)(m := None)" by (rule *(4))
  qed
qed

lemma zrange_take: "set (zrangebyscore Z lo hi n s) \<subseteq> {(m, x). zscores Z s m = Some x \<and> in_range lo hi x}"
  using zrange_set [of lo hi s]
  by (subst zrange_limit) (auto simp: take_limit_def split: option.splits dest!: in_set_takeD)

lemma zadd_keeps: "m' \<noteq> m \<Longrightarrow> zscores Z (snd (zadd Z nx m x s)) m' = zscores Z s m'"
  by (simp add: zadd_scores)

lemma zadd_member: "zscores Z (snd (zadd Z nx m x s)) m \<noteq> None"
  by (simp add: zadd_scores)

lemma zcard_zadd:
  "zcard Z (snd (zadd Z nx m x s)) = zcard Z s + fst (zadd Z nx m x s)"
proof -
  have "dom (zscores Z (snd (zadd Z nx m x s))) = insert m (dom (zscores Z s))"
    by (auto simp: zadd_scores)
  then show ?thesis
    using zscores_finite [of s] by (auto simp: zcard_scores zadd_count card_insert_if)
qed

end

section \<open>A reference instance\<close>

type_synonym 'm alist_zset = "('m \<times> rat) list"

definition zsorted :: "('m::linorder) alist_zset \<Rightarrow> ('m \<times> rat) list" where
  "zsorted s = sort_key snd (sort_key fst (AList.clearjunk s))"

definition list_zset :: "('m::linorder alist_zset, 'm) zset_ops" where
  "list_zset = \<lparr>
     zadd = (\<lambda>nx m x s. case map_of s m of None \<Rightarrow> (1, AList.update m x s)
                        | Some _ \<Rightarrow> (0, if nx then s else AList.update m x s)),
     zrem = AList.delete,
     zpopmin = (\<lambda>s. case zsorted s of [] \<Rightarrow> ([], s) | (m, x) # _ \<Rightarrow> ([(m, x)], AList.delete m s)),
     zrangebyscore = (\<lambda>lo hi n s. take_limit n (filter (\<lambda>(m, x). in_range lo hi x) (zsorted s))),
     zremrangebyscore = (\<lambda>h s. filter (\<lambda>(m, x). h < x) (AList.clearjunk s)),
     zcard = (\<lambda>s. length (AList.clearjunk s)),
     zscores = map_of\<rparr>"

lemma set_zsorted: "set (zsorted s) = {(m, x). map_of s m = Some x}"
proof -
  have "set (AList.clearjunk s) = {(m, x). map_of (AList.clearjunk s) m = Some x}"
    using map_of_eq_Some_iff [OF distinct_clearjunk, of s] by auto
  then show ?thesis by (simp add: zsorted_def map_of_clearjunk)
qed

lemma distinct_zsorted: "distinct (map fst (zsorted s))"
proof -
  have d: "distinct (map fst (AList.clearjunk s))" by (rule distinct_clearjunk)
  then have "distinct (zsorted s)" "inj_on fst (set (zsorted s))"
    by (auto simp: zsorted_def distinct_map)
  then show ?thesis by (simp add: distinct_map)
qed

lemma zsorted_hd_least:
  assumes "zsorted s = (m, x) # r" "map_of s m' = Some x'"
  shows "x < x' \<or> x = x' \<and> m \<le> m'"
proof -
  let ?ys = "sort_key fst (AList.clearjunk s)"
  have mem: "(m', x') \<in> set ((m, x) # r)"
    using set_zsorted [of s] assms by auto
  have "sorted (map snd ((m, x) # r))"
    unfolding assms(1) [symmetric] zsorted_def by simp
  with mem have le: "x \<le> x'" by auto
  have "x = x' \<Longrightarrow> m \<le> m'"
  proof -
    assume "x = x'"
    have "filter (\<lambda>p. snd p = x) ((m, x) # r) = filter (\<lambda>p. snd p = x) ?ys"
      unfolding assms(1) [symmetric] zsorted_def by (rule sort_key_stable)
    moreover have "sorted (map fst (filter (\<lambda>p. snd p = x) ?ys))"
      by (simp add: sorted_filter)
    ultimately have "sorted (map fst (filter (\<lambda>p. snd p = x) ((m, x) # r)))" by simp
    with mem \<open>x = x'\<close> show "m \<le> m'" by auto
  qed
  with le show ?thesis by auto
qed

interpretation lz: zset "list_zset :: ('m::linorder alist_zset, 'm) zset_ops"
proof (unfold_locales, goal_cases)
  case (1 s)
  then show ?case by (simp add: list_zset_def finite_dom_map_of)
next
  case (2 nx m x s)
  then show ?case by (simp add: list_zset_def split: option.split)
next
  case (3 nx m x s)
  then show ?case by (auto simp: list_zset_def update_conv split: option.split)
next
  case (4 m s)
  then show ?case by (simp add: list_zset_def delete_conv')
next
  case (5 s)
  then have "set (zsorted s) = {}" by (simp add: set_zsorted list_zset_def)
  then show ?case by (simp add: list_zset_def)
next
  case (6 s)
  then have "set (zsorted s) \<noteq> {}"
    by (auto simp: set_zsorted list_zset_def fun_eq_iff)
  then obtain m x r where s: "zsorted s = (m, x) # r" by (metis list.set_cases list.exhaust list.set(1) surj_pair)
  then have "map_of s m = Some x" using set_zsorted [of s] by auto
  with s zsorted_hd_least [OF s] show ?case by (auto simp: list_zset_def delete_conv')
next
  case (7 lo hi s)
  then show ?case by (auto simp: list_zset_def take_limit_def set_zsorted)
next
  case (8 lo hi s)
  then show ?case
    using distinct_zsorted [of s] by (simp add: list_zset_def take_limit_def distinct_map_filter)
next
  case (9 lo hi s)
  have "sorted (map snd (zsorted s))" by (simp add: zsorted_def)
  then show ?case by (simp add: list_zset_def take_limit_def sorted_filter)
next
  case (10 lo hi n s)
  then show ?case by (simp add: list_zset_def take_limit_def)
next
  case (11 h s m)
  have "map_of (filter (\<lambda>(m, x). h < x) xs) m =
      (case map_of xs m of None \<Rightarrow> None | Some x \<Rightarrow> if x \<le> h then None else Some x)"
    if "distinct (map fst xs)" for xs :: "'m alist_zset"
    using that by (induction xs) (auto split: option.splits simp: map_of_eq_None_iff image_iff)
  from this [OF distinct_clearjunk] show ?case by (simp add: list_zset_def map_of_clearjunk)
next
  case (12 s)
  have "dom (map_of s) = set (map fst (AList.clearjunk s))"
    by (simp add: dom_map_of_conv_image_fst dom_clearjunk)
  then show ?case
    using distinct_card [OF distinct_clearjunk [of s]] by (simp add: list_zset_def)
qed

lemmas list_zset_laws = lz.zset_axioms

lemma list_zset_sel [simp]:
  "zscores list_zset = map_of"
  "zrem list_zset = AList.delete"
  by (simp_all add: list_zset_def)

end
