(* ===== verification/Queue_Client.thy ===== *)
theory Queue_Client
  imports Keys Redis_Zset "HOL-Library.Char_ord" "HOL-Library.List_Lexorder"
begin

text \<open>
  \<^verbatim>\<open>app/queue/client.py\<close>: the class \<^verbatim>\<open>QueueClient\<close>, one definition per method, over the record
  of the four Redis keys.  \<open>Z\<close> is the sorted-set service for job ids, \<open>H\<close> the one for worker
  names.  A method takes the structures and returns its result with the new structures.
  The scores handed to \<^verbatim>\<open>ZADD\<close> are doubles: an integer score is rounded as Redis parses it.

  A job id crosses to Redis as \<^verbatim>\<open>str(job_id)\<close> and back as \<^verbatim>\<open>uuid.UUID(member)\<close>; by
  \<open>uuid_parse_str\<close> that is the identity, so members are modelled as UUIDs.
\<close>

record ('z, 'h) redis =
  jobs_pending :: 'z
  jobs_scheduled :: 'z
  jobs_dead_letter :: "uuid list"
  workers_heartbeat :: 'h

definition enqueue ::
    "('z, uuid) zset_ops \<Rightarrow> uuid \<Rightarrow> int \<Rightarrow> bool \<Rightarrow> ('z, 'h) redis \<Rightarrow> bool \<times> ('z, 'h) redis" where
  "enqueue Z i score nx r =
     (let (added, z) = zadd Z nx i (rnd53 (of_int score)) (jobs_pending r)
      in (added \<noteq> 0, r\<lparr>jobs_pending := z\<rparr>))"

definition schedule ::
    "('z, uuid) zset_ops \<Rightarrow> uuid \<Rightarrow> datetime \<Rightarrow> ('z, 'h) redis \<Rightarrow> bool \<times> ('z, 'h) redis" where
  "schedule Z i run_at r =
     (let (added, z) = zadd Z False i (timestamp run_at) (jobs_scheduled r)
      in (added \<noteq> 0, r\<lparr>jobs_scheduled := z\<rparr>))"

definition dequeue ::
    "('z, uuid) zset_ops \<Rightarrow> ('z, 'h) redis \<Rightarrow> uuid option \<times> ('z, 'h) redis" where
  "dequeue Z r =
     (let (items, z) = zpopmin Z (jobs_pending r); r' = r\<lparr>jobs_pending := z\<rparr>
      in case items of [] \<Rightarrow> (None, r') | (i, _) # _ \<Rightarrow> (Some i, r'))"

definition due_scheduled ::
    "('z, uuid) zset_ops \<Rightarrow> rat \<Rightarrow> nat \<Rightarrow> ('z, 'h) redis \<Rightarrow> uuid list" where
  "due_scheduled Z now limit r =
     map fst (zrangebyscore Z None (Some now) (Some limit) (jobs_scheduled r))"

text \<open>\<^verbatim>\<open>ZRANGE key 0 0\<close> is the first entry of the range without bounds.\<close>

definition next_scheduled_score ::
    "('z, uuid) zset_ops \<Rightarrow> ('z, 'h) redis \<Rightarrow> rat option" where
  "next_scheduled_score Z r =
     (case zrangebyscore Z None None (Some 1) (jobs_scheduled r) of
        [] \<Rightarrow> None | (_, score) # _ \<Rightarrow> Some score)"

definition remove_job ::
    "('z, uuid) zset_ops \<Rightarrow> uuid \<Rightarrow> ('z, 'h) redis \<Rightarrow> ('z, 'h) redis" where
  "remove_job Z i r = r\<lparr>jobs_pending := zrem Z i (jobs_pending r),
                       jobs_scheduled := zrem Z i (jobs_scheduled r)\<rparr>"

definition remove_scheduled ::
    "('z, uuid) zset_ops \<Rightarrow> uuid \<Rightarrow> ('z, 'h) redis \<Rightarrow> ('z, 'h) redis" where
  "remove_scheduled Z i r = r\<lparr>jobs_scheduled := zrem Z i (jobs_scheduled r)\<rparr>"

definition pending_depth :: "('z, uuid) zset_ops \<Rightarrow> ('z, 'h) redis \<Rightarrow> nat" where
  "pending_depth Z r = zcard Z (jobs_pending r)"

definition scheduled_depth :: "('z, uuid) zset_ops \<Rightarrow> ('z, 'h) redis \<Rightarrow> nat" where
  "scheduled_depth Z r = zcard Z (jobs_scheduled r)"

text \<open>\<^verbatim>\<open>LPUSH\<close> then \<^verbatim>\<open>LTRIM 0 (max - 1)\<close>; \<^verbatim>\<open>LREM key 0 id\<close> removes every occurrence.\<close>

definition dead_letter :: "uuid \<Rightarrow> ('z, 'h) redis \<Rightarrow> ('z, 'h) redis" where
  "dead_letter i r = r\<lparr>jobs_dead_letter := take DEAD_LETTER_MAX_LEN (i # jobs_dead_letter r)\<rparr>"

definition remove_dead_letter :: "uuid \<Rightarrow> ('z, 'h) redis \<Rightarrow> ('z, 'h) redis" where
  "remove_dead_letter i r = r\<lparr>jobs_dead_letter := removeAll i (jobs_dead_letter r)\<rparr>"

definition dead_letter_depth :: "('z, 'h) redis \<Rightarrow> nat" where
  "dead_letter_depth r = length (jobs_dead_letter r)"

text \<open>
  The worker set; \<open>now\<close> is \<^verbatim>\<open>time.time()\<close> and \<open>ttl\<close> the setting, unless the caller passes them.
\<close>

definition worker_heartbeat ::
    "('h, string) zset_ops \<Rightarrow> string \<Rightarrow> rat \<Rightarrow> rat \<Rightarrow> ('z, 'h) redis \<Rightarrow> ('z, 'h) redis" where
  "worker_heartbeat H w now ttl r =
     r\<lparr>workers_heartbeat :=
         zremrangebyscore H (rnd53 (now - ttl)) (snd (zadd H False w now (workers_heartbeat r)))\<rparr>"

definition worker_offline ::
    "('h, string) zset_ops \<Rightarrow> string \<Rightarrow> ('z, 'h) redis \<Rightarrow> ('z, 'h) redis" where
  "worker_offline H w r = r\<lparr>workers_heartbeat := zrem H w (workers_heartbeat r)\<rparr>"

definition ping :: "'e option \<Rightarrow> ('e, bool) result" where
  "ping err = (case err of Some e \<Rightarrow> Inl e | None \<Rightarrow> Inr True)"

definition list_alive_workers ::
    "('h, string) zset_ops \<Rightarrow> rat \<Rightarrow> rat \<Rightarrow> ('z, 'h) redis \<Rightarrow> (string \<times> rat) list" where
  "list_alive_workers H now ttl r =
     zrangebyscore H (Some (rnd53 (now - ttl))) None None (workers_heartbeat r)"

section \<open>What the methods do to the scores\<close>

abbreviation pending_score :: "('z, uuid) zset_ops \<Rightarrow> ('z, 'h) redis \<Rightarrow> uuid \<Rightarrow> rat option" where
  "pending_score Z r \<equiv> zscores Z (jobs_pending r)"

abbreviation scheduled_score :: "('z, uuid) zset_ops \<Rightarrow> ('z, 'h) redis \<Rightarrow> uuid \<Rightarrow> rat option" where
  "scheduled_score Z r \<equiv> zscores Z (jobs_scheduled r)"

lemma redis_frame [simp]:
  "jobs_scheduled (snd (enqueue Z i sc nx r)) = jobs_scheduled r"
  "jobs_dead_letter (snd (enqueue Z i sc nx r)) = jobs_dead_letter r"
  "workers_heartbeat (snd (enqueue Z i sc nx r)) = workers_heartbeat r"
  "jobs_pending (snd (schedule Z i t r)) = jobs_pending r"
  "jobs_dead_letter (snd (schedule Z i t r)) = jobs_dead_letter r"
  "jobs_scheduled (snd (dequeue Z r)) = jobs_scheduled r"
  "jobs_dead_letter (snd (dequeue Z r)) = jobs_dead_letter r"
  "jobs_pending (remove_scheduled Z i r) = jobs_pending r"
  "jobs_dead_letter (remove_scheduled Z i r) = jobs_dead_letter r"
  "jobs_dead_letter (remove_job Z i r) = jobs_dead_letter r"
  "jobs_pending (dead_letter i r) = jobs_pending r"
  "jobs_scheduled (dead_letter i r) = jobs_scheduled r"
  "jobs_pending (remove_dead_letter i r) = jobs_pending r"
  "jobs_scheduled (remove_dead_letter i r) = jobs_scheduled r"
  by (simp_all add: enqueue_def schedule_def dequeue_def remove_scheduled_def remove_job_def
      dead_letter_def remove_dead_letter_def Let_def split: prod.splits list.splits)

text \<open>The queue of job ids and the set of worker names are two uses of the same service.\<close>

locale job_queue = zset Z for Z :: "('z, uuid) zset_ops"
begin

lemma enqueue_added: "fst (enqueue Z i sc nx r) \<longleftrightarrow> pending_score Z r i = None"
  by (simp add: enqueue_def case_prod_unfold zadd_count Let_def)

lemma enqueue_scores:
  "pending_score Z (snd (enqueue Z i sc nx r)) =
    (if nx \<and> pending_score Z r i \<noteq> None then pending_score Z r
     else (pending_score Z r)(i \<mapsto> rnd53 (of_int sc)))"
  by (simp add: enqueue_def case_prod_unfold zadd_scores Let_def)

lemma schedule_scores:
  "scheduled_score Z (snd (schedule Z i t r)) = (scheduled_score Z r)(i \<mapsto> timestamp t)"
  by (simp add: schedule_def case_prod_unfold zadd_scores Let_def)

lemma remove_scores:
  "pending_score Z (remove_job Z i r) = (pending_score Z r)(i := None)"
  "scheduled_score Z (remove_job Z i r) = (scheduled_score Z r)(i := None)"
  "scheduled_score Z (remove_scheduled Z i r) = (scheduled_score Z r)(i := None)"
  by (simp_all add: remove_job_def remove_scheduled_def zrem_scores)

lemma dequeue_None: "fst (dequeue Z r) = None \<longleftrightarrow> pending_score Z r = Map.empty"
  by (rule zpopmin_cases [of "jobs_pending r"]) (auto simp: dequeue_def)

lemma dequeue_Some:
  assumes "dequeue Z r = (Some i, r')"
  obtains x where "pending_score Z r i = Some x"
    "\<And>m y. pending_score Z r m = Some y \<Longrightarrow> x < y \<or> x = y \<and> i \<le> m"
    "pending_score Z r' = (pending_score Z r)(i := None)"
  by (rule zpopmin_cases [of "jobs_pending r"])
    (use assms in \<open>auto simp: dequeue_def intro: that\<close>)

lemma dequeue_empty: "dequeue Z r = (None, r') \<Longrightarrow> r' = r"
  by (rule zpopmin_cases [of "jobs_pending r"]) (auto simp: dequeue_def)

lemma due_scheduled_sound:
  "i \<in> set (due_scheduled Z now n r) \<Longrightarrow> \<exists>x. scheduled_score Z r i = Some x \<and> x \<le> now"
  using zrange_take [of None "Some now" "Some n" "jobs_scheduled r"]
  by (auto simp: due_scheduled_def in_range_def)

lemma distinct_due_scheduled: "distinct (due_scheduled Z now n r)"
  unfolding due_scheduled_def
  using zrange_distinct [of None "Some now" "jobs_scheduled r"]
  by (subst zrange_limit) (simp add: take_limit_def flip: take_map)

lemma due_scheduled_all:
  assumes "scheduled_score Z r i = Some x" "x \<le> now" "card {m. \<exists>y. scheduled_score Z r m = Some y \<and> y \<le> now} \<le> n"
  shows "i \<in> set (due_scheduled Z now n r)"
proof -
  let ?L = "zrangebyscore Z None (Some now) None (jobs_scheduled r)"
  have L: "set (map fst ?L) = {m. \<exists>y. scheduled_score Z r m = Some y \<and> y \<le> now}"
    by (auto simp: zrange_set in_range_def image_iff)
  from distinct_card [OF zrange_distinct [of None "Some now" "jobs_scheduled r"]] L assms(3) have "length ?L \<le> n" by simp
  then have "due_scheduled Z now n r = map fst ?L"
    unfolding due_scheduled_def by (subst zrange_limit) (simp add: take_limit_def)
  then show ?thesis using L assms(1,2) by simp
qed

lemma depth_zero: "pending_depth Z r = 0 \<longleftrightarrow> pending_score Z r = Map.empty"
  using zscores_finite [of "jobs_pending r"] by (simp add: pending_depth_def zcard_scores)

lemma dequeue_depth:
  assumes "dequeue Z r = (popped, r')"
  shows "pending_depth Z r' = pending_depth Z r - 1"
proof (cases popped)
  case None
  with assms dequeue_empty dequeue_None [of r] depth_zero [of r] show ?thesis by auto
next
  case (Some i)
  then have "pending_score Z r i \<noteq> None" "pending_score Z r' = (pending_score Z r)(i := None)"
    using assms dequeue_Some [of r i r'] by (metis option.distinct(1))+
  then show ?thesis
    using zscores_finite [of "jobs_pending r"]
    by (simp add: pending_depth_def zcard_scores card_Diff_singleton domIff)
qed

lemmas queue_simps = enqueue_added enqueue_scores schedule_scores remove_scores

end

locale worker_set = zset H for H :: "('h, string) zset_ops"
begin

lemma heartbeat_scores:
  "zscores H (workers_heartbeat (worker_heartbeat H w now ttl r)) m =
    (let x = (if m = w then Some now else zscores H (workers_heartbeat r) m) in
     case x of None \<Rightarrow> None | Some t \<Rightarrow> if t \<le> rnd53 (now - ttl) then None else Some t)"
  by (simp add: worker_heartbeat_def zremrange_scores zadd_scores)

lemma offline_scores:
  "zscores H (workers_heartbeat (worker_offline H w r)) = (zscores H (workers_heartbeat r))(w := None)"
  by (simp add: worker_offline_def zrem_scores)

lemma alive_iff:
  "(w, t) \<in> set (list_alive_workers H now ttl r) \<longleftrightarrow>
    zscores H (workers_heartbeat r) w = Some t \<and> rnd53 (now - ttl) \<le> t"
  by (simp add: list_alive_workers_def zrange_set in_range_def)

lemma alive_distinct: "distinct (map fst (list_alive_workers H now ttl r))"
  by (simp add: list_alive_workers_def zrange_distinct)

end

interpretation lq: job_queue "list_zset :: (uuid alist_zset, uuid) zset_ops"
  by unfold_locales

interpretation lw: worker_set "list_zset :: (string alist_zset, string) zset_ops"
  by unfold_locales

lemmas list_queue = lq.job_queue_axioms
lemmas list_workers = lw.worker_set_axioms

section \<open>Properties\<close>

text \<open>
  The queue holds jobs with the scores the program computes: priorities the API accepts,
  creation times in the modelled range and within 31 years of each other.
\<close>

definition scored_by ::
    "('z, uuid) zset_ops \<Rightarrow> (uuid \<Rightarrow> int) \<Rightarrow> (uuid \<Rightarrow> datetime) \<Rightarrow> ('z, 'h) redis \<Rightarrow> bool" where
  "scored_by Z prio created r \<longleftrightarrow>
     (\<forall>m x. pending_score Z r m = Some x \<longrightarrow>
        x = rnd53 (of_int (priority_score (prio m) (created m))) \<and>
        \<bar>prio m\<bar> \<le> 1000 \<and> 0 \<le> created m \<and> created m \<le> max_time) \<and>
     (\<forall>m n. pending_score Z r m \<noteq> None \<and> pending_score Z r n \<noteq> None \<longrightarrow>
        created m - created n \<le> 10 ^ 15 - 3000)"

text \<open>
  Dispatch order: a successful dequeue returns a job of the highest priority in the
  queue, among those one whose creation millisecond is least, and removes exactly that job.
\<close>

theorem dequeue_highest_priority_first:
  assumes "job_queue Z" and "scored_by Z prio created r" and "dequeue Z r = (Some i, r')"
  shows "pending_score Z r i \<noteq> None \<and> pending_score Z r' = (pending_score Z r)(i := None) \<and>
    (\<forall>m. pending_score Z r m \<noteq> None \<longrightarrow>
      prio m < prio i \<or>
      (prio m = prio i \<and> created_at_epoch_ms (created i) \<le> created_at_epoch_ms (created m)))"
proof -
  obtain x where x: "pending_score Z r i = Some x"
    and least: "\<And>m y. pending_score Z r m = Some y \<Longrightarrow> x < y \<or> x = y \<and> i \<le> m"
    and r': "pending_score Z r' = (pending_score Z r)(i := None)"
    using job_queue.dequeue_Some [OF assms(1,3)] by blast
  have "prio m < prio i \<or>
      (prio m = prio i \<and> created_at_epoch_ms (created i) \<le> created_at_epoch_ms (created m))"
    if m: "pending_score Z r m = Some y" for m y
  proof -
    have b: "\<bar>prio i\<bar> \<le> 1000" "0 \<le> created i" "created i \<le> max_time"
      "\<bar>prio m\<bar> \<le> 1000" "0 \<le> created m" "created m \<le> max_time"
      "created m - created i \<le> 10 ^ 15 - 3000"
      and xy: "x = rnd53 (of_int (priority_score (prio i) (created i)))"
        "y = rnd53 (of_int (priority_score (prio m) (created m)))"
      using assms(2) x m unfolding scored_by_def by (metis option.distinct(1))+
    have "x \<le> y" using least [OF m] by auto
    then have le: "priority_score (prio i) (created i) \<le> priority_score (prio m) (created m)"
      unfolding xy using b by (simp add: rnd53_priority_score)
    then have "\<not> prio i < prio m"
      using priority_score_less [of "prio i" "prio m" "created i" "created m"] b by linarith
    with le show ?thesis by (cases "prio m = prio i") (auto simp: priority_score_def)
  qed
  with x r' show ?thesis by blast
qed

text \<open>A concrete Redis for the witnesses.\<close>

type_synonym list_redis = "(uuid alist_zset, string alist_zset) redis"

definition empty_redis :: list_redis where
  "empty_redis = \<lparr>jobs_pending = [], jobs_scheduled = [], jobs_dead_letter = [], workers_heartbeat = []\<rparr>"

theorem dequeue_highest_priority_first_witness:
  "pending_score list_zset
     (empty_redis\<lparr>jobs_pending := [(1, of_int (priority_score 0 1000)), (2, of_int (priority_score 7 2000))]\<rparr>) 2 \<noteq> None"
proof -
  let ?r = "empty_redis\<lparr>jobs_pending := [(1, of_int (priority_score 0 1000)), (2, of_int (priority_score 7 2000))]\<rparr>"
  have s: "priority_score 0 1000 = 1" "priority_score 7 2000 = - 6999999999998" by code_simp+
  have "scored_by list_zset (\<lambda>m. if m = 2 then 7 else 0) (\<lambda>m. if m = 2 then 2000 else 1000) ?r"
    by (auto simp: scored_by_def rnd53_priority_score max_time_def split: if_splits)
  moreover have "dequeue list_zset ?r = (Some 2, snd (dequeue list_zset ?r))"
    unfolding s by (simp add: dequeue_def list_zset_def zsorted_def empty_redis_def)
  ultimately show ?thesis
    using dequeue_highest_priority_first [OF list_queue] by blast
qed

text \<open>
  Within one millisecond the queue is not first-in first-out: of two jobs with equal
  priority and equal creation millisecond, the one with the smaller id leaves first, also
  when it was created later.
\<close>

theorem same_millisecond_not_fifo:
  assumes "job_queue Z" and "pending_score Z r = Map.empty"
    and "created_at_epoch_ms s = created_at_epoch_ms t" and "j < i"
  shows "fst (dequeue Z (snd (enqueue Z j (priority_score p t) False
           (snd (enqueue Z i (priority_score p s) False r))))) = Some j"
proof -
  let ?q = "snd (enqueue Z j (priority_score p t) False (snd (enqueue Z i (priority_score p s) False r)))"
  let ?x = "rnd53 (of_int (priority_score p t)) :: rat"
  have sc: "pending_score Z ?q = [i \<mapsto> ?x, j \<mapsto> ?x]"
    using assms(2,3) by (simp add: job_queue.enqueue_scores [OF assms(1)] priority_score_def)
  then have "fst (dequeue Z ?q) \<noteq> None"
    by (simp only: job_queue.dequeue_None [OF assms(1)]) (metis map_upd_nonempty)
  then obtain k q' where k: "dequeue Z ?q = (Some k, q')" by (metis option.exhaust prod.collapse)
  obtain x where "pending_score Z ?q k = Some x"
    "\<And>m y. pending_score Z ?q m = Some y \<Longrightarrow> x < y \<or> x = y \<and> k \<le> m"
    using job_queue.dequeue_Some [OF assms(1) k] by metis
  from this(1) this(2) [of j ?x] have "k = j"
    using assms(4) by (auto simp: sc split: if_splits)
  with k show ?thesis by simp
qed

theorem same_millisecond_not_fifo_witness:
  "fst (dequeue list_zset (snd (enqueue list_zset 1 (priority_score 0 1760000000000900) False
     (snd (enqueue list_zset 2 (priority_score 0 1760000000000100) False empty_redis))))) = Some 1"
proof (rule same_millisecond_not_fifo [OF list_queue])
  show "pending_score list_zset empty_redis = Map.empty" by (simp add: empty_redis_def)
  show "created_at_epoch_ms 1760000000000100 = created_at_epoch_ms 1760000000000900"
    using created_at_epoch_ms_bounds(3) by (simp add: max_time_def)
qed simp

text \<open>
  Dead letters: recording a job keeps the list within its cap, puts the job first and
  keeps the most recent others in order; removing the job deletes every occurrence of it and
  nothing else.
\<close>

lemma dead_letter_list:
  "dead_letter_depth (dead_letter i r) = min DEAD_LETTER_MAX_LEN (Suc (dead_letter_depth r)) \<and>
   jobs_dead_letter (dead_letter i r) = i # take (DEAD_LETTER_MAX_LEN - 1) (jobs_dead_letter r) \<and>
   i \<notin> set (jobs_dead_letter (remove_dead_letter i r)) \<and>
   filter (\<lambda>m. m \<noteq> i) (jobs_dead_letter (remove_dead_letter i (dead_letter i r)))
     = filter (\<lambda>m. m \<noteq> i) (take (DEAD_LETTER_MAX_LEN - 1) (jobs_dead_letter r))"
  by (simp add: dead_letter_def remove_dead_letter_def dead_letter_depth_def DEAD_LETTER_MAX_LEN_def
      removeAll_filter_not_eq take_Cons' eq_commute)

text \<open>
  Worker liveness: after a heartbeat of \<open>w\<close> at \<open>now\<close>, a listing at any time shows exactly
  the workers whose last beat (for \<open>w\<close>: this one) is younger than the time to live at \<open>now\<close> and
  not older than it at the listing; after \<open>w\<close> goes offline it shows the others as before.
\<close>

theorem alive_after_heartbeat:
  assumes "worker_set H"
  shows "((v, t) \<in> set (list_alive_workers H later ttl (worker_heartbeat H w now ttl r)) \<longleftrightarrow>
      (if v = w then t = now else zscores H (workers_heartbeat r) v = Some t) \<and>
      rnd53 (now - ttl) < t \<and> rnd53 (later - ttl) \<le> t) \<and>
    ((v, t) \<in> set (list_alive_workers H later ttl (worker_offline H w r)) \<longleftrightarrow>
      v \<noteq> w \<and> (v, t) \<in> set (list_alive_workers H later ttl r))"
proof -
  note simps = worker_set.alive_iff [OF assms] worker_set.heartbeat_scores [OF assms]
    worker_set.offline_scores [OF assms]
  have "(v, t) \<in> set (list_alive_workers H later ttl (worker_heartbeat H w now ttl r)) \<longleftrightarrow>
      (if v = w then t = now else zscores H (workers_heartbeat r) v = Some t) \<and>
      rnd53 (now - ttl) < t \<and> rnd53 (later - ttl) \<le> t"
    by (cases "zscores H (workers_heartbeat r) v") (auto simp: simps Let_def)
  moreover have "(v, t) \<in> set (list_alive_workers H later ttl (worker_offline H w r)) \<longleftrightarrow>
      v \<noteq> w \<and> (v, t) \<in> set (list_alive_workers H later ttl r)"
    by (auto simp: simps)
  ultimately show ?thesis by blast
qed

theorem alive_after_heartbeat_witness:
  "(''w1'', 100) \<in> set (list_alive_workers list_zset 112 15
     (worker_heartbeat list_zset ''w1'' 100 15 empty_redis))"
  using alive_after_heartbeat [OF list_workers, of "''w1''" 100 112 15 "''w1''" 100 empty_redis]
  by (simp add: double_simps)

end
