(* ===== verification/Retry.thy ===== *)
theory Retry
  imports Config Claim Queue_Client
begin

text \<open>
  \<^verbatim>\<open>app/worker/retry.py\<close>: what happens to a job whose attempt failed.  Retries are driven by
  the database: the row goes back to pending with a later \<open>next_run_at\<close>, and Redis is touched
  only when the job is given up.
\<close>

definition backoff_seconds :: "settings \<Rightarrow> int \<Rightarrow> rat" where
  "backoff_seconds S n =
     (if n = 1 then retry_backoff_after_attempt_1_seconds S
      else if n = 2 then retry_backoff_after_attempt_2_seconds S
      else retry_backoff_after_attempt_2_seconds S)"

definition should_retry :: "int \<Rightarrow> int \<Rightarrow> bool" where
  "should_retry n m \<longleftrightarrow> n < m"

definition retries :: "bool \<Rightarrow> job \<Rightarrow> bool" where
  "retries permanent j \<longleftrightarrow> \<not> permanent \<and> should_retry (attempt_count j) (max_attempts j)"

text \<open>The object after the assignments, and the log row staged with it.\<close>

definition failure_values :: "settings \<Rightarrow> datetime \<Rightarrow> string \<Rightarrow> bool \<Rightarrow> job \<Rightarrow> job" where
  "failure_values S now msg permanent j =
     (let j1 = j\<lparr>error_message := Some msg, leased_until := None, worker_id := None, result := None\<rparr> in
      if retries permanent j then
        j1\<lparr>status := Pending,
           next_run_at := Some (now + timedelta_seconds (backoff_seconds S (attempt_count j))),
           started_at := None, completed_at := None\<rparr>
      else j1\<lparr>status := Failed, next_run_at := None, completed_at := Some now\<rparr>)"

definition failure_log :: "settings \<Rightarrow> datetime \<Rightarrow> string \<Rightarrow> bool \<Rightarrow> job \<Rightarrow> job_log list" where
  "failure_log S now msg permanent j =
     (if retries permanent j then
        append_job_log [] (job_id j) ''retry scheduled'' Warning
          (Some (JObj [(''status'', JStr (status_value Pending)), (''attempt_count'', JInt (attempt_count j)),
             (''error_message'', JStr msg),
             (''next_run_at'', JStr (isoformat (now + timedelta_seconds (backoff_seconds S (attempt_count j)))))]))
      else
        append_job_log [] (job_id j) ''job failed permanently'' Error
          (Some (JObj [(''status'', JStr (status_value Failed)), (''attempt_count'', JInt (attempt_count j)),
             (''error_message'', JStr msg)])))"

text \<open>\<open>queue\<close> tells whether the caller passed a queue client; the worker always does.\<close>

definition apply_failure ::
    "settings \<Rightarrow> datetime \<Rightarrow> bool \<Rightarrow> string \<Rightarrow> bool \<Rightarrow> job \<Rightarrow> database \<times> ('z, 'h) redis \<Rightarrow>
     database \<times> ('z, 'h) redis" where
  "apply_failure S now queue msg permanent job = (\<lambda>(db, r).
     (orm_commit job (failure_values S now msg permanent job) (failure_log S now msg permanent job) db,
      if \<not> retries permanent job \<and> queue then dead_letter (job_id job) r else r))"

section \<open>Lemmas\<close>

lemma failure_values_simps [row_simps]:
  "job_id (failure_values S now msg p j) = job_id j"
  "status (failure_values S now msg p j) = (if retries p j then Pending else Failed)"
  "attempt_count (failure_values S now msg p j) = attempt_count j"
  "max_attempts (failure_values S now msg p j) = max_attempts j"
  "idempotency_key (failure_values S now msg p j) = idempotency_key j"
  "progress_pct (failure_values S now msg p j) = progress_pct j"
  "error_message (failure_values S now msg p j) = Some msg"
  "worker_id (failure_values S now msg p j) = None"
  "leased_until (failure_values S now msg p j) = None"
  "next_run_at (failure_values S now msg p j) =
    (if retries p j then Some (now + timedelta_seconds (backoff_seconds S (attempt_count j))) else None)"
  "row_ok (failure_values S now msg p j) = row_ok j"
  by (simp_all add: failure_values_def row_ok_def Let_def)

interpretation failing: object_update "\<lambda>j. status j = Processing" "failure_values S now msg permanent"
  by unfold_locales (auto simp: row_simps)

lemma apply_failure_parts [row_simps]:
  "fst (apply_failure S now q msg p job st) =
    orm_commit job (failure_values S now msg p job) (failure_log S now msg p job) (fst st)"
  "snd (apply_failure S now q msg p job st) =
    (if \<not> retries p job \<and> q then dead_letter (job_id job) (snd st) else snd st)"
  by (simp_all add: apply_failure_def case_prod_unfold)

section \<open>A job that keeps failing\<close>

text \<open>
  The history of a job whose every attempt fails: at each pair \<open>(t, t')\<close> a worker tries to
  claim it at \<open>t\<close> and, if it got it, records the failure at \<open>t'\<close>.
\<close>

fun failing_attempts ::
    "settings \<Rightarrow> uuid \<Rightarrow> string \<Rightarrow> string \<Rightarrow> (datetime \<times> datetime) list \<Rightarrow>
     database \<times> ('z, 'h) redis \<Rightarrow> database \<times> ('z, 'h) redis" where
  "failing_attempts S i w msg [] st = st"
| "failing_attempts S i w msg ((t, t') # ts) st =
     (case claim_job t t i w (worker_lease_seconds S) (fst st) of
        (None, db) \<Rightarrow> failing_attempts S i w msg ts (db, snd st)
      | (Some j, db) \<Rightarrow>
          failing_attempts S i w msg ts (apply_failure S t' True msg False j (db, snd st)))"

text \<open>Every claim comes when the backoff of the failure before it is over.\<close>

fun spaced :: "settings \<Rightarrow> int \<Rightarrow> (datetime \<times> datetime) list \<Rightarrow> bool" where
  "spaced S n [] = True"
| "spaced S n [p] = True"
| "spaced S n ((t, t') # (u, u') # ts) =
     (t' + timedelta_seconds (backoff_seconds S (n + 1)) \<le> u \<and> spaced S (n + 1) ((u, u') # ts))"

lemma failing_attempts_not_pending:
  assumes "db_ok (fst st)" "get_row i (jobs (fst st)) = Some j" "status j \<noteq> Pending"
  shows "failing_attempts S i w msg ts st = st"
  using assms
proof (induction ts)
  case (Cons p ts)
  obtain t t' where "p = (t, t')" by (cases p)
  with Cons show ?case by (simp add: claim_job_eq db_ok_distinct claim_guard_def)
qed simp

lemma failing_attempt_step:
  assumes "db_ok db" "get_row i (jobs db) = Some j" "claim_guard i t j"
    and j1_def: "j1 = claim_set w (t + seconds (worker_lease_seconds S)) t j"
  obtains db' where "failing_attempts S i w msg ((t, t') # ts) (db, r) =
      failing_attempts S i w msg ts (db', if retries False j1 then r else dead_letter i r)"
    "db_ok db'" "get_row i (jobs db') = Some (failure_values S t' msg False j1)"
proof -
  obtain db1 where c: "claim_job t t i w (worker_lease_seconds S) db = (Some j1, db1)"
    using assms by (simp add: claim_job_eq db_ok_distinct)
  obtain "get_row i (jobs db1) = Some j1" "db_ok db1" by (rule claim_job_Some [OF assms(1) c]) (rule that)
  note row = failing.commit_fresh [OF this(1), of S t' msg False "failure_log S t' msg False j1"]
    and ok = failing.commit_db_ok [OF this(2) db_ok_row [OF this(2,1)], of S t' msg False "failure_log S t' msg False j1"]
  have "job_id j1 = i" using assms(3) by (simp add: j1_def row_simps claim_guard_def)
  then show ?thesis
    by (intro that [OF _ ok row]) (simp add: c apply_failure_def)
qed

section \<open>Properties\<close>

text \<open>
  Recording a failure of an attempt over the row as it was loaded: the job is retried
  exactly when the failure is not permanent and attempts remain; then it is pending again and
  due after the backoff of its attempt number, and Redis is untouched.  Otherwise it is failed,
  finished now, and first in the dead-letter list.  In both cases the error is recorded, the
  lease is given up, no attempt is counted, other rows keep their values and the table stays
  well-formed.
\<close>

theorem apply_failure_spec:
  assumes "db_ok db" and "get_row i (jobs db) = Some j"
  shows "\<exists>db' r' j'. apply_failure S now True msg permanent j (db, r) = (db', r') \<and> db_ok db' \<and>
    (\<forall>k. get_row k (jobs db') = (if k = i then Some j' else get_row k (jobs db))) \<and>
    error_message j' = Some msg \<and> worker_id j' = None \<and> leased_until j' = None \<and>
    attempt_count j' = attempt_count j \<and> max_attempts j' = max_attempts j \<and>
    (if \<not> permanent \<and> attempt_count j < max_attempts j then
       status j' = Pending \<and> r' = r \<and>
       next_run_at j' = Some (now + timedelta_seconds
         (if attempt_count j = 1 then retry_backoff_after_attempt_1_seconds S
          else retry_backoff_after_attempt_2_seconds S))
     else status j' = Failed \<and> next_run_at j' = None \<and> completed_at j' = Some now \<and>
       r' = dead_letter i r)"
proof -
  let ?new = "failure_values S now msg permanent j"
  let ?db = "orm_commit j ?new (failure_log S now msg permanent j) db"
  have id: "job_id j = i" using get_row_Some [OF assms(2)] by simp
  have rows: "get_row k (jobs ?db) = (if k = i then Some ?new else get_row k (jobs db))" for k
    using failing.commit_fresh [OF assms(2)] failing.commit_other [of k j] id by auto
  have ok: "db_ok ?db" by (rule failing.commit_db_ok [OF assms(1) db_ok_row [OF assms]])
  show ?thesis
    using ok rows id
    by (intro exI [of _ ?db] exI [of _ "if retries permanent j then r else dead_letter i r"] exI [of _ ?new])
      (simp add: apply_failure_def row_simps retries_def should_retry_def backoff_seconds_def,
       simp add: failure_values_def Let_def retries_def should_retry_def)
qed

theorem apply_failure_spec_witness:
  "\<exists>db' r' j'. apply_failure default_settings 1000 True ''boom'' False
     (sample_job 1 Processing 0\<lparr>attempt_count := 3\<rparr>)
     (empty_db\<lparr>jobs := [sample_job 1 Processing 0\<lparr>attempt_count := 3\<rparr>]\<rparr>, empty_redis) = (db', r') \<and>
   get_row 1 (jobs db') = Some j' \<and> status j' = Failed \<and> jobs_dead_letter r' = [1]"
proof -
  let ?j = "sample_job 1 Processing 0\<lparr>attempt_count := 3\<rparr>"
  let ?db = "empty_db\<lparr>jobs := [?j]\<rparr>"
  have "db_ok ?db" "get_row 1 (jobs ?db) = Some ?j"
    by (simp_all add: db_ok_def table_ok_def keys_unique_def row_ok_def get_row_def)
  from apply_failure_spec [OF this, where S = default_settings and now = 1000 and msg = "''boom''"
      and permanent = False and r = empty_redis]
  show ?thesis by (auto simp: dead_letter_def empty_redis_def DEAD_LETTER_MAX_LEN_def)
qed

text \<open>
  C21. The attempt limit: a job whose every attempt fails, claimed each time when its backoff is
  over, is claimed exactly until its attempts are used up.  After \<open>n\<close> failures it is pending
  with \<open>n\<close> attempts more while that is below the limit; from then on it is failed, with exactly
  \<open>max_attempts\<close> attempts, is recorded in the dead-letter list once, and is never claimed again.
\<close>

theorem attempts_until_failed:
  assumes "db_ok db" and "get_row i (jobs db) = Some j" and "claim_guard i (fst (hd ts)) j"
    and "attempt_count j < max_attempts j" and "ts \<noteq> []" and "spaced S (attempt_count j) ts"
  shows "\<exists>db' r' j'. failing_attempts S i w msg ts (db, r) = (db', r') \<and> get_row i (jobs db') = Some j' \<and>
    attempt_count j' = min (max_attempts j) (attempt_count j + int (length ts)) \<and>
    (if attempt_count j + int (length ts) < max_attempts j
     then status j' = Pending \<and> r' = r
     else status j' = Failed \<and> r' = dead_letter i r)"
  using assms
proof (induction ts arbitrary: db j)
  case (Cons p ts)
  obtain t t' where p: "p = (t, t')" by (cases p)
  define j1 where "j1 = claim_set w (t + seconds (worker_lease_seconds S)) t j"
  define j2 where "j2 = failure_values S t' msg False j1"
  have guard: "claim_guard i t j" using Cons.prems p by simp
  obtain db' where step: "failing_attempts S i w msg (p # ts) (db, r) =
      failing_attempts S i w msg ts (db', if retries False j1 then r else dead_letter i r)"
    and ok: "db_ok db'" and row: "get_row i (jobs db') = Some j2"
    using failing_attempt_step [OF Cons.prems(1,2) guard j1_def, where msg = msg and t' = t' and ts = ts and r = r]
    unfolding p j2_def by metis
  have n: "attempt_count j2 = attempt_count j + 1" "max_attempts j2 = max_attempts j"
    and retries: "retries False j1 \<longleftrightarrow> attempt_count j + 1 < max_attempts j"
    by (simp_all add: j1_def j2_def row_simps retries_def should_retry_def)
  show ?case
  proof (cases "retries False j1")
    case False
    then have "status j2 = Failed" by (simp add: j2_def row_simps)
    with ok row have "failing_attempts S i w msg ts (db', dead_letter i r) = (db', dead_letter i r)"
      by (simp add: failing_attempts_not_pending)
    with False step row n retries Cons.prems(4) \<open>status j2 = Failed\<close> show ?thesis by auto
  next
    case True
    then have pending: "status j2 = Pending" "job_id j2 = i"
      "next_run_at j2 = Some (t' + timedelta_seconds (backoff_seconds S (attempt_count j + 1)))"
      using guard by (simp_all add: j1_def j2_def row_simps claim_guard_def)
    show ?thesis
    proof (cases ts)
      case Nil
      with True step row n retries pending show ?thesis by simp
    next
      case (Cons q us)
      then have next_ok: "claim_guard i (fst (hd ts)) j2" "spaced S (attempt_count j2) ts"
        using Cons.prems(6) pending p n by (cases q; simp add: claim_guard_def)+
      have "attempt_count j2 < max_attempts j2" using n retries True by simp
      from Cons.IH [OF ok row next_ok(1) this _ next_ok(2)] Cons True step n
      show ?thesis by (auto simp: algebra_simps)
    qed
  qed
qed simp

theorem attempts_until_failed_witness:
  "\<exists>db' r' j'. failing_attempts default_settings 1 ''w'' ''boom'' [(0, 10), (40000000, 40000010), (200000000, 200000001)]
      (empty_db\<lparr>jobs := [sample_job 1 Pending 0]\<rparr>, empty_redis) = (db', r') \<and>
    get_row 1 (jobs db') = Some j' \<and> status j' = Failed \<and> attempt_count j' = 3"
proof -
  let ?db = "empty_db\<lparr>jobs := [sample_job 1 Pending 0]\<rparr>"
  let ?ts = "[(0, 10), (40000000, 40000010), (200000000, 200000001)] :: (datetime \<times> datetime) list"
  have "db_ok ?db" "get_row 1 (jobs ?db) = Some (sample_job 1 Pending 0)"
    "claim_guard 1 (fst (hd ?ts)) (sample_job 1 Pending 0)"
    by (simp_all add: db_ok_def table_ok_def keys_unique_def get_row_def claim_guard_def)
  moreover have "timedelta_seconds 30 = 30000000" "timedelta_seconds 120 = 120000000"
    by code_simp+
  then have "spaced default_settings (attempt_count (sample_job 1 Pending 0)) ?ts"
    by (simp add: backoff_seconds_def)
  ultimately show ?thesis
    using attempts_until_failed [of ?db 1 "sample_job 1 Pending 0" ?ts default_settings "''w''" "''boom''" empty_redis]
    by auto
qed

end
