(* ===== verification/Schemas.thy ===== *)
theory Schemas
  imports Models
begin

text \<open>
  \<^verbatim>\<open>app/api/schemas.py\<close>: what \<^verbatim>\<open>POST /jobs\<close> accepts.  The body's fields arrive with their
  declared types; the validators of the file and the \<^verbatim>\<open>Field\<close> constraints are modelled, and
  the result is the \<^verbatim>\<open>JobCreate\<close> the service receives.

  The formats \<^verbatim>\<open>EmailStr\<close> and \<^verbatim>\<open>HttpUrl\<close> belong to pydantic and email-validator: they are
  the parameters \<open>email_str\<close> and \<open>http_url\<close>, which return the normalised text or \<open>None\<close>.
\<close>

definition PAYLOAD_MAX_BYTES :: nat where
  "PAYLOAD_MAX_BYTES = 65536"

definition BATCH_MAX_ITEMS :: nat where
  "BATCH_MAX_ITEMS = 1000"

text \<open>A parsed timestamp with or without a zone; both carry their reading in microseconds.\<close>

datatype py_datetime = Aware datetime | Naive datetime

record JobCreate =
  jc_job_type :: JobType
  jc_payload :: json_dict
  jc_priority :: int
  jc_scheduled_at :: "datetime option"

datatype validation_error =
    PriorityOutOfRange
  | ScheduledAtNotFuture
  | PayloadTooLarge nat
  | PayloadInvalid

section \<open>The payload models\<close>

text \<open>\<^verbatim>\<open>extra="forbid"\<close>: no key besides the declared ones.\<close>

definition only_keys :: "string list \<Rightarrow> json_dict \<Rightarrow> bool" where
  "only_keys ks d \<longleftrightarrow> list_all (\<lambda>(k, _). k \<in> set ks) d"

text \<open>
  \<^verbatim>\<open>schema.model_validate(payload).model_dump(mode="json")\<close> for the schema of the job type;
  \<open>None\<close> is a \<^verbatim>\<open>ValidationError\<close>.
\<close>

definition validate_email :: "(string \<Rightarrow> string option) \<Rightarrow> json_dict \<Rightarrow> json_dict option" where
  "validate_email email_str d =
     (if only_keys [''to''] d then
        (case map_of d ''to'' of
           Some (JStr s) \<Rightarrow> map_option (\<lambda>t. [(''to'', JStr t)]) (email_str s)
         | _ \<Rightarrow> None)
      else None)"

definition validate_webhook :: "(string \<Rightarrow> string option) \<Rightarrow> json_dict \<Rightarrow> json_dict option" where
  "validate_webhook http_url d =
     (if only_keys [''url''] d then
        (case map_of d ''url'' of
           Some (JStr s) \<Rightarrow> map_option (\<lambda>t. [(''url'', JStr t)]) (http_url s)
         | _ \<Rightarrow> None)
      else None)"

definition validate_report :: "json_dict \<Rightarrow> json_dict option" where
  "validate_report d =
     (if only_keys [''name''] d then
        (case map_of d ''name'' of
           None \<Rightarrow> Some [(''name'', JStr ''report'')]
         | Some (JStr s) \<Rightarrow>
             if 1 \<le> length s \<and> length s \<le> 255 then Some [(''name'', JStr s)] else None
         | _ \<Rightarrow> None)
      else None)"

definition validate_batch :: "json_dict \<Rightarrow> json_dict option" where
  "validate_batch d =
     (if only_keys [''items''] d then
        (case map_of d ''items'' of
           Some (JArr xs) \<Rightarrow>
             if length xs \<le> BATCH_MAX_ITEMS then Some [(''items'', JArr xs)] else None
         | _ \<Rightarrow> None)
      else None)"

fun validate_payload_by_type ::
    "(string \<Rightarrow> string option) \<Rightarrow> (string \<Rightarrow> string option) \<Rightarrow> JobType \<Rightarrow> json_dict \<Rightarrow> json_dict option" where
  "validate_payload_by_type email_str http_url Email d = validate_email email_str d"
| "validate_payload_by_type email_str http_url Webhook d = validate_webhook http_url d"
| "validate_payload_by_type email_str http_url Report d = validate_report d"
| "validate_payload_by_type email_str http_url Batch d = validate_batch d"

section \<open>JobCreate\<close>

text \<open>\<^verbatim>\<open>value.replace(tzinfo=UTC)\<close> reads a naive timestamp as UTC.\<close>

definition scheduled_at_must_be_future ::
    "datetime \<Rightarrow> py_datetime option \<Rightarrow> (validation_error, datetime option) result" where
  "scheduled_at_must_be_future now v =
     (case v of
        None \<Rightarrow> Inr None
      | Some dt \<Rightarrow>
          let t = (case dt of Aware t \<Rightarrow> t | Naive t \<Rightarrow> t) in
          if t \<le> now then Inl ScheduledAtNotFuture else Inr (Some t))"

definition validate_payload_for_job_type ::
    "(string \<Rightarrow> string option) \<Rightarrow> (string \<Rightarrow> string option) \<Rightarrow> JobType \<Rightarrow> json_dict \<Rightarrow>
     (validation_error, json_dict) result" where
  "validate_payload_for_job_type email_str http_url t d =
     (let raw = dumps (JObj d) in
      if PAYLOAD_MAX_BYTES < length raw then Inl (PayloadTooLarge (length raw))
      else case validate_payload_by_type email_str http_url t d of
             None \<Rightarrow> Inl PayloadInvalid
           | Some d' \<Rightarrow> Inr d')"

text \<open>The field validators run before the model validator.\<close>

definition job_create ::
    "(string \<Rightarrow> string option) \<Rightarrow> (string \<Rightarrow> string option) \<Rightarrow> datetime \<Rightarrow>
     JobType \<Rightarrow> json_dict \<Rightarrow> int \<Rightarrow> py_datetime option \<Rightarrow> (validation_error, JobCreate) result" where
  "job_create email_str http_url now t d p s =
     (if p < - 1000 \<or> 1000 < p then Inl PriorityOutOfRange
      else case scheduled_at_must_be_future now s of
        Inl e \<Rightarrow> Inl e
      | Inr due \<Rightarrow>
          (case validate_payload_for_job_type email_str http_url t d of
             Inl e \<Rightarrow> Inl e
           | Inr d' \<Rightarrow> Inr \<lparr>jc_job_type = t, jc_payload = d', jc_priority = p, jc_scheduled_at = due\<rparr>))"

section \<open>Lemmas\<close>

text \<open>The shape a validated payload has, by job type.\<close>

definition payload_shape :: "JobType \<Rightarrow> json_dict \<Rightarrow> bool" where
  "payload_shape t d \<longleftrightarrow>
     (case t of
        Email \<Rightarrow> (\<exists>s. d = [(''to'', JStr s)])
      | Webhook \<Rightarrow> (\<exists>s. d = [(''url'', JStr s)])
      | Report \<Rightarrow> (\<exists>s. d = [(''name'', JStr s)] \<and> 1 \<le> length s \<and> length s \<le> 255)
      | Batch \<Rightarrow> (\<exists>xs. d = [(''items'', JArr xs)] \<and> length xs \<le> 1000))"

lemmas validate_defs = validate_email_def validate_webhook_def validate_report_def
  validate_batch_def BATCH_MAX_ITEMS_def

lemma validate_payload_shape:
  "validate_payload_by_type email_str http_url t d = Some d' \<Longrightarrow> payload_shape t d'"
  by (cases t) (auto simp: validate_defs payload_shape_def split: if_splits option.splits json.splits)

lemma validated_fields_nonempty:
  assumes "validate_payload_by_type email_str http_url t d = Some d'"
    and "\<And>s. email_str s \<noteq> Some []" and "\<And>s. http_url s \<noteq> Some []"
  shows "case t of Email \<Rightarrow> \<exists>s. d' = [(''to'', JStr s)] \<and> s \<noteq> []
      | Webhook \<Rightarrow> \<exists>s. d' = [(''url'', JStr s)] \<and> s \<noteq> []
      | Report \<Rightarrow> True | Batch \<Rightarrow> \<exists>xs. d' = [(''items'', JArr xs)]"
  using assms by (cases t) (auto simp: validate_defs split: if_splits option.splits json.splits)

lemma job_create_Inr:
  assumes "job_create email_str http_url now t d p s = Inr c"
  shows "jc_job_type c = t" "jc_priority c = p" "- 1000 \<le> p" "p \<le> 1000"
    "validate_payload_by_type email_str http_url t d = Some (jc_payload c)"
    "length (dumps (JObj d)) \<le> PAYLOAD_MAX_BYTES"
    "scheduled_at_must_be_future now s = Inr (jc_scheduled_at c)"
  using assms
  by (auto simp: job_create_def validate_payload_for_job_type_def Let_def
      split: if_splits sum.splits option.splits)

section \<open>Properties\<close>

text \<open>
  Every accepted submission is well-formed: its priority lies in the declared range, its
  schedule (if any) in the future, the payload it was sent with fits in 64 KiB of JSON, and
  the payload the service gets has exactly the fields of its job type, within their bounds.
\<close>

theorem accepted_submission_well_formed:
  assumes "job_create email_str http_url now t d p s = Inr c"
  shows "jc_job_type c = t \<and> \<bar>jc_priority c\<bar> \<le> 1000 \<and>
    (\<forall>due. jc_scheduled_at c = Some due \<longrightarrow> now < due) \<and>
    length (dumps (JObj d)) \<le> 65536 \<and> payload_shape t (jc_payload c)"
  using job_create_Inr [OF assms] validate_payload_shape
  by (auto simp: PAYLOAD_MAX_BYTES_def scheduled_at_must_be_future_def Let_def split: option.splits if_splits)

theorem accepted_submission_well_formed_witness:
  "payload_shape Report (jc_payload
     \<lparr>jc_job_type = Report, jc_payload = [(''name'', JStr ''report'')], jc_priority = 5, jc_scheduled_at = Some 7\<rparr>)"
proof -
  have "job_create Some Some 3 Report [] 5 (Some (Naive 7)) =
    Inr \<lparr>jc_job_type = Report, jc_payload = [(''name'', JStr ''report'')], jc_priority = 5, jc_scheduled_at = Some 7\<rparr>"
    by (simp add: job_create_def scheduled_at_must_be_future_def validate_payload_for_job_type_def
        PAYLOAD_MAX_BYTES_def validate_report_def only_keys_def)
  from accepted_submission_well_formed [OF this] show ?thesis by blast
qed

text \<open>
  Refusals: a priority out of range, a schedule not in the future, more than 64 KiB of
  JSON, an undeclared field, a missing or ill-typed required field and a batch of more than
  1000 items are each refused.
\<close>

lemma bad_submission_refused:
  "(1000 < \<bar>p\<bar> \<longrightarrow> job_create email_str http_url now t d p s = Inl PriorityOutOfRange) \<and>
   (\<bar>p\<bar> \<le> 1000 \<and> (s = Some (Aware due) \<or> s = Some (Naive due)) \<and> due \<le> now \<longrightarrow>
      job_create email_str http_url now t d p s = Inl ScheduledAtNotFuture) \<and>
   (65536 < length (dumps (JObj d)) \<longrightarrow> (\<exists>e. job_create email_str http_url now t d p s = Inl e)) \<and>
   ((k, v) \<in> set d \<and> k \<notin> {''to'', ''url'', ''name'', ''items''} \<longrightarrow>
      (\<exists>e. job_create email_str http_url now t d p s = Inl e)) \<and>
   (\<exists>e. job_create email_str http_url now Email [] p s = Inl e) \<and>
   (\<exists>e. job_create email_str http_url now Webhook [(''url'', JInt n)] p s = Inl e) \<and>
   (1000 < length xs \<longrightarrow> (\<exists>e. job_create email_str http_url now Batch [(''items'', JArr xs)] p s = Inl e))"
proof -
  have no: "validate_payload_by_type email_str http_url t d = None \<Longrightarrow>
      \<exists>e. job_create email_str http_url now t d p s = Inl e" for t d
    using job_create_Inr(5) by (cases "job_create email_str http_url now t d p s") force+
  have big: "65536 < length (dumps (JObj d)) \<Longrightarrow> \<exists>e. job_create email_str http_url now t d p s = Inl e"
    using job_create_Inr(6) PAYLOAD_MAX_BYTES_def
    by (cases "job_create email_str http_url now t d p s") force+
  have extra: "validate_payload_by_type email_str http_url t d = None"
    if "(k, v) \<in> set d" "k \<notin> {''to'', ''url'', ''name'', ''items''}"
    using that by (cases t) (auto simp: validate_defs only_keys_def list_all_iff)
  show ?thesis
    using big no [OF extra] no [of Email "[]"] no [of Webhook "[(''url'', JInt n)]"]
      no [of Batch "[(''items'', JArr xs)]"]
    by (auto simp: job_create_def scheduled_at_must_be_future_def validate_defs only_keys_def)
qed

end
