(* ===== verification/Handlers.thy ===== *)
theory Handlers
  imports Config Schemas
begin

text \<open>
  \<^verbatim>\<open>app/jobs/\<close>: the four handlers, the registry and the errors of \<^verbatim>\<open>base.py\<close>.

  A handler is a coroutine; its run is the list of what it awaits, in order (sleeping, or
  reporting progress), and how it ends: a result dict or an exception.  Randomness is an
  argument: \<open>hex12\<close> is \<^verbatim>\<open>uuid.uuid4().hex[:12]\<close>, and \<open>rng seed\<close> the first
  \<^verbatim>\<open>random()\<close> of \<^verbatim>\<open>random.Random(seed)\<close>.

  The locale \<open>job_handler\<close> is the protocol \<^verbatim>\<open>JobHandler\<close>, with what the executor relies on.
\<close>

datatype action = Sleep rat | ReportPct int

datatype handler_exn =
    HandlerError string
  | UnknownJobTypeError string
  | OtherError string string  \<comment> \<open>any other exception: type name and text\<close>

type_synonym handler_run = "action list \<times> (handler_exn, json_dict) result"

definition quoted :: "string \<Rightarrow> string" where
  "quoted s = [CHR 0x27] @ s @ [CHR 0x27]"

section \<open>The protocol\<close>

locale job_handler =
  fixes run :: "job \<Rightarrow> handler_run"
  assumes result_has_status: "snd (run j) = Inr d \<Longrightarrow> \<exists>s. map_of d ''status'' = Some (JStr s)"
    and raises_handler_error: "snd (run j) = Inl e \<Longrightarrow> \<exists>m. e = HandlerError m \<and> m \<noteq> []"
    and reports_percent: "ReportPct p \<in> set (fst (run j)) \<Longrightarrow> 0 \<le> p \<and> p \<le> 100"
begin

text \<open>A handler never raises the error that makes a failure permanent.\<close>

lemma failure_not_permanent: "snd (run j) \<noteq> Inl (UnknownJobTypeError m)"
  using raises_handler_error by blast

lemma result_nonempty: "snd (run j) = Inr d \<Longrightarrow> d \<noteq> []"
  using result_has_status by force

end

section \<open>email, webhook, report\<close>

definition email_run :: "settings \<Rightarrow> string \<Rightarrow> job \<Rightarrow> handler_run" where
  "email_run S hex12 j =
     ([Sleep (email_mock_sleep_seconds S)],
      case dict_get (payload j) ''to'' of
        JStr to \<Rightarrow>
          if to = [] then Inl (HandlerError (''email payload missing required field '' @ quoted ''to''))
          else Inr [(''status'', JStr ''sent''), (''to'', JStr to), (''message_id'', JStr (''msg_'' @ hex12))]
      | _ \<Rightarrow> Inl (HandlerError (''email payload missing required field '' @ quoted ''to'')))"

definition webhook_seed :: "job \<Rightarrow> string" where
  "webhook_seed j = uuid_str (job_id j) @ '':'' @ py_str_int (attempt_count j)"

definition webhook_run :: "settings \<Rightarrow> (string \<Rightarrow> rat) \<Rightarrow> job \<Rightarrow> handler_run" where
  "webhook_run S rng j =
     ([Sleep (webhook_mock_sleep_seconds S)],
      case dict_get (payload j) ''url'' of
        JStr url \<Rightarrow>
          if url = [] then Inl (HandlerError (''webhook payload missing required field '' @ quoted ''url''))
          else if rng (webhook_seed j) < rnd53 (2 / 10) then
            Inl (HandlerError (''webhook delivery failed for url='' @ py_repr url))
          else Inr [(''status'', JStr ''delivered''), (''url'', JStr url), (''status_code'', JInt 200)]
      | _ \<Rightarrow> Inl (HandlerError (''webhook payload missing required field '' @ quoted ''url'')))"

text \<open>\<^verbatim>\<open>repr\<close> and \<^verbatim>\<open>str\<close> of a JSON value; \<^verbatim>\<open>str\<close> of a string is the string.\<close>

fun py_repr_json :: "json \<Rightarrow> string" where
  "py_repr_json JNull = ''None''"
| "py_repr_json (JBool b) = (if b then ''True'' else ''False'')"
| "py_repr_json (JInt n) = py_str_int n"
| "py_repr_json (JFloat t) = t"
| "py_repr_json (JStr s) = py_repr s"
| "py_repr_json (JArr xs) = ''['' @ join '', '' (map py_repr_json xs) @ '']''"
| "py_repr_json (JObj kvs) =
     ''{'' @ join '', '' (map (\<lambda>(k, v). py_repr k @ '': '' @ py_repr_json v) kvs) @ ''}''"

fun py_str_json :: "json \<Rightarrow> string" where
  "py_str_json (JStr s) = s"
| "py_str_json v = py_repr_json v"

definition report_run :: "settings \<Rightarrow> string \<Rightarrow> job \<Rightarrow> handler_run" where
  "report_run S hex12 j =
     ([Sleep (report_mock_sleep_seconds S)],
      let name = dict_get_default (payload j) ''name'' (JStr ''report'') in
      Inr [(''status'', JStr ''ready''), (''report_id'', JStr (''rpt_'' @ hex12)), (''name'', name),
           (''download_url'', JStr (''/reports/'' @ py_str_json name @ ''.pdf''))])"

section \<open>batch\<close>

text \<open>\<^verbatim>\<open>int(k * 100 / total)\<close>: an exact integer product, one rounded division, truncation.\<close>

definition batch_pct :: "int \<Rightarrow> int \<Rightarrow> int" where
  "batch_pct k tot = py_int (rnd53 (of_int (k * 100) / of_int tot))"

definition batch_actions :: "settings \<Rightarrow> bool \<Rightarrow> nat \<Rightarrow> action list" where
  "batch_actions S reporting tot =
     concat (map (\<lambda>i. Sleep (batch_item_sleep_seconds S) #
                     (if reporting then [ReportPct (batch_pct (int i + 1) (int tot))] else []))
              [0..<tot])"

definition batch_run :: "settings \<Rightarrow> bool \<Rightarrow> job \<Rightarrow> handler_run" where
  "batch_run S reporting j =
     (case dict_get (payload j) ''items'' of
        JArr items \<Rightarrow>
          (let tot = length items in
           if tot = 0 then
             (if reporting then [ReportPct 100] else [],
              Inr [(''status'', JStr ''processed''), (''processed'', JInt 0), (''failed'', JInt 0)])
           else
             (batch_actions S reporting tot,
              Inr [(''status'', JStr ''processed''), (''processed'', JInt (int tot)), (''failed'', JInt 0)]))
      | _ \<Rightarrow> ([], Inl (HandlerError (''batch payload missing required list field '' @ quoted ''items''))))"

section \<open>The registry\<close>

datatype handler = EmailHandler | WebhookHandler | ReportHandler | BatchHandler

definition HANDLERS :: "(JobType \<times> handler) list" where
  "HANDLERS = [(Email, EmailHandler), (Webhook, WebhookHandler), (Report, ReportHandler), (Batch, BatchHandler)]"

text \<open>The argument is the text of the type; a \<^verbatim>\<open>JobType\<close> is a \<^verbatim>\<open>str\<close> with that value.\<close>

definition get_handler :: "string \<Rightarrow> (handler_exn, handler) result" where
  "get_handler s =
     (case job_type_of_value s of
        None \<Rightarrow> Inl (UnknownJobTypeError (''unknown job_type: '' @ py_repr s))
      | Some t \<Rightarrow>
          (case map_of HANDLERS t of
             None \<Rightarrow> Inl (UnknownJobTypeError (''unknown job_type: '' @ py_repr s))
           | Some h \<Rightarrow> Inr h))"

text \<open>The executor passes a progress reporter to the batch handler only.\<close>

fun run_handler :: "settings \<Rightarrow> string \<Rightarrow> (string \<Rightarrow> rat) \<Rightarrow> handler \<Rightarrow> job \<Rightarrow> handler_run" where
  "run_handler S hex12 rng EmailHandler j = email_run S hex12 j"
| "run_handler S hex12 rng WebhookHandler j = webhook_run S rng j"
| "run_handler S hex12 rng ReportHandler j = report_run S hex12 j"
| "run_handler S hex12 rng BatchHandler j = batch_run S True j"

section \<open>Lemmas\<close>

lemma get_handler_value [simp]:
  "get_handler (job_type_value t) = Inr (case t of Email \<Rightarrow> EmailHandler | Webhook \<Rightarrow> WebhookHandler
     | Report \<Rightarrow> ReportHandler | Batch \<Rightarrow> BatchHandler)"
  unfolding get_handler_def job_type_of_value by (cases t) (simp_all add: HANDLERS_def)

lemma get_handler_names [simp]:
  "get_handler ''email'' = Inr EmailHandler" "get_handler ''webhook'' = Inr WebhookHandler"
  "get_handler ''report'' = Inr ReportHandler" "get_handler ''batch'' = Inr BatchHandler"
  using get_handler_value [of Email] get_handler_value [of Webhook] get_handler_value [of Report]
    get_handler_value [of Batch] by (simp_all del: get_handler_value)

lemma batch_pct_range:
  assumes "0 \<le> k" "k \<le> tot" "0 < tot"
  shows "0 \<le> batch_pct k tot" "batch_pct k tot \<le> 100"
proof -
  have x: "0 \<le> (of_int (k * 100) / of_int tot :: rat)" "(of_int (k * 100) / of_int tot :: rat) \<le> 100"
    using assms by (simp_all add: divide_le_eq)
  have "0 \<le> rnd53 (of_int (k * 100) / of_int tot)" "rnd53 (of_int (k * 100) / of_int tot) \<le> 100"
    using rnd53_nonneg [OF x(1)] rnd53_mono [OF x(2)] by (simp_all add: double_simps)
  then have "py_int 0 \<le> batch_pct k tot" "batch_pct k tot \<le> py_int (of_int 100)"
    unfolding batch_pct_def by (auto intro: py_int_mono)
  then show "0 \<le> batch_pct k tot" "batch_pct k tot \<le> 100"
    by (simp_all only: py_int_of_int) (simp add: py_int_def)
qed

text \<open>For every batch the API accepts, and far beyond, the rounding is harmless.\<close>

lemma batch_pct_exact:
  assumes "0 \<le> k" "k \<le> tot" "0 < tot" "tot \<le> 2 ^ 20"
  shows "batch_pct k tot = k * 100 div tot"
proof -
  define x :: rat where "x = of_int (k * 100) / of_int tot"
  define q r where "q = k * 100 div tot" and "r = k * 100 mod tot"
  have r: "0 \<le> r" "r < tot" and kq: "k * 100 = q * tot + r"
    using assms by (auto simp: q_def r_def)
  have q: "0 \<le> q" "q \<le> 100"
    using assms zdiv_mono1 [of "k * 100" "100 * tot" tot] by (auto simp: q_def pos_imp_zdiv_nonneg_iff)
  have x: "x = of_int q + of_int r / of_int tot"
    using assms(3) unfolding x_def kq by (simp add: field_simps)
  have lo: "of_int q \<le> rnd53 x"
  proof -
    have "of_int q \<le> x" using x r by simp
    then have "rnd53 (of_int q) \<le> rnd53 x" by (rule rnd53_mono)
    then show ?thesis using q by (simp add: rnd53_of_int)
  qed
  have hi: "rnd53 x < of_int q + 1"
  proof -
    let ?y = "of_int ((q + 1) * 2 ^ 20 - 1) * 2 powi (- 20) :: rat"
    have y: "?y = of_int q + 1 - 1 / 2 ^ 20"
      by (simp add: power_int_minus field_simps)
    have t: "0 < (of_int tot :: rat)" "of_int tot \<le> (2 ^ 20 :: rat)"
      using assms(3,4) of_int_le_iff [of tot "2 ^ 20", where 'a = rat] by simp_all
    have "of_int r + 1 \<le> (of_int tot :: rat)"
      using r(2) of_int_le_iff [of "r + 1" tot, where 'a = rat] by simp
    then have "of_int r / of_int tot \<le> (1 - 1 / of_int tot :: rat)"
      using t by (simp add: field_simps)
    moreover have "1 / 2 ^ 20 \<le> (1 / of_int tot :: rat)"
      using t by (intro divide_left_mono) auto
    ultimately have "x \<le> ?y" unfolding x y by linarith
    then have "rnd53 x \<le> rnd53 ?y" by (rule rnd53_mono)
    also have "rnd53 ?y = ?y" using q by (intro rnd53_representable) simp
    also have "\<dots> < of_int q + 1" unfolding y by simp
    finally show ?thesis .
  qed
  have "0 \<le> rnd53 x" using lo q by (meson of_int_0_le_iff order_trans)
  then have "batch_pct k tot = \<lfloor>rnd53 x\<rfloor>" by (simp add: batch_pct_def py_int_def x_def)
  also have "\<dots> = q" using lo hi by (simp add: floor_eq_iff)
  finally show ?thesis by (simp add: q_def)
qed

lemma batch_actions_reports:
  "ReportPct p \<in> set (batch_actions S b tot) \<Longrightarrow> \<exists>k. 1 \<le> k \<and> k \<le> int tot \<and> p = batch_pct k (int tot)"
proof -
  assume "ReportPct p \<in> set (batch_actions S b tot)"
  then obtain i where "i < tot" "p = batch_pct (int i + 1) (int tot)"
    by (auto simp: batch_actions_def split: if_splits)
  then show ?thesis by (intro exI [of _ "int i + 1"]) auto
qed

interpretation email: job_handler "email_run S hex12"
  by unfold_locales (auto simp: email_run_def quoted_def split: json.splits if_splits)

interpretation webhook: job_handler "webhook_run S rng"
  by unfold_locales (auto simp: webhook_run_def quoted_def split: json.splits if_splits)

interpretation report: job_handler "report_run S hex12"
  by unfold_locales (auto simp: report_run_def Let_def)

interpretation batch: job_handler "batch_run S reporting"
proof (unfold_locales, goal_cases)
  case (1 j d)
  then show ?case by (auto simp: batch_run_def Let_def split: json.splits if_splits)
next
  case (2 j e)
  then show ?case by (auto simp: batch_run_def Let_def split: json.splits if_splits)
next
  case (3 p j)
  then show ?case
    by (auto simp: batch_run_def Let_def batch_pct_range split: json.splits if_splits
        dest!: batch_actions_reports)
qed

lemma run_handler_protocol: "job_handler (run_handler S hex12 rng h)"
proof -
  have "run_handler S hex12 rng h = (case h of EmailHandler \<Rightarrow> email_run S hex12
    | WebhookHandler \<Rightarrow> webhook_run S rng | ReportHandler \<Rightarrow> report_run S hex12
    | BatchHandler \<Rightarrow> batch_run S True)"
    by (cases h) auto
  then show ?thesis
    using email.job_handler_axioms webhook.job_handler_axioms report.job_handler_axioms
      batch.job_handler_axioms by (cases h) auto
qed

section \<open>Running under a timeout\<close>

text \<open>
  \<^verbatim>\<open>asyncio.wait_for(run, timeout)\<close>: the actions run in order while the clock advances by
  each sleep and by a further delay \<open>delay k\<close> at the \<open>k\<close>-th action (scheduling, the commit of a
  progress report); the run is cancelled at the first await that would end after the timeout,
  and a report cut off there does not count.  Returns the percentages reported before that,
  and whether the run finished.
\<close>

fun run_until :: "rat \<Rightarrow> (nat \<Rightarrow> rat) \<Rightarrow> nat \<Rightarrow> rat \<Rightarrow> action list \<Rightarrow> int list \<times> bool" where
  "run_until timeout delay k elapsed [] = ([], True)"
| "run_until timeout delay k elapsed (Sleep d # as) =
     (let now = elapsed + d + delay k in
      if timeout < now then ([], False) else run_until timeout delay (Suc k) now as)"
| "run_until timeout delay k elapsed (ReportPct p # as) =
     (let now = elapsed + delay k in
      if timeout < now then ([], False)
      else let (ps, finished) = run_until timeout delay (Suc k) now as in (p # ps, finished))"

fun total_sleep :: "action list \<Rightarrow> rat" where
  "total_sleep [] = 0"
| "total_sleep (Sleep d # as) = d + total_sleep as"
| "total_sleep (ReportPct p # as) = total_sleep as"

fun reported :: "action list \<Rightarrow> int list" where
  "reported [] = []"
| "reported (Sleep d # as) = reported as"
| "reported (ReportPct p # as) = p # reported as"

lemma reported_append [simp]: "reported (xs @ ys) = reported xs @ reported ys"
  by (induction xs rule: reported.induct) auto

lemma total_sleep_append [simp]: "total_sleep (xs @ ys) = total_sleep xs + total_sleep ys"
  by (induction xs rule: total_sleep.induct) auto

lemma run_until_finished:
  "snd (run_until T x k e as) \<Longrightarrow> fst (run_until T x k e as) = reported as"
  by (induction T x k e as rule: run_until.induct) (auto simp: Let_def case_prod_unfold split: if_splits)

lemma run_until_prefix:
  "\<exists>n. fst (run_until T x k e as) = take n (reported as)"
proof (induction T x k e as rule: run_until.induct)
  case (3 T x k e p as)
  show ?case
  proof (cases "T < e + x k")
    case True
    then show ?thesis by (intro exI [of _ 0]) simp
  next
    case False
    with 3 obtain n where "fst (run_until T x (Suc k) (e + x k) as) = take n (reported as)" by auto
    with False show ?thesis by (intro exI [of _ "Suc n"]) (simp add: case_prod_unfold Let_def)
  qed
qed (auto simp: Let_def intro: exI [of _ 0])

lemma run_until_reports_in: "set (fst (run_until T x k e as)) \<subseteq> set (reported as)"
  using run_until_prefix [of T x k e as] by (auto dest: in_set_takeD)

lemma set_reported: "p \<in> set (reported as) \<longleftrightarrow> ReportPct p \<in> set as"
  by (induction as rule: reported.induct) auto

text \<open>A run that sleeps longer than the timeout never finishes, however small the delays.\<close>

lemma run_until_too_long:
  assumes "\<And>i. 0 \<le> x i" "e \<le> T" "T < e + total_sleep as"
  shows "\<not> snd (run_until T x k e as)"
  using assms(2,3)
proof (induction as arbitrary: k e)
  case Nil
  then show ?case by simp
next
  case (Cons a as)
  show ?case
  proof (cases a)
    case (Sleep d)
    have "0 \<le> x k" by (rule assms(1))
    with Sleep Cons show ?thesis by (simp add: Let_def)
  next
    case (ReportPct p)
    have "0 \<le> x k" by (rule assms(1))
    with ReportPct Cons show ?thesis by (simp add: Let_def case_prod_unfold)
  qed
qed

lemma total_sleep_nonneg: "(\<And>d. Sleep d \<in> set as \<Longrightarrow> 0 \<le> d) \<Longrightarrow> 0 \<le> total_sleep as"
proof (induction as)
  case (Cons a as)
  then have "0 \<le> total_sleep as" by simp
  with Cons.prems show ?case by (cases a) auto
qed simp

lemma run_until_in_time:
  assumes "\<And>i. x i = 0" "e + total_sleep as \<le> T" "\<And>d. Sleep d \<in> set as \<Longrightarrow> 0 \<le> d"
  shows "run_until T x k e as = (reported as, True)"
  using assms(2,3)
proof (induction as arbitrary: k e)
  case Nil
  then show ?case by simp
next
  case (Cons a as)
  have "0 \<le> total_sleep as" using Cons.prems(2) by (intro total_sleep_nonneg) auto
  with Cons assms(1) show ?case by (cases a) (auto simp: Let_def)
qed

lemma total_sleep_batch: "total_sleep (batch_actions S b n) = of_nat n * batch_item_sleep_seconds S"
proof -
  have "total_sleep (concat (map (\<lambda>i. Sleep d # (if b then [ReportPct (f i)] else [])) xs)) =
      of_nat (length xs) * d" for d f and xs :: "nat list"
    by (induction xs) (auto simp: algebra_simps)
  then show ?thesis by (simp add: batch_actions_def)
qed

lemma reported_batch:
  "reported (batch_actions S True n) = map (\<lambda>i. batch_pct (int i + 1) (int n)) [0..<n]"
proof -
  have "reported (concat (map (\<lambda>i. [Sleep d, ReportPct (f i)]) xs)) = map f xs" for d f and xs :: "nat list"
    by (induction xs) auto
  then show ?thesis by (simp add: batch_actions_def)
qed

section \<open>Properties\<close>

text \<open>
  Progress of a batch of \<open>n\<close> items (any size the API accepts): the reported percentages are
  exactly the integer parts of \<open>100 k / n\<close> for \<open>k = 1, \<dots>, n\<close>; they lie between 0 and 100, never
  decrease, and end at 100.  The floating-point division of the code is exact enough.
\<close>

theorem batch_progress_exact:
  assumes "payload_shape Batch (payload j)" and "payload j = [(''items'', JArr items)]"
    and "length items = n" and "0 < n"
  shows "reported (fst (batch_run S True j)) = map (\<lambda>k. 100 * (int k + 1) div int n) [0..<n] \<and>
    sorted (reported (fst (batch_run S True j))) \<and>
    set (reported (fst (batch_run S True j))) \<subseteq> {0..100} \<and>
    last (reported (fst (batch_run S True j))) = 100"
proof -
  have n: "n \<le> 1000" using assms(1-3) by (auto simp: payload_shape_def)
  have run: "fst (batch_run S True j) = batch_actions S True n"
    using assms(2-4) by (auto simp: batch_run_def dict_get_def Let_def)
  have r: "reported (fst (batch_run S True j)) = map (\<lambda>k. 100 * (int k + 1) div int n) [0..<n]"
    unfolding run reported_batch using n by (auto simp: batch_pct_exact mult.commute)
  have "sorted (map (\<lambda>k. 100 * (int k + 1) div int n) [0..<n])"
    by (auto simp: sorted_iff_nth_mono intro!: zdiv_mono1)
  moreover have "100 * (int k + 1) div int n \<in> {0..100}" if "k < n" for k
    using that zdiv_mono1 [of "100 * (int k + 1)" "100 * int n" "int n"]
    by (auto simp: pos_imp_zdiv_nonneg_iff)
  moreover have "last (map (\<lambda>k. 100 * (int k + 1) div int n) [0..<n]) = 100"
    using assms(4) by (auto simp: last_map of_nat_diff)
  ultimately show ?thesis unfolding r by auto
qed

theorem batch_progress_exact_witness:
  "reported (fst (batch_run default_settings True
     (sample_job 1 Processing 0\<lparr>payload := [(''items'', JArr [JNull, JNull, JNull])]\<rparr>))) = [33, 66, 100]"
proof -
  let ?j = "sample_job 1 Processing 0\<lparr>payload := [(''items'', JArr [JNull, JNull, JNull])]\<rparr>"
  have "reported (fst (batch_run default_settings True ?j)) = map (\<lambda>k. 100 * (int k + 1) div int 3) [0..<3]"
    using batch_progress_exact [of ?j "[JNull, JNull, JNull]" 3 default_settings]
    by (simp add: payload_shape_def)
  also have "\<dots> = [33, 66, 100]" by code_simp
  finally show ?thesis .
qed

text \<open>
  A payload the API accepted is never the reason a handler fails: the email, report and
  batch handlers always return a result on it, and the webhook handler fails only by its
  random draw.  (Email and URL texts are not empty, as their validators guarantee.)
\<close>

lemma accepted_payload_runs:
  assumes "validate_payload_by_type email_str http_url (job_type j) d = Some (payload j)"
    and "\<And>s. email_str s \<noteq> Some []" and "\<And>s. http_url s \<noteq> Some []"
    and "get_handler (job_type_value (job_type j)) = Inr h"
  shows "(\<exists>r. snd (run_handler S hex12 rng h j) = Inr r) \<or>
    (job_type j = Webhook \<and> rng (webhook_seed j) < rnd53 (2 / 10))"
proof -
  have "case job_type j of Email \<Rightarrow> \<exists>s. payload j = [(''to'', JStr s)] \<and> s \<noteq> []
      | Webhook \<Rightarrow> \<exists>s. payload j = [(''url'', JStr s)] \<and> s \<noteq> []
      | Report \<Rightarrow> True | Batch \<Rightarrow> \<exists>xs. payload j = [(''items'', JArr xs)]"
    by (rule validated_fields_nonempty [OF assms(1-3)])
  with assms(4) show ?thesis
    by (cases "job_type j")
      (auto simp: email_run_def webhook_run_def report_run_def batch_run_def dict_get_def Let_def)
qed

text \<open>
  C40. Finding: a batch whose items together sleep longer than the job timeout can never
  finish, whatever the machine's speed.  With the default settings that is every batch of
  more than 600 items, although the API accepts up to 1000.
\<close>

theorem long_batch_never_finishes:
  assumes "payload j = [(''items'', JArr items)]" and "600 < length items"
    and "\<And>i. 0 \<le> delay i"
  shows "\<not> snd (run_until (job_timeout_seconds default_settings) delay 0 0
    (fst (run_handler default_settings hex12 rng BatchHandler j)))"
proof (rule run_until_too_long)
  let ?n = "length items"
  have run: "fst (run_handler default_settings hex12 rng BatchHandler j) = batch_actions default_settings True ?n"
    using assms(1,2) by (auto simp: batch_run_def dict_get_def Let_def)
  have d: "1 / 20 \<le> batch_item_sleep_seconds default_settings"
    unfolding default_settings_def by code_simp
  have "601 * (1 / 20) \<le> of_nat ?n * batch_item_sleep_seconds default_settings"
    using assms(2) d by (intro mult_mono) auto
  then show "job_timeout_seconds default_settings <
      0 + total_sleep (fst (run_handler default_settings hex12 rng BatchHandler j))"
    unfolding run total_sleep_batch by simp
qed (use assms(3) in auto)

theorem long_batch_never_finishes_witness:
  "validate_batch [(''items'', JArr (replicate 601 JNull))] = Some [(''items'', JArr (replicate 601 JNull))] \<and>
   \<not> snd (run_until (job_timeout_seconds default_settings) (\<lambda>_. 0) 0 0
     (fst (run_handler default_settings [] (\<lambda>_. 1) BatchHandler
       (sample_job 1 Processing 0\<lparr>payload := [(''items'', JArr (replicate 601 JNull))]\<rparr>))))"
proof
  show "validate_batch [(''items'', JArr (replicate 601 JNull))] = Some [(''items'', JArr (replicate 601 JNull))]"
    by (simp add: validate_batch_def only_keys_def BATCH_MAX_ITEMS_def)
  show "\<not> snd (run_until (job_timeout_seconds default_settings) (\<lambda>_. 0) 0 0
     (fst (run_handler default_settings [] (\<lambda>_. 1) BatchHandler
       (sample_job 1 Processing 0\<lparr>payload := [(''items'', JArr (replicate 601 JNull))]\<rparr>))))"
    by (rule long_batch_never_finishes [of _ "replicate 601 JNull"]) simp_all
qed

end
