(* ===== verification/Sweep.thy ===== *)
theory Sweep
  imports Job_Table
begin

text \<open>
  The scheduler and the reaper share a pattern: select ids, then for each id one guarded
  \<open>UPDATE\<close> in a transaction of its own, with the clock of that transaction.  This theory states
  once what such a sweep does to the table.
\<close>

definition sweep_rows ::
    "(uuid \<Rightarrow> datetime \<Rightarrow> job \<Rightarrow> bool) \<Rightarrow> (job \<Rightarrow> job) \<Rightarrow> (uuid \<Rightarrow> datetime) \<Rightarrow> uuid list \<Rightarrow> job list \<Rightarrow> job list" where
  "sweep_rows guard set_cols clk ids rows = fold (\<lambda>i. update_where (guard i (clk i)) set_cols) ids rows"

locale sweep =
  fixes guard :: "uuid \<Rightarrow> datetime \<Rightarrow> job \<Rightarrow> bool"
    and set_cols :: "job \<Rightarrow> job"
  assumes one_statement: "guarded_update (guard i t) set_cols"
    and one_row: "guard i t j \<Longrightarrow> job_id j = i"
begin

lemma sweep_table_ok: "table_ok rows \<Longrightarrow> table_ok (sweep_rows guard set_cols clk ids rows)"
  unfolding sweep_rows_def
  by (induction ids arbitrary: rows) (simp_all add: guarded_update.table_kept [OF one_statement])

lemma sweep_get_row:
  assumes "distinct ids"
  shows "get_row k (sweep_rows guard set_cols clk ids rows) =
    map_option (\<lambda>j. if k \<in> set ids \<and> guard k (clk k) j then set_cols j else j) (get_row k rows)"
  using assms
proof (induction ids arbitrary: rows)
  case Nil
  then show ?case by (simp add: sweep_rows_def option.map_ident)
next
  case (Cons i ids)
  let ?rows = "update_where (guard i (clk i)) set_cols rows"
  have step: "sweep_rows guard set_cols clk (i # ids) rows = sweep_rows guard set_cols clk ids ?rows"
    by (simp add: sweep_rows_def)
  have row: "get_row k ?rows = map_option (\<lambda>j. if guard i (clk i) j then set_cols j else j) (get_row k rows)"
    by (rule guarded_update.row_after [OF one_statement])
  show ?case
  proof (cases "k = i")
    case True
    with Cons row show ?thesis unfolding step by (cases "get_row k rows") auto
  next
    case False
    have "\<not> guard i (clk i) j" if "get_row k rows = Some j" for j
      using one_row get_row_Some [OF that] False by blast
    then have "get_row k ?rows = get_row k rows" by (cases "get_row k rows") (auto simp: row)
    with Cons False show ?thesis unfolding step by simp
  qed
qed

text \<open>The sweep as one statement over all its ids.\<close>

lemma sweep_bulk:
  assumes "distinct ids"
  shows "sweep_rows guard set_cols clk ids rows =
    update_where (\<lambda>j. job_id j \<in> set ids \<and> guard (job_id j) (clk (job_id j)) j) set_cols rows"
  using assms
proof (induction ids arbitrary: rows)
  case Nil
  then show ?case by (simp add: sweep_rows_def update_where_def)
next
  case (Cons i ids)
  have "job_id (set_cols j) = job_id j" for j
    by (rule guarded_update.keeps_id [OF one_statement])
  with Cons.prems Cons.IH [of "update_where (guard i (clk i)) set_cols rows"] one_row show ?case
    by (auto simp: sweep_rows_def update_where_def)
qed

lemma sweep_status:
  assumes "distinct ids" "get_row k rows = Some j" "get_row k (sweep_rows guard set_cols clk ids rows) = Some j'"
  shows "status j' = status j \<or> lifecycle (status j) (status j')"
  using assms guarded_update.follows_lifecycle [OF one_statement, of k "clk k" j]
  by (auto simp: sweep_get_row split: if_splits)

text \<open>The number of statements that hit a row.\<close>

lemma sweep_hit:
  assumes "distinct (map job_id rows)"
  shows "scalar_one_or_none (fst (update_returning (guard i t) set_cols rows)) =
    (case get_row i rows of None \<Rightarrow> None | Some j \<Rightarrow> if guard i t j then Some (set_cols j) else None)"
  by (rule update_returning_one [OF assms]) (rule one_row)

lemma sweep_miss:
  assumes "distinct (map job_id rows)"
    and "scalar_one_or_none (fst (update_returning (guard i t) set_cols rows)) = None"
  shows "update_where (guard i t) set_cols rows = rows"
  using assms(2) unfolding fst_update_returning
  by (intro update_where_none) (auto simp: filter_empty_conv elim: scalar_one_or_none.elims)

end

end
