(* ===== verification/Reaper.thy ===== *)
theory Reaper
  imports Sweep
begin

text \<open>
  \<^verbatim>\<open>app/worker/reaper.py\<close>: processing jobs whose lease has ended go back to pending.  The ids
  are selected in one statement and reset one by one, each under the same condition again.
\<close>

definition REAPER_BATCH_SIZE :: nat where
  "REAPER_BATCH_SIZE = 100"

definition expired :: "datetime \<Rightarrow> job \<Rightarrow> bool" where
  "expired db_now j \<longleftrightarrow>
     status j = Processing \<and> leased_until j \<noteq> None \<and> col_less (leased_until j) db_now"

definition lease_end :: "job \<Rightarrow> datetime" where
  "lease_end j = (case leased_until j of None \<Rightarrow> 0 | Some t \<Rightarrow> t)"

definition expired_ids :: "nat \<Rightarrow> datetime \<Rightarrow> database \<Rightarrow> uuid list" where
  "expired_ids limit db_now db = map job_id (select_rows (expired db_now) lease_end limit (jobs db))"

definition reap_guard :: "uuid \<Rightarrow> datetime \<Rightarrow> job \<Rightarrow> bool" where
  "reap_guard i db_now j \<longleftrightarrow> job_id j = i \<and> expired db_now j"

definition reap_set :: "job \<Rightarrow> job" where
  "reap_set j = j\<lparr>status := Pending, worker_id := None, leased_until := None, next_run_at := None\<rparr>"

definition reap_one :: "datetime \<Rightarrow> uuid \<Rightarrow> nat \<times> database \<Rightarrow> nat \<times> database" where
  "reap_one db_now i = (\<lambda>(reaped, db).
     let (returned, rows) = update_returning (reap_guard i db_now) reap_set (jobs db) in
     case scalar_one_or_none returned of
       None \<Rightarrow> (reaped, db)
     | Some job \<Rightarrow> (reaped + 1, db\<lparr>jobs := rows\<rparr>))"

text \<open>\<open>db_now\<close> is the clock of the selection, \<open>clk i\<close> that of the update of job \<open>i\<close>.\<close>

definition reap_expired_leases ::
    "nat \<Rightarrow> datetime \<Rightarrow> (uuid \<Rightarrow> datetime) \<Rightarrow> database \<Rightarrow> nat \<times> database" where
  "reap_expired_leases limit db_now clk db =
     fold (\<lambda>i. reap_one (clk i) i) (expired_ids limit db_now db) (0, db)"

fun run_reaper_loop :: "(datetime \<times> (uuid \<Rightarrow> datetime)) list \<Rightarrow> database \<Rightarrow> database" where
  "run_reaper_loop [] db = db"
| "run_reaper_loop ((db_now, clk) # rest) db =
     run_reaper_loop rest (snd (reap_expired_leases REAPER_BATCH_SIZE db_now clk db))"

section \<open>Lemmas\<close>

lemma reap_set_simps [row_simps]:
  "job_id (reap_set j) = job_id j" "status (reap_set j) = Pending" "worker_id (reap_set j) = None"
  "leased_until (reap_set j) = None" "next_run_at (reap_set j) = None"
  "attempt_count (reap_set j) = attempt_count j" "max_attempts (reap_set j) = max_attempts j"
  "idempotency_key (reap_set j) = idempotency_key j" "priority (reap_set j) = priority j"
  "created_at (reap_set j) = created_at j" "row_ok (reap_set j) = row_ok j"
  by (simp_all add: reap_set_def row_ok_def)

interpretation reaping: sweep reap_guard reap_set
  by unfold_locales (auto simp: row_simps reap_guard_def expired_def)

lemma reap_one_eq:
  assumes "distinct (map job_id (jobs db))"
  shows "snd (reap_one t i (n, db)) = db\<lparr>jobs := update_where (reap_guard i t) reap_set (jobs db)\<rparr>"
    "fst (reap_one t i (n, db)) = (if \<exists>j. get_row i (jobs db) = Some j \<and> expired t j then n + 1 else n)"
  using reaping.sweep_hit [OF assms, of i t] reaping.sweep_miss [OF assms, of i t]
    get_row_Some [of i "jobs db"]
  by (auto simp: reap_one_def update_returning_def reap_guard_def split: option.splits if_splits)

lemma expired_ids_distinct: "db_ok db \<Longrightarrow> distinct (expired_ids limit t db)"
  unfolding expired_ids_def by (intro distinct_select_rows db_ok_distinct)

lemma fold_reap_one:
  assumes "db_ok db" "distinct ids"
  shows "fold (\<lambda>i. reap_one (clk i) i) ids (n, db) =
    (n + length (filter (\<lambda>i. \<exists>j. get_row i (jobs db) = Some j \<and> expired (clk i) j) ids),
     db\<lparr>jobs := sweep_rows reap_guard reap_set clk ids (jobs db)\<rparr>)"
  using assms
proof (induction ids arbitrary: n db)
  case Nil
  then show ?case by (simp add: sweep_rows_def)
next
  case (Cons i ids)
  let ?rows = "update_where (reap_guard i (clk i)) reap_set (jobs db)"
  let ?db = "db\<lparr>jobs := ?rows\<rparr>"
  let ?hit = "\<lambda>rows i. \<exists>j. get_row i rows = Some j \<and> expired (clk i) j"
  have ok: "db_ok ?db"
    using Cons.prems(1) guarded_update.table_kept [OF reaping.one_statement] by (simp add: db_ok_def)
  have "get_row k ?rows = get_row k (jobs db)" if "k \<noteq> i" for k
    using that get_row_Some [of k "jobs db"] guarded_update.row_after [OF reaping.one_statement, of k i "clk i" "jobs db"]
    by (cases "get_row k (jobs db)") (auto simp: reap_guard_def)
  then have "filter (?hit ?rows) ids = filter (?hit (jobs db)) ids"
    using Cons.prems(2) by (intro filter_cong refl) force
  with Cons.IH [OF ok, of "fst (reap_one (clk i) i (n, db))"] Cons.prems(2)
    reap_one_eq [OF db_ok_distinct [OF Cons.prems(1)], of "clk i" i n]
  show ?case
    by (cases "reap_one (clk i) i (n, db)") (auto simp: sweep_rows_def)
qed

lemma reap_eq:
  assumes "db_ok db"
  shows "reap_expired_leases limit t clk db =
    (length (filter (\<lambda>i. \<exists>j. get_row i (jobs db) = Some j \<and> expired (clk i) j) (expired_ids limit t db)),
     db\<lparr>jobs := sweep_rows reap_guard reap_set clk (expired_ids limit t db) (jobs db)\<rparr>)"
  unfolding reap_expired_leases_def
  by (simp only: fold_reap_one [OF assms expired_ids_distinct [OF assms]] add_0)

lemma in_expired_ids:
  assumes "db_ok db" "k \<in> set (expired_ids limit t db)"
  obtains j where "get_row k (jobs db) = Some j" "expired t j"
proof -
  from assms(2) obtain j where j: "j \<in> set (select_rows (expired t) lease_end limit (jobs db))" "job_id j = k"
    unfolding expired_ids_def by auto
  then have "j \<in> set (jobs db)" "expired t j" using set_select_rows by blast+
  with get_row_unique [OF db_ok_distinct [OF assms(1)]] j(2) that show thesis by blast
qed

lemma all_expired_ids:
  assumes "length (filter (expired t) (jobs db)) \<le> limit" "get_row k (jobs db) = Some j" "expired t j"
  shows "k \<in> set (expired_ids limit t db)"
  using select_rows_all [OF assms(1), of lease_end] get_row_Some [OF assms(2)] assms(3)
  unfolding expired_ids_def by auto

lemma reap_covers:
  assumes "db_ok db" "length (filter (expired t) (jobs db)) \<le> limit"
    and "get_row i (jobs db) = Some j" "expired t j" "t \<le> clk i"
  shows "get_row i (jobs (snd (reap_expired_leases limit t clk db))) = Some (reap_set j)"
    "db_ok (snd (reap_expired_leases limit t clk db))"
proof -
  have "reap_guard i (clk i) j"
    using assms(4,5) get_row_Some [OF assms(3)] by (cases "leased_until j") (auto simp: reap_guard_def expired_def)
  with all_expired_ids [OF assms(2-4)] assms(3)
  show "get_row i (jobs (snd (reap_expired_leases limit t clk db))) = Some (reap_set j)"
    by (simp add: reap_eq [OF assms(1)] reaping.sweep_get_row [OF expired_ids_distinct [OF assms(1)]])
  show "db_ok (snd (reap_expired_leases limit t clk db))"
    using assms(1) by (simp add: reap_eq [OF assms(1)] db_ok_def reaping.sweep_table_ok)
qed

text \<open>When the clock stands still and the limit covers the work, the cycle is one bulk \<open>UPDATE\<close>.\<close>

lemma reap_bulk:
  assumes "db_ok db" "length (filter (expired t) (jobs db)) \<le> limit"
  shows "reap_expired_leases limit t (\<lambda>_. t) db =
    (length (filter (expired t) (jobs db)), db\<lparr>jobs := update_where (expired t) reap_set (jobs db)\<rparr>)"
proof -
  let ?ids = "expired_ids limit t db"
  have hit: "\<exists>j. get_row i (jobs db) = Some j \<and> expired t j" if "i \<in> set ?ids" for i
    using in_expired_ids [OF assms(1) that] by blast
  have "filter (\<lambda>i. \<exists>j. get_row i (jobs db) = Some j \<and> expired t j) ?ids = ?ids"
    by (rule filter_True) (use hit in blast)
  moreover have "length ?ids = length (filter (expired t) (jobs db))"
    using assms(2) by (simp add: expired_ids_def select_rows_def)
  moreover have "job_id j \<in> set ?ids \<and> reap_guard (job_id j) t j \<longleftrightarrow> expired t j" if "j \<in> set (jobs db)" for j
    using all_expired_ids [OF assms(2) get_row_unique [OF db_ok_distinct [OF assms(1)] that]]
    by (auto simp: reap_guard_def)
  then have "sweep_rows reap_guard reap_set (\<lambda>_. t) ?ids (jobs db) = update_where (expired t) reap_set (jobs db)"
    by (simp add: reaping.sweep_bulk [OF expired_ids_distinct [OF assms(1)]] update_where_def)
  ultimately show ?thesis unfolding reap_eq [OF assms(1)] by simp
qed

section \<open>Properties\<close>

text \<open>
  One cycle of the reaper touches only processing jobs whose lease has ended, by the clock of
  the selection and of the update; each of these becomes pending without owner, lease or delay,
  and keeps its attempts.  Every other row, every log and Redis stay as they are, and when the
  limit covers the expired jobs and the clock does not run backwards, none of them is missed.
\<close>

theorem reaper_cycle:
  assumes "db_ok db" and "reap_expired_leases limit db_now clk db = (n, db')"
  shows "db_ok db' \<and> job_logs db' = job_logs db \<and>
    (\<forall>k. case get_row k (jobs db) of None \<Rightarrow> get_row k (jobs db') = None
     | Some j \<Rightarrow>
        (get_row k (jobs db') = Some j \<or>
         (\<exists>t. status j = Processing \<and> leased_until j = Some t \<and> t < db_now \<and> t < clk k \<and>
           get_row k (jobs db') = Some (j\<lparr>status := Pending, worker_id := None, leased_until := None, next_run_at := None\<rparr>))) \<and>
        (length (filter (expired db_now) (jobs db)) \<le> limit \<and> db_now \<le> clk k \<and> expired db_now j \<longrightarrow>
           get_row k (jobs db') = Some (reap_set j)))"
proof -
  let ?ids = "expired_ids limit db_now db"
  from assms have db': "db' = db\<lparr>jobs := sweep_rows reap_guard reap_set clk ?ids (jobs db)\<rparr>"
    by (simp add: reap_eq)
  have ok: "db_ok db'" using assms(1) by (simp add: db' db_ok_def reaping.sweep_table_ok)
  have row: "get_row k (jobs db') = map_option (\<lambda>j. if k \<in> set ?ids \<and> reap_guard k (clk k) j then reap_set j else j)
      (get_row k (jobs db))" for k
    by (simp add: db' reaping.sweep_get_row [OF expired_ids_distinct [OF assms(1)]])
  have only: "\<exists>t. status j = Processing \<and> leased_until j = Some t \<and> t < db_now \<and> t < clk k"
    if "get_row k (jobs db) = Some j" "k \<in> set ?ids" "reap_guard k (clk k) j" for k j
    using that in_expired_ids [OF assms(1) that(2)]
    by (cases "leased_until j") (auto simp: reap_guard_def expired_def)
  have complete: "get_row k (jobs db') = Some (reap_set j)"
    if "get_row k (jobs db) = Some j" "length (filter (expired db_now) (jobs db)) \<le> limit" "db_now \<le> clk k" "expired db_now j" for k j
  proof -
    have "reap_guard k (clk k) j"
      using that get_row_Some [OF that(1)] by (cases "leased_until j") (auto simp: reap_guard_def expired_def)
    with all_expired_ids [OF that(2,1,4)] that(1) show ?thesis by (simp add: row)
  qed
  have "case get_row k (jobs db) of None \<Rightarrow> get_row k (jobs db') = None
     | Some j \<Rightarrow>
        (get_row k (jobs db') = Some j \<or>
         (\<exists>t. status j = Processing \<and> leased_until j = Some t \<and> t < db_now \<and> t < clk k \<and>
           get_row k (jobs db') = Some (reap_set j))) \<and>
        (length (filter (expired db_now) (jobs db)) \<le> limit \<and> db_now \<le> clk k \<and> expired db_now j \<longrightarrow>
           get_row k (jobs db') = Some (reap_set j))" for k
  proof (cases "get_row k (jobs db)")
    case (Some j)
    then show ?thesis
      using only [OF Some] complete [OF Some] by (cases "k \<in> set ?ids \<and> reap_guard k (clk k) j") (auto simp: row)
  qed (simp add: row)
  then have "\<forall>k. case get_row k (jobs db) of None \<Rightarrow> get_row k (jobs db') = None
     | Some j \<Rightarrow>
        (get_row k (jobs db') = Some j \<or>
         (\<exists>t. status j = Processing \<and> leased_until j = Some t \<and> t < db_now \<and> t < clk k \<and>
           get_row k (jobs db') = Some (reap_set j))) \<and>
        (length (filter (expired db_now) (jobs db)) \<le> limit \<and> db_now \<le> clk k \<and> expired db_now j \<longrightarrow>
           get_row k (jobs db') = Some (reap_set j))" by blast
  moreover have "job_logs db' = job_logs db" by (simp add: db')
  ultimately show ?thesis using ok unfolding reap_set_def [symmetric] by blast
qed

theorem reaper_cycle_witness:
  "get_row 1 (jobs (snd (reap_expired_leases 100 50 (\<lambda>_. 60)
     (empty_db\<lparr>jobs := [sample_job 1 Processing 0\<lparr>leased_until := Some 40\<rparr>]\<rparr>)))) =
   Some (reap_set (sample_job 1 Processing 0\<lparr>leased_until := Some 40\<rparr>))"
proof -
  let ?j = "sample_job 1 Processing 0\<lparr>leased_until := Some 40\<rparr>"
  let ?db = "empty_db\<lparr>jobs := [?j]\<rparr>"
  obtain n db' where p: "reap_expired_leases 100 50 (\<lambda>_. 60) ?db = (n, db')" by fastforce
  have ok: "db_ok ?db" by (simp add: db_ok_def table_ok_def keys_unique_def row_ok_def)
  have "get_row 1 (jobs ?db) = Some ?j" "expired 50 ?j" by (simp_all add: get_row_def expired_def)
  with reaper_cycle [OF ok p] show ?thesis by (auto simp: p split: option.splits)
qed

end
