(* ===== verification/Heartbeat.thy ===== *)
theory Heartbeat
  imports Config Claim Queue_Client Reaper
begin

text \<open>
  \<^verbatim>\<open>app/worker/heartbeat.py\<close>: the worker shows itself alive in Redis and renews the lease of
  the job it holds.  The state shared with the executor is the \<^verbatim>\<open>LeaseHolder\<close>: the id of the job
  this worker is processing, if any.
\<close>

type_synonym ('z, 'h) worker_state = "uuid option \<times> database \<times> ('z, 'h) redis"

text \<open>
  One round: \<open>ts\<close> is \<^verbatim>\<open>time.time()\<close> at the beat, \<open>now\<close> \<^verbatim>\<open>datetime.now(UTC)\<close> at the renewal.
  The holder is cleared after the renewal only if it still names that job.
\<close>

definition clear_holder :: "uuid \<Rightarrow> uuid option \<Rightarrow> uuid option" where
  "clear_holder i holder = (if holder = Some i then None else holder)"

definition heartbeat_round ::
    "settings \<Rightarrow> ('h, string) zset_ops \<Rightarrow> string \<Rightarrow> rat \<Rightarrow> datetime \<Rightarrow> ('z, 'h) worker_state \<Rightarrow> ('z, 'h) worker_state" where
  "heartbeat_round S H w ts now = (\<lambda>(holder, db, r).
     let r = worker_heartbeat H w ts (worker_heartbeat_ttl_seconds S) r in
     case holder of
       None \<Rightarrow> (holder, db, r)
     | Some i \<Rightarrow>
         (case renew_job_lease now i w (worker_lease_seconds S) db of
            (Some until, db) \<Rightarrow> (holder, db, r)
          | (None, db) \<Rightarrow> (clear_holder i holder, db, r)))"

text \<open>The loop: one reading of the clocks per round until shutdown, then the worker goes offline.\<close>

fun run_heartbeat_loop ::
    "settings \<Rightarrow> ('h, string) zset_ops \<Rightarrow> string \<Rightarrow> (rat \<times> datetime) list \<Rightarrow> ('z, 'h) worker_state \<Rightarrow> ('z, 'h) worker_state" where
  "run_heartbeat_loop S H w [] (holder, db, r) = (holder, db, worker_offline H w r)"
| "run_heartbeat_loop S H w ((ts, now) # rest) st = run_heartbeat_loop S H w rest (heartbeat_round S H w ts now st)"

section \<open>Lemmas\<close>

lemma heartbeat_round_redis:
  "snd (snd (heartbeat_round S H w ts now (h, db, r))) = worker_heartbeat H w ts (worker_heartbeat_ttl_seconds S) r"
  by (auto simp: heartbeat_round_def Let_def split: option.split prod.split)

lemma heartbeat_round_renews:
  assumes "db_ok db" "get_row i (jobs db) = Some j" "renew_guard i w j"
  shows "heartbeat_round S H w ts now (Some i, db, r) =
    (Some i, db\<lparr>jobs := update_where (renew_guard i w) (renew_set (now + seconds (worker_lease_seconds S))) (jobs db)\<rparr>,
     worker_heartbeat H w ts (worker_heartbeat_ttl_seconds S) r)"
  using assms by (simp add: heartbeat_round_def renew_job_lease_eq db_ok_distinct)

lemma heartbeat_round_lost:
  assumes "db_ok db" "\<And>j. get_row i (jobs db) = Some j \<Longrightarrow> \<not> renew_guard i w j"
  shows "heartbeat_round S H w ts now (Some i, db, r) =
    (None, db, worker_heartbeat H w ts (worker_heartbeat_ttl_seconds S) r)"
  using assms by (auto simp: heartbeat_round_def renew_job_lease_eq db_ok_distinct clear_holder_def split: option.split)

lemma reap_not_expired:
  assumes "db_ok db" "get_row k (jobs db) = Some j" "leased_until j = Some l" "clk k \<le> l"
  shows "get_row k (jobs (snd (reap_expired_leases limit db_now clk db))) = Some j"
proof -
  have "\<not> reap_guard k (clk k) j" using assms(3,4) by (simp add: reap_guard_def expired_def)
  then show ?thesis
    using reaping.sweep_get_row [OF expired_ids_distinct [OF assms(1)], of k clk limit db_now "jobs db"] assms(2)
    by (simp add: reap_eq [OF assms(1)])
qed

section \<open>Properties\<close>

text \<open>
  The heartbeat protects a live worker.  While the job it holds is processed under its name, a
  round extends the lease to one full lease after the round, and no cycle of the reaper whose
  clock is within that lease touches the row.  If the job was reaped, finished or claimed by
  another worker, the round changes no row and lets go of the job.
\<close>

theorem heartbeat_protects_lease:
  assumes "db_ok db" and "get_row i (jobs db) = Some j"
    and "heartbeat_round S H w ts now (Some i, db, r) = (h', db', r')"
  shows "if status j = Processing \<and> worker_id j = Some w then
      h' = Some i \<and> db_ok db' \<and>
      get_row i (jobs db') = Some (j\<lparr>leased_until := Some (now + seconds (worker_lease_seconds S))\<rparr>) \<and>
      (\<forall>k. k \<noteq> i \<longrightarrow> get_row k (jobs db') = get_row k (jobs db)) \<and>
      (\<forall>limit db_now clk. clk i \<le> now + seconds (worker_lease_seconds S) \<longrightarrow>
        get_row i (jobs (snd (reap_expired_leases limit db_now clk db'))) = get_row i (jobs db'))
    else h' = None \<and> db' = db"
proof (cases "status j = Processing \<and> worker_id j = Some w")
  case True
  let ?l = "now + seconds (worker_lease_seconds S)"
  have g: "renew_guard i w j" using True get_row_Some [OF assms(2)] by (simp add: renew_guard_def)
  have h': "h' = Some i" and db': "db' = db\<lparr>jobs := update_where (renew_guard i w) (renew_set ?l) (jobs db)\<rparr>"
    using assms(3) heartbeat_round_renews [OF assms(1,2) g, of S H ts now r] by simp_all
  have ok: "db_ok db'" using assms(1) by (simp add: db' db_ok_def renewing.table_kept)
  have row: "get_row i (jobs db') = Some (renew_set ?l j)"
    using g assms(2) by (simp add: db' renewing.row_after)
  have other: "get_row k (jobs db') = get_row k (jobs db)" if "k \<noteq> i" for k
    using that get_row_Some [of k "jobs db"]
    by (cases "get_row k (jobs db)") (auto simp: db' renewing.row_after renew_guard_def)
  have "get_row i (jobs (snd (reap_expired_leases limit db_now clk db'))) = get_row i (jobs db')"
    if "clk i \<le> ?l" for limit db_now clk
    using reap_not_expired [OF ok row, where clk = clk and l = ?l] that by (simp add: row row_simps)
  with True h' ok row other show ?thesis by (simp add: renew_set_def)
next
  case False
  then have "\<not> renew_guard i w j" by (auto simp: renew_guard_def)
  with assms(2) have "heartbeat_round S H w ts now (Some i, db, r) =
      (None, db, worker_heartbeat H w ts (worker_heartbeat_ttl_seconds S) r)"
    by (intro heartbeat_round_lost [OF assms(1)]) simp
  with False assms(3) show ?thesis by auto
qed

theorem heartbeat_protects_lease_witness:
  "\<exists>h' db' r'. heartbeat_round default_settings list_zset ''w1'' 100 1000
     (Some 1, empty_db\<lparr>jobs := [sample_job 1 Processing 0\<lparr>worker_id := Some ''w1'', leased_until := Some 7\<rparr>]\<rparr>, empty_redis) =
       (h', db', r') \<and> h' = Some 1"
proof -
  let ?j = "sample_job 1 Processing 0\<lparr>worker_id := Some ''w1'', leased_until := Some 7\<rparr>"
  let ?db = "empty_db\<lparr>jobs := [?j]\<rparr>"
  obtain h' db' r' where p: "heartbeat_round default_settings list_zset ''w1'' 100 1000 (Some 1, ?db, empty_redis) = (h', db', r')"
    by (metis prod.exhaust)
  have "db_ok ?db" "get_row 1 (jobs ?db) = Some ?j"
    by (simp_all add: db_ok_def table_ok_def keys_unique_def row_ok_def get_row_def)
  from heartbeat_protects_lease [OF this p] p show ?thesis by simp
qed

end
