(* ===== verification/Executor.thy ===== *)
theory Executor
  imports Retry Handlers Heartbeat
begin

text \<open>
  \<^verbatim>\<open>app/worker/executor.py\<close>: one job from the queue to its final row, and the loop around it.

  \<open>process_one\<close> is the whole method.  Its transactions are definitions of their own
  (\<open>start_commit\<close>, \<open>report_progress\<close>, \<open>complete_job\<close>, \<open>apply_failure\<close>), which \<open>System\<close>
  interleaves with the other processes; here nothing else happens in between.

  What the run reads from outside is the record \<open>run_env\<close>: the clocks at the claim and at the
  end, the random draws of the handlers, and the delays of \<open>run_until\<close>.
\<close>

record run_env =
  clk_claim :: datetime
  clk_db :: datetime
  clk_done :: datetime
  run_hex12 :: string
  run_rng :: "string \<Rightarrow> rat"
  run_delay :: "nat \<Rightarrow> rat"

text \<open>A plain environment, for the witnesses: no delays, and every draw succeeds.\<close>

definition sample_env :: run_env where
  "sample_env = \<lparr>clk_claim = 10, clk_db = 10, clk_done = 20, run_hex12 = ''0123456789ab'',
     run_rng = (\<lambda>_. 1), run_delay = (\<lambda>_. 0)\<rparr>"

text \<open>How the awaited handler ends.\<close>

datatype run_outcome = Returned json_dict | TimedOut | Raised handler_exn

section \<open>Helpers\<close>

fun exn_text :: "handler_exn \<Rightarrow> string" where
  "exn_text (HandlerError m) = m"
| "exn_text (UnknownJobTypeError m) = m"
| "exn_text (OtherError ty m) = m"

fun exn_type :: "handler_exn \<Rightarrow> string" where
  "exn_type (HandlerError m) = ''HandlerError''"
| "exn_type (UnknownJobTypeError m) = ''UnknownJobTypeError''"
| "exn_type (OtherError ty m) = ty"

definition safe_error_message :: "handler_exn \<Rightarrow> string" where
  "safe_error_message e =
     (let msg = (if strip (exn_text e) = [] then exn_type e else strip (exn_text e)) in take 1000 msg)"

definition complete_values :: "datetime \<Rightarrow> json_dict \<Rightarrow> job \<Rightarrow> job" where
  "complete_values now res j =
     j\<lparr>status := Completed, result := Some (JObj res), progress_pct := 100, completed_at := Some now,
       error_message := None, next_run_at := None, leased_until := None\<rparr>"

definition complete_job :: "datetime \<Rightarrow> json_dict \<Rightarrow> job \<Rightarrow> database \<Rightarrow> database" where
  "complete_job now res job db =
     orm_commit job (complete_values now res job)
       (append_job_log [] (job_id job) ''job completed'' Info
          (Some (JObj [(''status'', JStr (status_value Completed))]))) db"

definition progress_values :: "int \<Rightarrow> job \<Rightarrow> job" where
  "progress_values pct j = j\<lparr>progress_pct := max 0 (min 100 pct)\<rparr>"

text \<open>Returns the object as it is after the commit, the one the next commit compares with.\<close>

definition report_progress :: "int \<Rightarrow> job \<times> database \<Rightarrow> job \<times> database" where
  "report_progress pct = (\<lambda>(job, db). (progress_values pct job, orm_commit job (progress_values pct job) [] db))"

definition start_commit :: "string \<Rightarrow> job \<Rightarrow> database \<Rightarrow> database" where
  "start_commit w job db =
     orm_commit job job
       (append_job_log [] (job_id job) ''job started'' Info
          (Some (JObj [(''status'', JStr (status_value (status job))), (''worker_id'', JStr w),
                       (''attempt_count'', JInt (attempt_count job))]))) db"

section \<open>Running the handler\<close>

text \<open>The percentages committed while it ran, and how it ended.\<close>

definition execute :: "settings \<Rightarrow> run_env \<Rightarrow> job \<Rightarrow> int list \<times> run_outcome" where
  "execute S env job =
     (case get_handler (job_type_value (job_type job)) of
        Inl e \<Rightarrow> ([], Raised e)
      | Inr h \<Rightarrow>
          let (acts, res) = run_handler S (run_hex12 env) (run_rng env) h job;
              (pcts, finished) = run_until (job_timeout_seconds S) (run_delay env) 0 0 acts
          in (pcts, if \<not> finished then TimedOut
                    else case res of Inr d \<Rightarrow> Returned d | Inl e \<Rightarrow> Raised e))"

text \<open>The end of the \<^verbatim>\<open>try\<close>: completion, or one of its three handlers.\<close>

definition finalize ::
    "settings \<Rightarrow> datetime \<Rightarrow> run_outcome \<Rightarrow> job \<Rightarrow> database \<times> ('z, 'h) redis \<Rightarrow> database \<times> ('z, 'h) redis" where
  "finalize S now out job st =
     (let timed_out = apply_failure S now True (''timed out after '' @ fmt_g (job_timeout_seconds S) @ ''s'') False job st in
      case out of
        Returned d \<Rightarrow> (complete_job now d job (fst st), snd st)
      | TimedOut \<Rightarrow> timed_out
      | Raised e \<Rightarrow>
          if exn_type e = ''TimeoutError'' then timed_out
          else (case e of
                  UnknownJobTypeError m \<Rightarrow> apply_failure S now True (safe_error_message e) True job st
                | _ \<Rightarrow> apply_failure S now True (safe_error_message e) False job st))"

section \<open>process_one\<close>

text \<open>The state: the job in the worker's \<^verbatim>\<open>LeaseHolder\<close>, the database and Redis.\<close>

definition process_one ::
    "settings \<Rightarrow> ('z, uuid) zset_ops \<Rightarrow> string \<Rightarrow> run_env \<Rightarrow> ('z, 'h) worker_state \<Rightarrow>
     bool \<times> ('z, 'h) worker_state" where
  "process_one S Z w env = (\<lambda>(holder, db, r).
     (case dequeue Z r of
        (None, r) \<Rightarrow> (False, holder, db, r)
      | (Some i, r) \<Rightarrow>
          (case claim_job (clk_claim env) (clk_db env) i w (worker_lease_seconds S) db of
             (None, db) \<Rightarrow> (True, holder, db, r)
           | (Some job, db) \<Rightarrow>
               let holder = Some (job_id job);
                   db = start_commit w job db;
                   (pcts, out) = execute S env job;
                   (job', db) = fold report_progress pcts (job, db);
                   (db, r) = finalize S (clk_done env) out job' (db, r);
                   holder = clear_holder (job_id job') holder
               in (True, holder, db, r))))"

text \<open>
  The loop: one environment per iteration until shutdown is requested.  Returns what each call
  returned; where that is \<open>False\<close> the loop waits for the poll interval.
\<close>

fun run_executor_loop ::
    "settings \<Rightarrow> ('z, uuid) zset_ops \<Rightarrow> string \<Rightarrow> run_env list \<Rightarrow> ('z, 'h) worker_state \<Rightarrow>
     bool list \<times> ('z, 'h) worker_state" where
  "run_executor_loop S Z w [] st = ([], st)"
| "run_executor_loop S Z w (env # envs) st =
     (let (processed, st) = process_one S Z w env st;
          (rest, st) = run_executor_loop S Z w envs st
      in (processed # rest, st))"

section \<open>Lemmas\<close>

lemma complete_values_simps [row_simps]:
  "job_id (complete_values now d j) = job_id j" "status (complete_values now d j) = Completed"
  "idempotency_key (complete_values now d j) = idempotency_key j"
  "attempt_count (complete_values now d j) = attempt_count j"
  "max_attempts (complete_values now d j) = max_attempts j"
  "progress_pct (complete_values now d j) = 100" "result (complete_values now d j) = Some (JObj d)"
  "error_message (complete_values now d j) = None" "leased_until (complete_values now d j) = None"
  "worker_id (complete_values now d j) = worker_id j" "payload (complete_values now d j) = payload j"
  "row_ok j \<Longrightarrow> row_ok (complete_values now d j)"
  by (simp_all add: complete_values_def row_ok_def)

lemma progress_values_simps [row_simps]:
  "job_id (progress_values p j) = job_id j" "status (progress_values p j) = status j"
  "idempotency_key (progress_values p j) = idempotency_key j"
  "attempt_count (progress_values p j) = attempt_count j"
  "max_attempts (progress_values p j) = max_attempts j"
  "job_type (progress_values p j) = job_type j" "payload (progress_values p j) = payload j"
  "worker_id (progress_values p j) = worker_id j" "leased_until (progress_values p j) = leased_until j"
  "progress_pct (progress_values p j) = max 0 (min 100 p)"
  "row_ok j \<Longrightarrow> row_ok (progress_values p j)"
  by (simp_all add: progress_values_def row_ok_def)

interpretation completing: object_update "\<lambda>j. status j = Processing" "complete_values now res"
  by unfold_locales (auto simp: row_simps)

interpretation progressing: object_update "\<lambda>j. status j = Processing" "progress_values pct"
  by unfold_locales (auto simp: row_simps)

lemma start_commit_jobs [simp]: "jobs (start_commit w j db) = jobs db"
  by (simp add: start_commit_def table_simps update_where_def cong: if_cong)

lemma start_commit_db_ok [simp]: "db_ok (start_commit w j db) = db_ok db"
  by (simp add: db_ok_def)

text \<open>A handler is always found: the branch that makes a failure permanent is dead code.\<close>

lemma execute_registered:
  obtains h where "execute S env job =
    (let (acts, res) = run_handler S (run_hex12 env) (run_rng env) h job;
         (pcts, finished) = run_until (job_timeout_seconds S) (run_delay env) 0 0 acts
     in (pcts, if \<not> finished then TimedOut else case res of Inr d \<Rightarrow> Returned d | Inl e \<Rightarrow> Raised e))"
    "get_handler (job_type_value (job_type job)) = Inr h"
  by (rule that [OF _ get_handler_value]) (simp add: execute_def)

lemma execute_percents:
  assumes "execute S env job = (pcts, out)" "p \<in> set pcts"
  shows "0 \<le> p \<and> p \<le> 100"
proof -
  obtain h where "execute S env job =
    (let (acts, res) = run_handler S (run_hex12 env) (run_rng env) h job;
         (pcts, finished) = run_until (job_timeout_seconds S) (run_delay env) 0 0 acts
     in (pcts, if \<not> finished then TimedOut else case res of Inr d \<Rightarrow> Returned d | Inl e \<Rightarrow> Raised e))"
    by (rule execute_registered)
  with assms have "p \<in> set (fst (run_until (job_timeout_seconds S) (run_delay env) 0 0
      (fst (run_handler S (run_hex12 env) (run_rng env) h job))))"
    by (simp add: case_prod_unfold Let_def prod_eq_iff)
  then have "ReportPct p \<in> set (fst (run_handler S (run_hex12 env) (run_rng env) h job))"
    using run_until_reports_in set_reported by blast
  then show ?thesis by (rule job_handler.reports_percent [OF run_handler_protocol])
qed

lemma execute_raises:
  assumes "execute S env job = (pcts, Raised e)"
  obtains m where "e = HandlerError m" "m \<noteq> []"
proof -
  obtain h where "execute S env job =
    (let (acts, res) = run_handler S (run_hex12 env) (run_rng env) h job;
         (pcts, finished) = run_until (job_timeout_seconds S) (run_delay env) 0 0 acts
     in (pcts, if \<not> finished then TimedOut else case res of Inr d \<Rightarrow> Returned d | Inl e \<Rightarrow> Raised e))"
    by (rule execute_registered)
  with assms have "snd (run_handler S (run_hex12 env) (run_rng env) h job) = Inl e"
    by (auto simp: case_prod_unfold Let_def split: if_splits sum.splits)
  from job_handler.raises_handler_error [OF run_handler_protocol this] that show thesis by blast
qed

text \<open>Progress reports over the row as loaded.\<close>

definition after_reports :: "int list \<Rightarrow> job \<Rightarrow> job" where
  "after_reports pcts j = (if pcts = [] then j else progress_values (last pcts) j)"

lemma after_reports_simps [row_simps]:
  "job_id (after_reports ps j) = job_id j" "status (after_reports ps j) = status j"
  "attempt_count (after_reports ps j) = attempt_count j"
  "max_attempts (after_reports ps j) = max_attempts j" "payload (after_reports ps j) = payload j"
  "progress_pct (after_reports ps j) = (if ps = [] then progress_pct j else max 0 (min 100 (last ps)))"
  by (simp_all add: after_reports_def row_simps)

lemma progress_values_twice [simp]: "progress_values p (progress_values q j) = progress_values p j"
  by (simp add: progress_values_def)

lemma report_progress_pair:
  "report_progress p (j, db) = (progress_values p j, orm_commit j (progress_values p j) [] db)"
  by (simp add: report_progress_def)

lemma fold_reports:
  assumes "db_ok db" "get_row i (jobs db) = Some j"
  obtains db' where "fold report_progress ps (j, db) = (after_reports ps j, db')" "db_ok db'"
    "\<And>k. get_row k (jobs db') = (if k = i then Some (after_reports ps j) else get_row k (jobs db))"
  using assms
proof (induction ps arbitrary: j db thesis)
  case Nil
  then show ?case by (simp add: after_reports_def)
next
  case (Cons p ps)
  let ?db = "orm_commit j (progress_values p j) [] db"
  have i: "job_id j = i" using get_row_Some [OF Cons.prems(3)] by simp
  have ok: "db_ok ?db"
    by (rule progressing.commit_db_ok [OF Cons.prems(2) db_ok_row [OF Cons.prems(2,3)]])
  have row: "get_row i (jobs ?db) = Some (progress_values p j)"
    by (rule progressing.commit_fresh [OF Cons.prems(3)])
  have other: "k \<noteq> i \<Longrightarrow> get_row k (jobs ?db) = get_row k (jobs db)" for k
    unfolding i [symmetric] by (rule progressing.commit_other)
  obtain db' where db': "fold report_progress ps (progress_values p j, ?db) =
      (after_reports ps (progress_values p j), db')" "db_ok db'"
    "\<And>k. get_row k (jobs db') =
      (if k = i then Some (after_reports ps (progress_values p j)) else get_row k (jobs ?db))"
    by (rule Cons.IH [OF _ ok row]) (rule that)
  have "after_reports ps (progress_values p j) = after_reports (p # ps) j"
    by (simp add: after_reports_def)
  with db' other show ?case by (intro Cons.prems(1) [of db']) (auto simp: report_progress_pair)
qed

text \<open>The error text and permanence of an outcome that is no result.\<close>

definition failure_of :: "settings \<Rightarrow> run_outcome \<Rightarrow> string \<times> bool" where
  "failure_of S out =
     (let timed_out = (''timed out after '' @ fmt_g (job_timeout_seconds S) @ ''s'', False) in
      case out of
        Raised e \<Rightarrow> if exn_type e = ''TimeoutError'' then timed_out
                    else (safe_error_message e, case e of UnknownJobTypeError m \<Rightarrow> True | _ \<Rightarrow> False)
      | _ \<Rightarrow> timed_out)"

definition final_row :: "settings \<Rightarrow> datetime \<Rightarrow> run_outcome \<Rightarrow> job \<Rightarrow> job" where
  "final_row S now out j =
     (case out of Returned d \<Rightarrow> complete_values now d j
      | _ \<Rightarrow> failure_values S now (fst (failure_of S out)) (snd (failure_of S out)) j)"

lemma finalize_eq:
  "finalize S now out job st =
    (case out of Returned d \<Rightarrow> (complete_job now d job (fst st), snd st)
     | _ \<Rightarrow> apply_failure S now True (fst (failure_of S out)) (snd (failure_of S out)) job st)"
  by (simp add: finalize_def failure_of_def Let_def split: run_outcome.split handler_exn.split)

interpretation finalizing: object_update "\<lambda>j. status j = Processing" "final_row S now out"
  by unfold_locales (auto simp: final_row_def row_simps split: run_outcome.split)

lemma finalize_commit:
  obtains logs where "fst (finalize S now out job st) = orm_commit job (final_row S now out job) logs (fst st)"
  by (cases out) (auto simp: finalize_eq final_row_def complete_job_def row_simps)

lemma finalize_redis:
  "snd (finalize S now out job st) =
    (if status (final_row S now out job) = Failed then dead_letter (job_id job) (snd st) else snd st)"
  by (cases out) (auto simp: finalize_eq final_row_def row_simps)

text \<open>\<^verbatim>\<open>process_one\<close> on a job it could claim, uninterrupted.\<close>

lemma process_one_claimed:
  assumes ok: "db_ok db" and dq: "dequeue Z r = (Some i, r1)"
    and row: "get_row i (jobs db) = Some j" and guard: "claim_guard i (clk_db env) j"
    and j1: "j1 = claim_set w (clk_claim env + seconds (worker_lease_seconds S)) (clk_db env) j"
    and ex: "execute S env j1 = (pcts, out)"
    and fr: "fr = final_row S (clk_done env) out (after_reports pcts j1)"
  obtains db' where
    "process_one S Z w env (h, db, r) = (True, None, db', if status fr = Failed then dead_letter i r1 else r1)"
    "db_ok db'" "\<And>k. get_row k (jobs db') = (if k = i then Some fr else get_row k (jobs db))"
proof -
  obtain db1 where c: "claim_job (clk_claim env) (clk_db env) i w (worker_lease_seconds S) db = (Some j1, db1)"
    using ok row guard j1 by (simp add: claim_job_eq db_ok_distinct)
  obtain c1: "get_row i (jobs db1) = Some j1" "db_ok db1"
    and c2: "\<And>k. k \<noteq> i \<Longrightarrow> get_row k (jobs db1) = get_row k (jobs db)"
    by (rule claim_job_Some [OF ok c]) (rule that)
  have id: "job_id j1 = i" using get_row_Some [OF c1(1)] by simp
  have s1: "db_ok (start_commit w j1 db1)" "get_row i (jobs (start_commit w j1 db1)) = Some j1"
    using c1 by simp_all
  obtain db2 where f: "fold report_progress pcts (j1, start_commit w j1 db1) = (after_reports pcts j1, db2)"
    and ok2: "db_ok db2"
    and r2: "\<And>k. get_row k (jobs db2) = (if k = i then Some (after_reports pcts j1)
      else get_row k (jobs (start_commit w j1 db1)))"
    by (rule fold_reports [OF s1, where ps = pcts]) (rule that)
  let ?j2 = "after_reports pcts j1"
  have id2: "job_id ?j2 = i" by (simp add: row_simps id)
  have row2: "get_row i (jobs db2) = Some ?j2" by (simp add: r2)
  obtain logs where fin: "fst (finalize S (clk_done env) out ?j2 (db2, r1)) = orm_commit ?j2 fr logs db2"
    using finalize_commit [of S "clk_done env" out ?j2 "(db2, r1)"] unfolding fr by (metis fst_conv)
  have red: "snd (finalize S (clk_done env) out ?j2 (db2, r1)) = (if status fr = Failed then dead_letter i r1 else r1)"
    by (simp only: finalize_redis fr id2 snd_conv)
  let ?db = "orm_commit ?j2 fr logs db2"
  show ?thesis
  proof (rule that)
    have "finalize S (clk_done env) out ?j2 (db2, r1) = (?db, if status fr = Failed then dead_letter i r1 else r1)"
      by (simp only: prod_eq_iff fin red fst_conv snd_conv)
    then show "process_one S Z w env (h, db, r) = (True, None, ?db, if status fr = Failed then dead_letter i r1 else r1)"
      by (simp add: process_one_def dq c Let_def ex f id id2 clear_holder_def)
    show "db_ok ?db"
      unfolding fr by (rule finalizing.commit_db_ok [OF ok2 db_ok_row [OF ok2 row2]])
    show "get_row k (jobs ?db) = (if k = i then Some fr else get_row k (jobs db))" for k
      using finalizing.commit_fresh [OF row2] finalizing.commit_other [of k ?j2] r2 c2
      unfolding fr id2 by auto
  qed
qed

lemma process_one_skipped:
  assumes "db_ok db" "dequeue Z r = (Some i, r1)"
    and "\<And>j. get_row i (jobs db) = Some j \<Longrightarrow> \<not> claim_guard i (clk_db env) j"
  shows "process_one S Z w env (h, db, r) = (True, h, db, r1)"
  using assms by (auto simp: process_one_def claim_job_eq db_ok_distinct split: option.split)

lemma process_one_idle:
  "dequeue Z r = (None, r1) \<Longrightarrow> process_one S Z w env (h, db, r) = (False, h, db, r1)"
  by (simp add: process_one_def)

text \<open>What one round does to the pending set, whatever the database says.\<close>

lemma process_one_pending:
  assumes "job_queue Z" "db_ok db" "process_one S Z w env (h, db, r) = (b, h', db', r')"
  shows "b \<longleftrightarrow> pending_score Z r \<noteq> Map.empty" "db_ok db'"
    "pending_depth Z r' = pending_depth Z r - 1"
proof -
  obtain res r1 where d: "dequeue Z r = (res, r1)" by (cases "dequeue Z r")
  have "b = (res \<noteq> None) \<and> db_ok db' \<and> jobs_pending r' = jobs_pending r1"
  proof (cases res)
    case None
    with assms d show ?thesis by (simp add: process_one_idle)
  next
    case (Some i)
    with d have dq: "dequeue Z r = (Some i, r1)" by simp
    show ?thesis
    proof (cases "\<exists>j. get_row i (jobs db) = Some j \<and> claim_guard i (clk_db env) j")
      case False
      then have "process_one S Z w env (h, db, r) = (True, h, db, r1)"
        by (intro process_one_skipped [OF assms(2) dq]) blast
      with assms Some show ?thesis by simp
    next
      case True
      then obtain j where j: "get_row i (jobs db) = Some j" "claim_guard i (clk_db env) j" by blast
      define j1 where "j1 = claim_set w (clk_claim env + seconds (worker_lease_seconds S)) (clk_db env) j"
      obtain pcts out where ex: "execute S env j1 = (pcts, out)" by (cases "execute S env j1")
      show ?thesis
        by (rule process_one_claimed [OF assms(2) dq j j1_def ex refl, of h])
          (use assms(3) Some in auto)
    qed
  qed
  moreover have "res = None \<longleftrightarrow> pending_score Z r = Map.empty"
    using job_queue.dequeue_None [OF assms(1), of r] d by simp
  moreover have "pending_depth Z r1 = pending_depth Z r - 1" by (rule job_queue.dequeue_depth [OF assms(1) d])
  ultimately show "b \<longleftrightarrow> pending_score Z r \<noteq> Map.empty" "db_ok db'"
    "pending_depth Z r' = pending_depth Z r - 1"
    by (simp_all add: pending_depth_def)
qed

text \<open>With the default settings and no delays, what the API accepts fits the timeout.\<close>

lemma default_sleeps:
  "0 \<le> email_mock_sleep_seconds default_settings" "email_mock_sleep_seconds default_settings \<le> 30"
  "0 \<le> webhook_mock_sleep_seconds default_settings" "webhook_mock_sleep_seconds default_settings \<le> 30"
  "0 \<le> report_mock_sleep_seconds default_settings" "report_mock_sleep_seconds default_settings \<le> 30"
  "0 \<le> batch_item_sleep_seconds default_settings" "599 * batch_item_sleep_seconds default_settings \<le> 30"
  unfolding default_settings_def by code_simp+

lemma batch_sleeps: "Sleep d \<in> set (batch_actions S b n) \<Longrightarrow> d = batch_item_sleep_seconds S"
  by (auto simp: batch_actions_def split: if_splits)

lemma default_run_fits:
  assumes "payload_shape (job_type j) (payload j)"
    and "\<And>items. payload j = [(''items'', JArr items)] \<Longrightarrow> length items < 600"
    and "get_handler (job_type_value (job_type j)) = Inr h"
  shows "total_sleep (fst (run_handler default_settings x rng h j)) \<le> 30 \<and>
    (\<forall>d. Sleep d \<in> set (fst (run_handler default_settings x rng h j)) \<longrightarrow> 0 \<le> d)"
proof (cases "job_type j")
  case Batch
  then obtain items where p: "payload j = [(''items'', JArr items)]"
    using assms(1) by (auto simp: payload_shape_def)
  let ?n = "length items"
  have run: "fst (run_handler default_settings x rng h j) =
      (if ?n = 0 then [ReportPct 100] else batch_actions default_settings True ?n)"
    using assms(3) Batch p by (auto simp: batch_run_def dict_get_def Let_def)
  have "of_nat ?n * batch_item_sleep_seconds default_settings \<le> 599 * batch_item_sleep_seconds default_settings"
    using assms(2) [OF p] default_sleeps(7) by (intro mult_right_mono) auto
  then show ?thesis
    using default_sleeps unfolding run by (auto simp: total_sleep_batch dest!: batch_sleeps)
qed (use assms(3) default_sleeps in \<open>auto simp: email_run_def webhook_run_def report_run_def\<close>)

lemma execute_in_time:
  assumes "get_handler (job_type_value (job_type j)) = Inr h"
    and "snd (run_handler S (run_hex12 env) (run_rng env) h j) = Inr d"
    and "total_sleep (fst (run_handler S (run_hex12 env) (run_rng env) h j)) \<le> job_timeout_seconds S"
    and "\<And>d. Sleep d \<in> set (fst (run_handler S (run_hex12 env) (run_rng env) h j)) \<Longrightarrow> 0 \<le> d"
    and "\<And>i. run_delay env i = 0"
  shows "snd (execute S env j) = Returned d"
proof -
  let ?acts = "fst (run_handler S (run_hex12 env) (run_rng env) h j)"
  have "run_until (job_timeout_seconds S) (run_delay env) 0 0 ?acts = (reported ?acts, True)"
    by (rule run_until_in_time [OF assms(5) _ assms(4)]) (use assms(3) in simp)
  then show ?thesis unfolding execute_def assms(1) using assms(2) by (simp add: case_prod_unfold Let_def)
qed

text \<open>The final row of a run that was claimed now.\<close>

lemma final_row_of_claimed:
  assumes "execute S env j1 = (pcts, out)" and "j1 = claim_set w until now j"
    and "fr = final_row S done out (after_reports pcts j1)"
  shows "attempt_count fr = attempt_count j + 1" "leased_until fr = None"
    "case out of Returned d \<Rightarrow> status fr = Completed \<and> result fr = Some (JObj d) \<and>
         progress_pct fr = 100 \<and> error_message fr = None
       | _ \<Rightarrow> error_message fr \<noteq> None \<and>
         status fr = (if attempt_count j + 1 < max_attempts j then Pending else Failed)"
proof -
  have "\<not> snd (failure_of S out)"
  proof (cases out)
    case (Raised e)
    with assms(1) obtain m where "e = HandlerError m" by (auto elim: execute_raises)
    with Raised show ?thesis by (simp add: failure_of_def Let_def)
  qed (simp_all add: failure_of_def Let_def)
  then show "attempt_count fr = attempt_count j + 1" "leased_until fr = None"
    "case out of Returned d \<Rightarrow> status fr = Completed \<and> result fr = Some (JObj d) \<and>
         progress_pct fr = 100 \<and> error_message fr = None
       | _ \<Rightarrow> error_message fr \<noteq> None \<and>
         status fr = (if attempt_count j + 1 < max_attempts j then Pending else Failed)"
    by (auto simp: assms(2,3) final_row_def row_simps retries_def should_retry_def split: run_outcome.split)
qed

section \<open>Properties\<close>

text \<open>
  C14. One round of the executor, in every case.  An empty queue: nothing happens and the loop is
  told to wait.  Otherwise exactly the popped job leaves the pending set, and nothing is ever put
  back.  If the job cannot be claimed, neither the database nor the dead letters change.  If it
  can, its row ends with one attempt more and no lease: completed with the handler's result,
  or else with an error message, pending again while attempts remain and failed (and recorded as
  a dead letter) when they are used up.  No other row changes.
\<close>

theorem process_one_spec:
  assumes "job_queue Z" and "db_ok db"
  shows "case fst (dequeue Z r) of
      None \<Rightarrow> process_one S Z w env (h, db, r) = (False, h, db, r)
    | Some i \<Rightarrow> (\<exists>h' db' r'. process_one S Z w env (h, db, r) = (True, h', db', r') \<and> db_ok db' \<and>
        pending_score Z r' = (pending_score Z r)(i := None) \<and> jobs_scheduled r' = jobs_scheduled r \<and>
        (\<forall>k. k \<noteq> i \<longrightarrow> get_row k (jobs db') = get_row k (jobs db)) \<and>
        (case get_row i (jobs db) of
           None \<Rightarrow> db' = db \<and> jobs_dead_letter r' = jobs_dead_letter r
         | Some j \<Rightarrow>
             if status j = Pending \<and> (\<forall>t. next_run_at j = Some t \<longrightarrow> t \<le> clk_db env) then
               \<exists>j'. get_row i (jobs db') = Some j' \<and> h' = None \<and>
                 attempt_count j' = attempt_count j + 1 \<and> leased_until j' = None \<and>
                 (case snd (execute S env (claim_set w (clk_claim env + seconds (worker_lease_seconds S)) (clk_db env) j)) of
                    Returned d \<Rightarrow> status j' = Completed \<and> result j' = Some (JObj d) \<and>
                      progress_pct j' = 100 \<and> error_message j' = None
                  | _ \<Rightarrow> error_message j' \<noteq> None \<and>
                      status j' = (if attempt_count j + 1 < max_attempts j then Pending else Failed)) \<and>
                 jobs_dead_letter r' = (if status j' = Failed
                   then take DEAD_LETTER_MAX_LEN (i # jobs_dead_letter r) else jobs_dead_letter r)
             else db' = db \<and> jobs_dead_letter r' = jobs_dead_letter r))"
proof (cases "dequeue Z r")
  case (Pair res r1)
  show ?thesis
  proof (cases res)
    case None
    with Pair job_queue.dequeue_empty [OF assms(1), of r r1] show ?thesis
      by (simp add: process_one_idle)
  next
    case (Some i)
    with Pair have dq: "dequeue Z r = (Some i, r1)" by simp
    have pend: "pending_score Z r1 = (pending_score Z r)(i := None)"
      using job_queue.dequeue_Some [OF assms(1) dq] by metis
    have frame: "jobs_scheduled r1 = jobs_scheduled r" "jobs_dead_letter r1 = jobs_dead_letter r"
      using dq redis_frame(6,7) [of Z r] by simp_all
    show ?thesis
    proof (cases "\<exists>j. get_row i (jobs db) = Some j \<and> claim_guard i (clk_db env) j")
      case False
      then have "process_one S Z w env (h, db, r) = (True, h, db, r1)"
        using assms(2) dq by (intro process_one_skipped) auto
      moreover have "\<not> (status j = Pending \<and> (\<forall>t. next_run_at j = Some t \<longrightarrow> t \<le> clk_db env))"
        if "get_row i (jobs db) = Some j" for j
        using that False get_row_Some [OF that] by (cases "next_run_at j") (auto simp: claim_guard_def)
      ultimately show ?thesis
        using pend frame assms(2) dq by (auto split: option.split)
    next
      case True
      then obtain j where j: "get_row i (jobs db) = Some j" "claim_guard i (clk_db env) j" by blast
      define j1 where "j1 = claim_set w (clk_claim env + seconds (worker_lease_seconds S)) (clk_db env) j"
      obtain pcts out where ex: "execute S env j1 = (pcts, out)" by (cases "execute S env j1")
      define fr where "fr = final_row S (clk_done env) out (after_reports pcts j1)"
      obtain db' where p: "process_one S Z w env (h, db, r) =
          (True, None, db', if status fr = Failed then dead_letter i r1 else r1)"
        and "db_ok db'" and rows: "\<And>k. get_row k (jobs db') = (if k = i then Some fr else get_row k (jobs db))"
        by (rule process_one_claimed [OF assms(2) dq j j1_def ex fr_def]) (rule that)
      have due: "status j = Pending \<and> (\<forall>t. next_run_at j = Some t \<longrightarrow> t \<le> clk_db env)"
        using j(2) by (auto simp: claim_guard_def)
      note fields = final_row_of_claimed [OF ex j1_def fr_def]
      show ?thesis
        using p \<open>db_ok db'\<close> rows due fields pend frame ex
        by (simp add: dq j(1) j1_def [symmetric] dead_letter_def)
    qed
  qed
qed

theorem process_one_spec_witness:
  "\<exists>h' db' r'. process_one default_settings list_zset ''w1'' sample_env
     (None, empty_db\<lparr>jobs := [sample_job 1 Pending 0]\<rparr>, empty_redis\<lparr>jobs_pending := [(1, 5)]\<rparr>) =
       (True, h', db', r') \<and> db_ok db' \<and> pending_score list_zset r' 1 = None"
proof -
  let ?r = "empty_redis\<lparr>jobs_pending := [(1, 5)]\<rparr>"
  have dq: "fst (dequeue list_zset ?r) = Some 1"
    by (simp add: dequeue_def list_zset_def zsorted_def empty_redis_def)
  have "db_ok (empty_db\<lparr>jobs := [sample_job 1 Pending 0]\<rparr>)" by (simp add: db_ok_def table_ok_def keys_unique_def)
  from process_one_spec [OF list_queue this, where r = ?r and S = default_settings and w = "''w1''" and env = sample_env and h = None]
  show ?thesis unfolding dq option.case by fastforce
qed

text \<open>
  The executor drains the queue: while nobody adds jobs, each round takes one job out of the
  pending set until it is empty, and only from then on the loop waits.
\<close>

theorem executor_drains_queue:
  assumes "job_queue Z" and "db_ok db" and "run_executor_loop S Z w envs (h, db, r) = (flags, h', db', r')"
  shows "flags = replicate (min (length envs) (pending_depth Z r)) True @
      replicate (length envs - pending_depth Z r) False \<and>
    pending_depth Z r' = pending_depth Z r - length envs \<and> db_ok db'"
  using assms(2,3)
proof (induction envs arbitrary: h db r flags)
  case (Cons env envs)
  obtain b h1 db1 r1 where p: "process_one S Z w env (h, db, r) = (b, h1, db1, r1)"
    by (metis prod.exhaust)
  obtain fs where l: "run_executor_loop S Z w envs (h1, db1, r1) = (fs, h', db', r')" and "flags = b # fs"
    using Cons.prems(2) p by (auto simp: Let_def split: prod.splits)
  note one = process_one_pending [OF assms(1) Cons.prems(1) p]
  note job_queue.depth_zero [OF assms(1), of r]
  with Cons.IH [OF one(2) l] one \<open>flags = b # fs\<close> show ?case
    by (cases "pending_depth Z r") (auto simp: replicate_append_same)
qed simp

theorem executor_drains_queue_witness:
  "\<exists>h' db' r'. run_executor_loop default_settings list_zset ''w1'' [sample_env, sample_env]
     (None, empty_db, empty_redis\<lparr>jobs_pending := [(1, 5)]\<rparr>) = ([True, False], h', db', r') \<and>
   pending_depth list_zset r' = 0"
proof -
  let ?r = "empty_redis\<lparr>jobs_pending := [(1, 5)]\<rparr>"
  obtain flags h' db' r' where run: "run_executor_loop default_settings list_zset ''w1'' [sample_env, sample_env] (None, empty_db, ?r) =
      (flags, h', db', r')" by (metis prod.exhaust)
  have "pending_depth list_zset ?r = 1" by (simp add: pending_depth_def list_zset_def)
  with executor_drains_queue [OF list_queue db_ok_empty run] run show ?thesis
    by (simp add: numeral_2_eq_2)
qed

text \<open>
  The stored error message: at most 1000 characters, never empty for an exception whose type
  has a name, and the beginning of the stripped exception text where there is one.
\<close>

lemma safe_error_message_spec:
  "length (safe_error_message e) \<le> 1000 \<and>
   (exn_type e \<noteq> [] \<longrightarrow> safe_error_message e \<noteq> []) \<and>
   (strip (exn_text e) \<noteq> [] \<longrightarrow> safe_error_message e = take 1000 (strip (exn_text e))) \<and>
   (strip (exn_text e) = [] \<longrightarrow> safe_error_message e = take 1000 (exn_type e))"
  by (simp add: safe_error_message_def Let_def)

text \<open>
  What the API accepts gets done: under the default settings, on a machine without delays, a
  queued and due job with an accepted payload (a batch of fewer than 600 items, a webhook whose
  draw succeeds) is completed by one round of the executor.
\<close>

lemma accepted_job_completes:
  assumes "job_queue Z" and "db_ok db" and "fst (dequeue Z r) = Some i"
    and "get_row i (jobs db) = Some j" and "claim_guard i (clk_db env) j"
    and "validate_payload_by_type email_str http_url (job_type j) d = Some (payload j)"
    and "\<And>s. email_str s \<noteq> Some []" and "\<And>s. http_url s \<noteq> Some []"
    and "\<And>items. payload j = [(''items'', JArr items)] \<Longrightarrow> length items < 600"
    and "\<And>seed. rnd53 (2 / 10) \<le> run_rng env seed" and "\<And>k. run_delay env k = 0"
  shows "\<exists>h' db' r' j'. process_one default_settings Z w env (h, db, r) = (True, h', db', r') \<and>
    get_row i (jobs db') = Some j' \<and> status j' = Completed \<and> progress_pct j' = 100 \<and>
    attempt_count j' = attempt_count j + 1 \<and> payload j' = payload j"
proof -
  define j1 where "j1 = claim_set w (clk_claim env + seconds 60) (clk_db env) j"
  have j1: "job_type j1 = job_type j" "payload j1 = payload j" by (simp_all add: j1_def row_simps)
  obtain hd where hd: "get_handler (job_type_value (job_type j1)) = Inr hd" by simp
  have shape: "payload_shape (job_type j1) (payload j1)"
    unfolding j1 by (rule validate_payload_shape [OF assms(6)])
  have "\<exists>d. snd (run_handler default_settings (run_hex12 env) (run_rng env) hd j1) = Inr d"
  proof -
    have "case job_type j1 of Email \<Rightarrow> \<exists>s. payload j1 = [(''to'', JStr s)] \<and> s \<noteq> []
        | Webhook \<Rightarrow> \<exists>s. payload j1 = [(''url'', JStr s)] \<and> s \<noteq> []
        | Report \<Rightarrow> True | Batch \<Rightarrow> \<exists>xs. payload j1 = [(''items'', JArr xs)]"
      unfolding j1 by (rule validated_fields_nonempty [OF assms(6-8)])
    with hd assms(10) [of "webhook_seed j1"] show ?thesis
      by (cases "job_type j1")
        (auto simp: email_run_def webhook_run_def report_run_def batch_run_def dict_get_def Let_def)
  qed
  then obtain res where res: "snd (run_handler default_settings (run_hex12 env) (run_rng env) hd j1) = Inr res" ..
  have fits: "total_sleep (fst (run_handler default_settings x rng hd j1)) \<le> 30 \<and>
      (\<forall>d. Sleep d \<in> set (fst (run_handler default_settings x rng hd j1)) \<longrightarrow> 0 \<le> d)" for x rng
    by (rule default_run_fits [OF shape _ hd]) (use assms(9) in \<open>simp add: j1\<close>)
  have "snd (execute default_settings env j1) = Returned res"
    by (rule execute_in_time [OF hd res _ _ assms(11)]) (use fits in auto)
  moreover obtain pcts out where ex: "execute default_settings env j1 = (pcts, out)" by (metis prod.exhaust)
  ultimately have out: "out = Returned res" by simp
  obtain r1 where dq: "dequeue Z r = (Some i, r1)" using assms(3) by (metis prod.collapse)
  have j1': "j1 = claim_set w (clk_claim env + seconds (worker_lease_seconds default_settings)) (clk_db env) j"
    by (simp add: j1_def)
  show ?thesis
    by (rule process_one_claimed [OF assms(2) dq assms(4,5) j1' ex refl, of h])
      (simp add: out final_row_def row_simps j1_def)
qed

end
