(* ===== verification/Feeder.thy ===== *)
theory Feeder
  imports Job_Table Queue_Client
begin

text \<open>
  \<^verbatim>\<open>app/worker/feeder.py\<close>: the maintenance process reads the pending jobs that are due and adds
  those that Redis does not list (\<^verbatim>\<open>ZADD NX\<close>).  This is how retries, reaped jobs and a lost
  Redis come back into the queue.
\<close>

definition FEEDER_BATCH_SIZE :: nat where
  "FEEDER_BATCH_SIZE = 100"

definition ready :: "datetime \<Rightarrow> job \<Rightarrow> bool" where
  "ready db_now j \<longleftrightarrow> status j = Pending \<and> (next_run_at j = None \<or> col_le (next_run_at j) db_now)"

definition select_ready :: "nat \<Rightarrow> datetime \<Rightarrow> database \<Rightarrow> job list" where
  "select_ready limit db_now db =
     select_rows (ready db_now) (\<lambda>j. (- priority j, created_at j)) limit (jobs db)"

definition feed_one :: "('z, uuid) zset_ops \<Rightarrow> job \<Rightarrow> nat \<times> ('z, 'h) redis \<Rightarrow> nat \<times> ('z, 'h) redis" where
  "feed_one Z job = (\<lambda>(promoted, r).
     let (added, r) = enqueue Z (job_id job) (priority_score (priority job) (created_at job)) True r
     in (if added then promoted + 1 else promoted, r))"

definition promote_ready_jobs ::
    "('z, uuid) zset_ops \<Rightarrow> nat \<Rightarrow> datetime \<Rightarrow> database \<Rightarrow> ('z, 'h) redis \<Rightarrow> nat \<times> ('z, 'h) redis" where
  "promote_ready_jobs Z limit db_now db r = fold (feed_one Z) (select_ready limit db_now db) (0, r)"

text \<open>The loop: one pair of clock and database per iteration until shutdown.\<close>

fun run_feeder_loop ::
    "('z, uuid) zset_ops \<Rightarrow> (datetime \<times> database) list \<Rightarrow> ('z, 'h) redis \<Rightarrow> ('z, 'h) redis" where
  "run_feeder_loop Z [] r = r"
| "run_feeder_loop Z ((db_now, db) # rest) r =
     run_feeder_loop Z rest (snd (promote_ready_jobs Z FEEDER_BATCH_SIZE db_now db r))"

section \<open>Lemmas\<close>

definition job_score :: "job \<Rightarrow> rat" where
  "job_score j = rnd53 (of_int (priority_score (priority j) (created_at j)))"

lemma feed_one_scores:
  assumes "job_queue Z" "feed_one Z j (n, r) = (n', r')"
  shows "pending_score Z r' =
      (if pending_score Z r (job_id j) = None then (pending_score Z r)(job_id j \<mapsto> job_score j) else pending_score Z r)"
    "n' = (if pending_score Z r (job_id j) = None then n + 1 else n)"
    "jobs_scheduled r' = jobs_scheduled r \<and> jobs_dead_letter r' = jobs_dead_letter r"
proof -
  obtain added q where e: "enqueue Z (job_id j) (priority_score (priority j) (created_at j)) True r = (added, q)"
    by fastforce
  with assms(2) have r': "r' = q" "n' = (if added then n + 1 else n)" by (auto simp: feed_one_def)
  show "pending_score Z r' =
      (if pending_score Z r (job_id j) = None then (pending_score Z r)(job_id j \<mapsto> job_score j) else pending_score Z r)"
    using job_queue.enqueue_scores [OF assms(1), of "job_id j" "priority_score (priority j) (created_at j)" True r] e r'
    by (simp add: job_score_def)
  show "n' = (if pending_score Z r (job_id j) = None then n + 1 else n)"
    using job_queue.enqueue_added [OF assms(1), of "job_id j" "priority_score (priority j) (created_at j)" True r] e r'
    by simp
  show "jobs_scheduled r' = jobs_scheduled r \<and> jobs_dead_letter r' = jobs_dead_letter r"
    using redis_frame(1,2) [of Z "job_id j" "priority_score (priority j) (created_at j)" True r] e r' by simp
qed

lemma fold_feed_one:
  assumes "job_queue Z" "distinct (map job_id js)" "fold (feed_one Z) js (n, r) = (n', r')"
  shows "pending_score Z r' m =
      (case pending_score Z r m of Some x \<Rightarrow> Some x | None \<Rightarrow> map_option job_score (get_row m js)) \<and>
    n' = n + length (filter (\<lambda>j. pending_score Z r (job_id j) = None) js) \<and>
    jobs_scheduled r' = jobs_scheduled r \<and> jobs_dead_letter r' = jobs_dead_letter r"
  using assms(2,3)
proof (induction js arbitrary: n r)
  case Nil
  then show ?case by (simp add: get_row_def split: option.split)
next
  case (Cons j js)
  obtain n1 r1 where one: "feed_one Z j (n, r) = (n1, r1)" by fastforce
  with Cons.prems have rest: "fold (feed_one Z) js (n1, r1) = (n', r')" by simp
  note one = feed_one_scores [OF assms(1) one]
  have "filter (\<lambda>k. pending_score Z r1 (job_id k) = None) js = filter (\<lambda>k. pending_score Z r (job_id k) = None) js"
  proof (rule filter_cong [OF refl])
    fix k
    assume "k \<in> set js"
    then have "job_id k \<noteq> job_id j" using Cons.prems(1) by (auto simp: image_iff)
    then show "(pending_score Z r1 (job_id k) = None) = (pending_score Z r (job_id k) = None)"
      by (simp add: one(1))
  qed
  moreover have "get_row (job_id j) js = None"
    using Cons.prems(1) by (simp add: get_row_None)
  ultimately show ?case
    using Cons.IH [OF _ rest] Cons.prems(1) one
    by (auto simp: get_row_def split: option.splits if_splits)
qed

lemma select_ready_distinct: "db_ok db \<Longrightarrow> distinct (map job_id (select_ready limit t db))"
  unfolding select_ready_def by (intro distinct_select_rows db_ok_distinct)

lemma get_row_select_ready:
  assumes "db_ok db"
  shows "get_row m (select_ready limit t db) = Some j \<longleftrightarrow>
    j \<in> set (select_ready limit t db) \<and> job_id j = m"
  using get_row_Some [of m "select_ready limit t db"] get_row_unique [OF select_ready_distinct [OF assms], of j limit t]
  by auto


text \<open>After a cycle whose limit covers the due jobs, all of them are queued; others are left alone.\<close>

lemma feeder_covers:
  assumes "job_queue Z" "db_ok db" "length (filter (ready t) (jobs db)) \<le> limit"
    and "get_row i (jobs db) = Some j" "ready t j"
  shows "pending_score Z (snd (promote_ready_jobs Z limit t db r)) i \<noteq> None"
proof -
  obtain n r' where p: "promote_ready_jobs Z limit t db r = (n, r')" by fastforce
  have "j \<in> set (select_ready limit t db)"
    using select_rows_all [OF assms(3), of "\<lambda>j. (- priority j, created_at j)"] assms(4,5) get_row_Some
    unfolding select_ready_def by blast
  then have "get_row i (select_ready limit t db) = Some j"
    using get_row_select_ready [OF assms(2)] get_row_Some [OF assms(4)] by blast
  with fold_feed_one [OF assms(1) select_ready_distinct [OF assms(2)] p [unfolded promote_ready_jobs_def], of i]
  show ?thesis by (auto simp: p split: option.splits)
qed

lemma feeder_skips:
  assumes "job_queue Z" "db_ok db" "get_row i (jobs db) = Some j" "\<not> ready t j"
  shows "pending_score Z (snd (promote_ready_jobs Z limit t db r)) i = pending_score Z r i"
proof -
  obtain n r' where p: "promote_ready_jobs Z limit t db r = (n, r')" by fastforce
  have "k = j" if "k \<in> set (jobs db)" "job_id k = i" for k
    using get_row_unique [OF db_ok_distinct [OF assms(2)] that(1)] that(2) assms(3) by simp
  with assms(4) have "get_row i (select_ready limit t db) = None"
    using set_select_rows unfolding get_row_None select_ready_def by blast
  with fold_feed_one [OF assms(1) select_ready_distinct [OF assms(2)] p [unfolded promote_ready_jobs_def], of i]
  show ?thesis by (auto simp: p split: option.splits)
qed

section \<open>Properties\<close>



text \<open>
  A lost Redis is rebuilt: starting from an empty pending set, one cycle whose limit covers
  the due jobs makes the pending set exactly the due pending jobs of the database, each under the
  score a submission would have given it.
\<close>

theorem feeder_rebuilds_queue:
  assumes "job_queue Z" and "db_ok db" and "pending_score Z r = Map.empty"
    and "length (filter (ready db_now) (jobs db)) \<le> limit"
  shows "pending_score Z (snd (promote_ready_jobs Z limit db_now db r)) m = Some x \<longleftrightarrow>
    (\<exists>j. get_row m (jobs db) = Some j \<and> status j = Pending \<and> (\<forall>t. next_run_at j = Some t \<longrightarrow> t \<le> db_now) \<and>
      x = rnd53 (of_int (priority_score (priority j) (created_at j))))"
proof -
  obtain n r' where p: "promote_ready_jobs Z limit db_now db r = (n, r')" by fastforce
  note f = fold_feed_one [OF assms(1) select_ready_distinct [OF assms(2)] p [unfolded promote_ready_jobs_def]]
  have sel: "set (select_ready limit db_now db) = {j \<in> set (jobs db). ready db_now j}"
    unfolding select_ready_def by (rule select_rows_all [OF assms(4)])
  have rdy: "ready db_now j \<longleftrightarrow> status j = Pending \<and> (\<forall>t. next_run_at j = Some t \<longrightarrow> t \<le> db_now)" for j
    by (cases "next_run_at j") (auto simp: ready_def)
  have "get_row m (select_ready limit db_now db) = Some j \<longleftrightarrow> get_row m (jobs db) = Some j \<and> ready db_now j" for j
    unfolding get_row_select_ready [OF assms(2)] sel
    using get_row_Some [of m "jobs db" j] get_row_unique [OF db_ok_distinct [OF assms(2)], of j] by auto
  with f assms(3) show ?thesis
    by (auto simp: p job_score_def rdy)
qed

theorem feeder_rebuilds_queue_witness:
  "pending_score list_zset (snd (promote_ready_jobs list_zset 100 50
     (empty_db\<lparr>jobs := [sample_job 1 Pending 0, sample_job 2 Failed 0]\<rparr>) empty_redis)) 1 \<noteq> None"
proof -
  let ?db = "empty_db\<lparr>jobs := [sample_job 1 Pending 0, sample_job 2 Failed 0]\<rparr>"
  have ok: "db_ok ?db" by (simp add: db_ok_def table_ok_def keys_unique_def)
  have "get_row 1 (jobs ?db) = Some (sample_job 1 Pending 0)" by (simp add: get_row_def)
  then show ?thesis
    using feeder_rebuilds_queue [OF list_queue ok, of empty_redis 50 100 1] by (auto simp: empty_redis_def)
qed

end
