(* ===== verification/Scheduler.thy ===== *)
theory Scheduler
  imports Config Sweep Feeder
begin

text \<open>
  \<^verbatim>\<open>app/worker/scheduler.py\<close>: scheduled jobs whose time has come become pending and enter the
  queue.  The candidates come from Redis and from the database; each is promoted by one guarded
  \<open>UPDATE\<close>, and a candidate the database refuses is dropped from the scheduled set.
\<close>

definition SCHEDULER_BATCH_SIZE :: nat where
  "SCHEDULER_BATCH_SIZE = 100"

definition MIN_SLEEP :: rat where
  "MIN_SLEEP = rnd53 (5 / 100)"

definition due :: "datetime \<Rightarrow> job \<Rightarrow> bool" where
  "due t j \<longleftrightarrow> status j = Scheduled \<and> col_le (scheduled_at j) t"

definition due_time :: "job \<Rightarrow> datetime" where
  "due_time j = (case scheduled_at j of None \<Rightarrow> 0 | Some t \<Rightarrow> t)"

definition due_in_db :: "nat \<Rightarrow> datetime \<Rightarrow> database \<Rightarrow> uuid list" where
  "due_in_db limit moment db = map job_id (select_rows (due moment) due_time limit (jobs db))"

text \<open>\<^verbatim>\<open>list(dict.fromkeys(xs))\<close>: first occurrences, in order.\<close>

definition dict_fromkeys :: "'a list \<Rightarrow> 'a list" where
  "dict_fromkeys xs = rev (remdups (rev xs))"

definition promote_guard :: "uuid \<Rightarrow> datetime \<Rightarrow> job \<Rightarrow> bool" where
  "promote_guard i db_now j \<longleftrightarrow> job_id j = i \<and> due db_now j"

definition promote_set :: "job \<Rightarrow> job" where
  "promote_set j = j\<lparr>status := Pending, next_run_at := None\<rparr>"

definition promote_one ::
    "('z, uuid) zset_ops \<Rightarrow> datetime \<Rightarrow> uuid \<Rightarrow> nat \<times> database \<times> ('z, 'h) redis \<Rightarrow>
     nat \<times> database \<times> ('z, 'h) redis" where
  "promote_one Z db_now i = (\<lambda>(promoted, db, r).
     let (returned, rows) = update_returning (promote_guard i db_now) promote_set (jobs db) in
     case scalar_one_or_none returned of
       None \<Rightarrow> (promoted, db, remove_scheduled Z i r)
     | Some job \<Rightarrow>
         (promoted + 1, db\<lparr>jobs := rows\<rparr>,
          snd (enqueue Z (job_id job) (priority_score (priority job) (created_at job)) False
                (remove_scheduled Z i r))))"

text \<open>\<open>moment\<close> is the worker's clock; \<open>clk i\<close> the database's at the update of candidate \<open>i\<close>.\<close>

definition candidates ::
    "('z, uuid) zset_ops \<Rightarrow> nat \<Rightarrow> datetime \<Rightarrow> database \<Rightarrow> ('z, 'h) redis \<Rightarrow> uuid list" where
  "candidates Z limit moment db r =
     dict_fromkeys (due_scheduled Z (timestamp moment) limit r @ due_in_db limit moment db)"

definition promote_due_scheduled ::
    "('z, uuid) zset_ops \<Rightarrow> nat \<Rightarrow> datetime \<Rightarrow> (uuid \<Rightarrow> datetime) \<Rightarrow> database \<Rightarrow> ('z, 'h) redis \<Rightarrow>
     nat \<times> database \<times> ('z, 'h) redis" where
  "promote_due_scheduled Z limit moment clk db r =
     fold (\<lambda>i. promote_one Z (clk i) i) (candidates Z limit moment db r) (0, db, r)"

text \<open>How long the loop waits after a cycle; \<open>now\<close> is \<^verbatim>\<open>time.time()\<close>.\<close>

definition scheduler_sleep :: "settings \<Rightarrow> rat option \<Rightarrow> rat \<Rightarrow> rat" where
  "scheduler_sleep S next_score now =
     (let max_sleep = scheduler_poll_interval_seconds S;
          target_sleep = (case next_score of None \<Rightarrow> max_sleep | Some x \<Rightarrow> min max_sleep (rnd53 (x - now)))
      in max MIN_SLEEP target_sleep)"

text \<open>The loop over its readings until shutdown: the waits, and the state.\<close>

fun run_scheduler_loop ::
    "settings \<Rightarrow> ('z, uuid) zset_ops \<Rightarrow> (datetime \<times> (uuid \<Rightarrow> datetime) \<times> rat) list \<Rightarrow>
     database \<times> ('z, 'h) redis \<Rightarrow> rat list \<times> database \<times> ('z, 'h) redis" where
  "run_scheduler_loop S Z [] st = ([], st)"
| "run_scheduler_loop S Z ((moment, clk, now) # rest) (db, r) =
     (let (_, db, r) = promote_due_scheduled Z SCHEDULER_BATCH_SIZE moment clk db r;
          wait = scheduler_sleep S (next_scheduled_score Z r) now;
          (waits, st) = run_scheduler_loop S Z rest (db, r)
      in (wait # waits, st))"

section \<open>Lemmas\<close>

lemma promote_set_simps [row_simps]:
  "job_id (promote_set j) = job_id j" "status (promote_set j) = Pending" "next_run_at (promote_set j) = None"
  "priority (promote_set j) = priority j" "created_at (promote_set j) = created_at j"
  "attempt_count (promote_set j) = attempt_count j" "max_attempts (promote_set j) = max_attempts j"
  "idempotency_key (promote_set j) = idempotency_key j" "scheduled_at (promote_set j) = scheduled_at j"
  "worker_id (promote_set j) = worker_id j" "leased_until (promote_set j) = leased_until j"
  "row_ok (promote_set j) = row_ok j"
  by (simp_all add: promote_set_def row_ok_def)

interpretation promoting: sweep promote_guard promote_set
  by unfold_locales (auto simp: row_simps promote_guard_def due_def)

lemma dict_fromkeys [simp]: "set (dict_fromkeys xs) = set xs" "distinct (dict_fromkeys xs)"
  by (simp_all add: dict_fromkeys_def)

lemma distinct_candidates: "distinct (candidates Z limit moment db r)"
  by (simp add: candidates_def)

text \<open>One candidate: what happens to the three parts of the state.\<close>

lemma promote_one_spec:
  assumes "job_queue Z" "distinct (map job_id (jobs db))" "promote_one Z t i (n, db, r) = (n', db', r')"
  shows "db' = db\<lparr>jobs := update_where (promote_guard i t) promote_set (jobs db)\<rparr>"
    "scheduled_score Z r' = (scheduled_score Z r)(i := None)"
    "pending_score Z r' = (case get_row i (jobs db) of
       Some j \<Rightarrow> if due t j then (pending_score Z r)(i \<mapsto> job_score j) else pending_score Z r
     | None \<Rightarrow> pending_score Z r)"
    "n' = (if \<exists>j. get_row i (jobs db) = Some j \<and> due t j then n + 1 else n)"
proof -
  let ?upd = "update_returning (promote_guard i t) promote_set (jobs db)"
  have hit: "scalar_one_or_none (fst ?upd) = (case get_row i (jobs db) of None \<Rightarrow> None
      | Some j \<Rightarrow> if promote_guard i t j then Some (promote_set j) else None)"
    by (rule promoting.sweep_hit [OF assms(2)])
  have guard: "promote_guard i t j \<longleftrightarrow> due t j" if "get_row i (jobs db) = Some j" for j
    using get_row_Some [OF that] by (simp add: promote_guard_def)
  have id: "job_id j = i" if "get_row i (jobs db) = Some j" for j using get_row_Some [OF that] by simp
  have "db' = db\<lparr>jobs := update_where (promote_guard i t) promote_set (jobs db)\<rparr> \<and>
    scheduled_score Z r' = (scheduled_score Z r)(i := None) \<and>
    pending_score Z r' = (case get_row i (jobs db) of
       Some j \<Rightarrow> if due t j then (pending_score Z r)(i \<mapsto> job_score j) else pending_score Z r
     | None \<Rightarrow> pending_score Z r) \<and>
    n' = (if \<exists>j. get_row i (jobs db) = Some j \<and> due t j then n + 1 else n)"
  proof (cases "scalar_one_or_none (fst ?upd)")
    case None
    with assms(3) have "n' = n" "db' = db" "r' = remove_scheduled Z i r"
      by (simp_all add: promote_one_def Let_def case_prod_unfold)
    moreover have "update_where (promote_guard i t) promote_set (jobs db) = jobs db"
      by (rule promoting.sweep_miss [OF assms(2) None])
    moreover have "\<not> due t j" if "get_row i (jobs db) = Some j" for j
      using None hit guard [OF that] that by (auto split: if_splits)
    ultimately show ?thesis
      by (auto simp: job_queue.queue_simps [OF assms(1)] split: option.split)
  next
    case (Some j')
    with hit obtain j where j: "get_row i (jobs db) = Some j" "promote_guard i t j" "j' = promote_set j"
      by (auto split: option.splits if_splits)
    with Some assms(3) have "n' = n + 1"
      "db' = db\<lparr>jobs := update_where (promote_guard i t) promote_set (jobs db)\<rparr>"
      "r' = snd (enqueue Z i (priority_score (priority j) (created_at j)) False (remove_scheduled Z i r))"
      using id [OF j(1)] by (simp_all add: promote_one_def Let_def case_prod_unfold row_simps)
    then show ?thesis
      using j guard [OF j(1)] by (simp add: job_queue.queue_simps [OF assms(1)] job_score_def)
  qed
  then show "db' = db\<lparr>jobs := update_where (promote_guard i t) promote_set (jobs db)\<rparr>"
    "scheduled_score Z r' = (scheduled_score Z r)(i := None)"
    "pending_score Z r' = (case get_row i (jobs db) of
       Some j \<Rightarrow> if due t j then (pending_score Z r)(i \<mapsto> job_score j) else pending_score Z r
     | None \<Rightarrow> pending_score Z r)"
    "n' = (if \<exists>j. get_row i (jobs db) = Some j \<and> due t j then n + 1 else n)"
    by blast+
qed

lemma fold_promote_one:
  assumes "job_queue Z" "db_ok db" "distinct ids" "fold (\<lambda>i. promote_one Z (clk i) i) ids (n, db, r) = (n', db', r')"
  shows "db' = db\<lparr>jobs := sweep_rows promote_guard promote_set clk ids (jobs db)\<rparr> \<and>
    scheduled_score Z r' m = (if m \<in> set ids then None else scheduled_score Z r m) \<and>
    pending_score Z r' m = (case get_row m (jobs db) of
       Some j \<Rightarrow> if m \<in> set ids \<and> due (clk m) j then Some (job_score j) else pending_score Z r m
     | None \<Rightarrow> pending_score Z r m) \<and>
    n' = n + length (filter (\<lambda>i. \<exists>j. get_row i (jobs db) = Some j \<and> due (clk i) j) ids)"
  using assms(2-4)
proof (induction ids arbitrary: n db r)
  case Nil
  then show ?case by (simp add: sweep_rows_def split: option.split)
next
  case (Cons i ids)
  obtain n1 db1 r1 where one: "promote_one Z (clk i) i (n, db, r) = (n1, db1, r1)" by (metis prod.exhaust)
  with Cons.prems(3) have rest: "fold (\<lambda>i. promote_one Z (clk i) i) ids (n1, db1, r1) = (n', db', r')" by simp
  note one = promote_one_spec [OF assms(1) db_ok_distinct [OF Cons.prems(1)] one]
  have ok: "db_ok db1"
    using Cons.prems(1) guarded_update.table_kept [OF promoting.one_statement] by (simp add: one(1) db_ok_def)
  have other: "get_row k (jobs db1) = get_row k (jobs db)" if "k \<noteq> i" for k
    using that get_row_Some [of k "jobs db"] guarded_update.row_after [OF promoting.one_statement, of k i "clk i" "jobs db"]
    by (cases "get_row k (jobs db)") (auto simp: one(1) promote_guard_def)
  have filt: "filter (\<lambda>i. \<exists>j. get_row i (jobs db1) = Some j \<and> due (clk i) j) ids =
      filter (\<lambda>i. \<exists>j. get_row i (jobs db) = Some j \<and> due (clk i) j) ids"
    using Cons.prems(2) other by (intro filter_cong refl) force
  have ih: "db' = db1\<lparr>jobs := sweep_rows promote_guard promote_set clk ids (jobs db1)\<rparr>"
    "scheduled_score Z r' m = (if m \<in> set ids then None else scheduled_score Z r1 m)"
    "pending_score Z r' m = (case get_row m (jobs db1) of
       Some j \<Rightarrow> if m \<in> set ids \<and> due (clk m) j then Some (job_score j) else pending_score Z r1 m
     | None \<Rightarrow> pending_score Z r1 m)"
    "n' = n1 + length (filter (\<lambda>i. \<exists>j. get_row i (jobs db1) = Some j \<and> due (clk i) j) ids)"
    using Cons.IH [OF ok _ rest] Cons.prems(2) by auto
  have "db' = db\<lparr>jobs := sweep_rows promote_guard promote_set clk (i # ids) (jobs db)\<rparr>"
    unfolding ih(1) one(1) by (simp add: sweep_rows_def)
  moreover have "scheduled_score Z r' m = (if m \<in> set (i # ids) then None else scheduled_score Z r m)"
    unfolding ih(2) one(2) by simp
  moreover have "pending_score Z r' m = (case get_row m (jobs db) of
       Some j \<Rightarrow> if m \<in> set (i # ids) \<and> due (clk m) j then Some (job_score j) else pending_score Z r m
     | None \<Rightarrow> pending_score Z r m)"
  proof (cases "m = i")
    case True
    with Cons.prems(2) have "pending_score Z r' m = pending_score Z r1 m"
      unfolding ih(3) by (auto split: option.split)
    with True show ?thesis unfolding one(3) by (auto split: option.split)
  next
    case False
    then have "pending_score Z r1 m = pending_score Z r m" unfolding one(3) by (auto split: option.split)
    with False show ?thesis unfolding ih(3) other [OF False] by (auto split: option.split)
  qed
  moreover have "n' = n + length (filter (\<lambda>i. \<exists>j. get_row i (jobs db) = Some j \<and> due (clk i) j) (i # ids))"
    unfolding ih(4) filt one(4) by simp
  ultimately show ?case by blast
qed

lemma all_due_candidates:
  assumes "length (filter (due moment) (jobs db)) \<le> limit" "get_row k (jobs db) = Some j" "due moment j"
  shows "k \<in> set (candidates Z limit moment db r)"
  using select_rows_all [OF assms(1), of due_time] get_row_Some [OF assms(2)] assms(3)
  unfolding candidates_def due_in_db_def by auto

lemma due_mono: "due s j \<Longrightarrow> s \<le> t \<Longrightarrow> due t j"
  by (cases "scheduled_at j") (auto simp: due_def)

text \<open>When the clock stands still and the limit covers the work, the cycle is one bulk \<open>UPDATE\<close>.\<close>

lemma count_due:
  assumes "db_ok db" "distinct ids" "\<And>j. j \<in> set (jobs db) \<Longrightarrow> due t j \<Longrightarrow> job_id j \<in> set ids"
  shows "length (filter (\<lambda>i. \<exists>j. get_row i (jobs db) = Some j \<and> due t j) ids) = length (filter (due t) (jobs db))"
proof -
  let ?hit = "\<lambda>i. \<exists>j. get_row i (jobs db) = Some j \<and> due t j"
  have d: "distinct (map job_id (filter (due t) (jobs db)))"
    using db_ok_distinct [OF assms(1)] by (simp add: distinct_map inj_on_def)
  have "set (filter ?hit ids) = set (map job_id (filter (due t) (jobs db)))"
  proof (intro set_eqI iffI)
    fix i assume "i \<in> set (filter ?hit ids)"
    then obtain j where "get_row i (jobs db) = Some j" "due t j" by auto
    with get_row_Some [of i "jobs db" j] show "i \<in> set (map job_id (filter (due t) (jobs db)))" by force
  next
    fix i assume "i \<in> set (map job_id (filter (due t) (jobs db)))"
    then obtain j where "j \<in> set (jobs db)" "due t j" "job_id j = i" by auto
    with assms(3) get_row_unique [OF db_ok_distinct [OF assms(1)], of j] show "i \<in> set (filter ?hit ids)" by auto
  qed
  with distinct_card [OF d] distinct_card [OF distinct_filter [OF assms(2), of ?hit]] show ?thesis by simp
qed

lemma promote_bulk:
  assumes "job_queue Z" "db_ok db" "length (filter (due t) (jobs db)) \<le> limit"
    and "promote_due_scheduled Z limit t (\<lambda>_. t) db r = (n, db', r')"
  shows "n = length (filter (due t) (jobs db)) \<and> db' = db\<lparr>jobs := update_where (due t) promote_set (jobs db)\<rparr>"
proof -
  let ?ids = "candidates Z limit t db r"
  have all: "job_id j \<in> set ?ids" if "j \<in> set (jobs db)" "due t j" for j
    using all_due_candidates [OF assms(3) get_row_unique [OF db_ok_distinct [OF assms(2)] that(1)] that(2)] .
  have "job_id j \<in> set ?ids \<and> promote_guard (job_id j) t j \<longleftrightarrow> due t j" if "j \<in> set (jobs db)" for j
    using all [OF that] by (auto simp: promote_guard_def)
  then have "sweep_rows promote_guard promote_set (\<lambda>_. t) ?ids (jobs db) = update_where (due t) promote_set (jobs db)"
    by (simp add: promoting.sweep_bulk [OF distinct_candidates] update_where_def)
  moreover note fold_promote_one [OF assms(1,2) distinct_candidates [of Z limit t db r] assms(4) [unfolded promote_due_scheduled_def]]
    count_due [OF assms(2) distinct_candidates [of Z limit t db r] all]
  ultimately show ?thesis by simp
qed

text \<open>The candidates: those of Redis, and those of the table.\<close>

lemma candidates_due:
  assumes "job_queue Z" "db_ok db" "k \<in> set (candidates Z limit moment db r)"
  shows "(\<exists>x. scheduled_score Z r k = Some x \<and> x \<le> timestamp moment) \<or>
    (\<exists>j. get_row k (jobs db) = Some j \<and> due moment j)"
proof -
  consider "k \<in> set (due_scheduled Z (timestamp moment) limit r)"
    | j where "j \<in> set (select_rows (due moment) due_time limit (jobs db))" "job_id j = k"
    using assms(3) by (auto simp: candidates_def due_in_db_def)
  then show ?thesis
  proof cases
    case 1
    then show ?thesis using job_queue.due_scheduled_sound [OF assms(1)] by blast
  next
    case 2
    then have "j \<in> set (jobs db)" "due moment j" using set_select_rows by blast+
    with 2 get_row_unique [OF db_ok_distinct [OF assms(2)]] show ?thesis by blast
  qed
qed

lemma candidates_all:
  assumes "job_queue Z" "scheduled_score Z r k = Some x" "x \<le> timestamp moment"
    and "card {m. \<exists>y. scheduled_score Z r m = Some y \<and> y \<le> timestamp moment} \<le> limit"
  shows "k \<in> set (candidates Z limit moment db r)"
  using job_queue.due_scheduled_all [OF assms] by (simp add: candidates_def)

lemma due_iff: "due t j \<longleftrightarrow> status j = Scheduled \<and> (\<exists>s. scheduled_at j = Some s \<and> s \<le> t)"
  by (cases "scheduled_at j") (auto simp: due_def)

lemma scheduler_rows:
  assumes "job_queue Z" and "db_ok db" and "promote_due_scheduled Z limit moment clk db r = (n, db', r')"
  shows "db_ok db' \<and>
    scheduled_score Z r' k = (if k \<in> set (candidates Z limit moment db r) then None else scheduled_score Z r k) \<and>
    (case get_row k (jobs db) of
       None \<Rightarrow> get_row k (jobs db') = None \<and> pending_score Z r' k = pending_score Z r k
     | Some j \<Rightarrow>
        ((get_row k (jobs db') = Some j \<and> pending_score Z r' k = pending_score Z r k) \<or>
         (status j = Scheduled \<and> (\<exists>t. scheduled_at j = Some t \<and> t \<le> clk k) \<and>
          get_row k (jobs db') = Some (j\<lparr>status := Pending, next_run_at := None\<rparr>) \<and>
          pending_score Z r' k = Some (rnd53 (of_int (priority_score (priority j) (created_at j)))) \<and>
          scheduled_score Z r' k = None)) \<and>
        (status j = Scheduled \<and> (\<exists>t. scheduled_at j = Some t \<and> t \<le> moment) \<and> moment \<le> clk k \<and>
          length (filter (due moment) (jobs db)) \<le> limit \<longrightarrow>
          get_row k (jobs db') = Some (j\<lparr>status := Pending, next_run_at := None\<rparr>)))"
proof -
  let ?ids = "candidates Z limit moment db r"
  note f = fold_promote_one [OF assms(1,2) distinct_candidates [of Z limit moment db r] assms(3) [unfolded promote_due_scheduled_def]]
  have db': "db' = db\<lparr>jobs := sweep_rows promote_guard promote_set clk ?ids (jobs db)\<rparr>" using f by blast
  have ok: "db_ok db'" using assms(2) by (simp add: db' db_ok_def promoting.sweep_table_ok)
  have sched: "scheduled_score Z r' k = (if k \<in> set ?ids then None else scheduled_score Z r k)" using f by blast
  have due: "due t j \<longleftrightarrow> status j = Scheduled \<and> (\<exists>s. scheduled_at j = Some s \<and> s \<le> t)" for t j
    by (cases "scheduled_at j") (auto simp: due_def)
  show ?thesis
  proof (cases "get_row k (jobs db)")
    case None
    then have "get_row k (jobs db') = None"
      by (simp add: db' promoting.sweep_get_row [OF distinct_candidates])
    moreover have "pending_score Z r' k = pending_score Z r k" using f None by simp
    ultimately show ?thesis using ok sched None by simp
  next
    case (Some j)
    have guard: "promote_guard k (clk k) j \<longleftrightarrow> due (clk k) j"
      using get_row_Some [OF Some] by (simp add: promote_guard_def)
    have row: "get_row k (jobs db') = Some (if k \<in> set ?ids \<and> due (clk k) j then promote_set j else j)"
      by (simp add: db' promoting.sweep_get_row [OF distinct_candidates] Some guard)
    have pend: "pending_score Z r' k = (if k \<in> set ?ids \<and> due (clk k) j then Some (job_score j) else pending_score Z r k)"
      using f Some by simp
    have complete: "get_row k (jobs db') = Some (promote_set j)"
      if "due moment j" "moment \<le> clk k" "length (filter (due moment) (jobs db)) \<le> limit"
      using all_due_candidates [OF that(3) Some that(1), of Z r] due_mono [OF that(1,2)] by (simp add: row)
    show ?thesis
    proof (cases "k \<in> set ?ids \<and> due (clk k) j")
      case True
      then show ?thesis using ok row pend sched Some due [of "clk k" j]
        unfolding promote_set_def [symmetric] job_score_def by simp
    next
      case False
      then show ?thesis using ok row pend sched complete Some due [of moment j]
        unfolding promote_set_def [symmetric] by auto
    qed
  qed
qed

section \<open>Properties\<close>

text \<open>
  C11. One cycle of the scheduler.  A job becomes pending only if it is scheduled and its time has
  come by the database's clock; then it is in the queue under its score.  No other row changes
  and no other entry enters the queue.  From the scheduled set leave only entries whose time has come in
  Redis or in the table, and all those of Redis when the limit covers them, promoted or stale.  When
  the limit covers the due jobs of the table and the database's clock is not behind the worker's
  reading, every due job is promoted, whatever Redis knows of it.
\<close>

theorem scheduler_cycle:
  assumes "job_queue Z" and "db_ok db" and "promote_due_scheduled Z limit moment clk db r = (n, db', r')"
  shows "db_ok db' \<and>
    (scheduled_score Z r' k = scheduled_score Z r k \<or> scheduled_score Z r' k = None \<and>
      ((\<exists>x. scheduled_score Z r k = Some x \<and> x \<le> timestamp moment) \<or>
       (\<exists>j t. get_row k (jobs db) = Some j \<and> status j = Scheduled \<and> scheduled_at j = Some t \<and> t \<le> moment))) \<and>
    (\<forall>x. scheduled_score Z r k = Some x \<and> x \<le> timestamp moment \<and>
      card {m. \<exists>y. scheduled_score Z r m = Some y \<and> y \<le> timestamp moment} \<le> limit \<longrightarrow> scheduled_score Z r' k = None) \<and>
    (case get_row k (jobs db) of
       None \<Rightarrow> get_row k (jobs db') = None \<and> pending_score Z r' k = pending_score Z r k
     | Some j \<Rightarrow>
        ((get_row k (jobs db') = Some j \<and> pending_score Z r' k = pending_score Z r k) \<or>
         (status j = Scheduled \<and> (\<exists>t. scheduled_at j = Some t \<and> t \<le> clk k) \<and>
          get_row k (jobs db') = Some (j\<lparr>status := Pending, next_run_at := None\<rparr>) \<and>
          pending_score Z r' k = Some (rnd53 (of_int (priority_score (priority j) (created_at j)))) \<and>
          scheduled_score Z r' k = None)) \<and>
        (status j = Scheduled \<and> (\<exists>t. scheduled_at j = Some t \<and> t \<le> moment) \<and> moment \<le> clk k \<and>
          length (filter (\<lambda>j. status j = Scheduled \<and> (\<exists>t. scheduled_at j = Some t \<and> t \<le> moment)) (jobs db)) \<le> limit \<longrightarrow>
          get_row k (jobs db') = Some (j\<lparr>status := Pending, next_run_at := None\<rparr>)))"
proof -
  note rows = scheduler_rows [OF assms, of k]
  have ids: "scheduled_score Z r' k = (if k \<in> set (candidates Z limit moment db r) then None else scheduled_score Z r k)"
    using rows by (elim conjE)
  have left: "scheduled_score Z r' k = scheduled_score Z r k \<or> scheduled_score Z r' k = None \<and>
      ((\<exists>x. scheduled_score Z r k = Some x \<and> x \<le> timestamp moment) \<or>
       (\<exists>j t. get_row k (jobs db) = Some j \<and> status j = Scheduled \<and> scheduled_at j = Some t \<and> t \<le> moment))"
  proof (cases "k \<in> set (candidates Z limit moment db r)")
    case True
    with ids candidates_due [OF assms(1,2) True] show ?thesis unfolding due_iff by auto
  qed (simp add: ids)
  have cleared: "\<forall>x. scheduled_score Z r k = Some x \<and> x \<le> timestamp moment \<and>
      card {m. \<exists>y. scheduled_score Z r m = Some y \<and> y \<le> timestamp moment} \<le> limit \<longrightarrow> scheduled_score Z r' k = None"
    using ids candidates_all [OF assms(1), of r k _ moment limit db] by simp
  have due: "filter (\<lambda>j. status j = Scheduled \<and> (\<exists>t. scheduled_at j = Some t \<and> t \<le> moment)) (jobs db) =
      filter (due moment) (jobs db)" by (intro filter_cong) (simp_all add: due_iff)
  show ?thesis
    unfolding due using conjunct1 [OF rows] left cleared conjunct2 [OF conjunct2 [OF rows], unfolded promote_set_def]
    by (intro conjI)
qed

theorem scheduler_cycle_witness:
  "\<exists>n db' (r' :: list_redis). promote_due_scheduled list_zset 100 50 (\<lambda>_. 60)
     (empty_db\<lparr>jobs := [sample_job 1 Scheduled 0\<lparr>scheduled_at := Some 40\<rparr>]\<rparr>) empty_redis = (n, db', r') \<and>
   map_option status (get_row 1 (jobs db')) = Some Pending"
proof -
  let ?j = "sample_job 1 Scheduled 0\<lparr>scheduled_at := Some 40\<rparr>"
  let ?db = "empty_db\<lparr>jobs := [?j]\<rparr>"
  obtain n db' r' where p: "promote_due_scheduled list_zset 100 50 (\<lambda>_. 60) ?db empty_redis = (n, db', r')"
    by (metis prod.exhaust)
  have "db_ok ?db" "get_row 1 (jobs ?db) = Some ?j"
    by (simp_all add: db_ok_def table_ok_def keys_unique_def row_ok_def get_row_def)
  with scheduler_cycle [OF list_queue this(1) p, of 1] p show ?thesis by simp
qed

text \<open>
  The wait between two cycles lies between the minimum and the poll interval, and when the
  next scheduled job is known it is not longer than the time until that job is due (as a double),
  or than the minimum.
\<close>

lemma scheduler_sleep_bounds:
  assumes "MIN_SLEEP \<le> scheduler_poll_interval_seconds S"
  shows "MIN_SLEEP \<le> scheduler_sleep S next_score now \<and>
    scheduler_sleep S next_score now \<le> scheduler_poll_interval_seconds S \<and>
    (next_score = Some x \<longrightarrow> scheduler_sleep S next_score now \<le> max MIN_SLEEP (rnd53 (x - now))) \<and>
    (next_score = None \<longrightarrow> scheduler_sleep S next_score now = scheduler_poll_interval_seconds S)"
  using assms by (auto simp: scheduler_sleep_def Let_def split: option.split)

end
