(* ===== verification/Idempotency.thy ===== *)
theory Idempotency
  imports Job_Table
begin

text \<open>
  \<^verbatim>\<open>app/services/idempotency.py\<close>: validation of an idempotency key, the lookup of the job that
  holds it, and the periodic cleanup that frees the keys of jobs older than 24 hours.
\<close>

text \<open>The exceptions of the service layer, with their messages.\<close>

datatype service_error =
    InvalidIdempotencyKeyError string
  | JobNotFoundError string
  | JobConflictError string
  | UnhandledIntegrityError
  | UnhandledDBAPIError

text \<open>An error of the database that no code catches.\<close>

fun unhandled :: "db_error \<Rightarrow> service_error" where
  "unhandled IntegrityError = UnhandledIntegrityError"
| "unhandled DBAPIError = UnhandledDBAPIError"

definition IDEMPOTENCY_KEY_MAX_LEN :: nat where
  "IDEMPOTENCY_KEY_MAX_LEN = 255"

definition IDEMPOTENCY_TTL :: int where
  "IDEMPOTENCY_TTL = seconds (24 * 3600)"

definition normalize_idempotency_key :: "string option \<Rightarrow> (service_error, string option) result" where
  "normalize_idempotency_key key =
     (case key of
        None \<Rightarrow> Inr None
      | Some k \<Rightarrow>
          let cleaned = strip k in
          if cleaned = [] then
            Inl (InvalidIdempotencyKeyError ''idempotency key must not be empty'')
          else if IDEMPOTENCY_KEY_MAX_LEN < length cleaned then
            Inl (InvalidIdempotencyKeyError
              (''idempotency key must be at most '' @ py_str_int (int IDEMPOTENCY_KEY_MAX_LEN) @
               '' characters''))
          else Inr (Some cleaned))"

definition find_job_by_idempotency_key :: "job list \<Rightarrow> string \<Rightarrow> job option" where
  "find_job_by_idempotency_key rows key = find (\<lambda>j. idempotency_key j = Some key) rows"

definition cleanup_guard :: "datetime \<Rightarrow> job \<Rightarrow> bool" where
  "cleanup_guard cutoff j \<longleftrightarrow> idempotency_key j \<noteq> None \<and> created_at j < cutoff"

definition cleanup_set :: "job \<Rightarrow> job" where
  "cleanup_set j = j\<lparr>idempotency_key := None\<rparr>"

text \<open>Returns the number of rows the statement updated.\<close>

definition cleanup_expired_idempotency_keys :: "datetime \<Rightarrow> database \<Rightarrow> nat \<times> database" where
  "cleanup_expired_idempotency_keys now db =
     (let cutoff = now - IDEMPOTENCY_TTL;
          (updated, rows) = update_returning (cleanup_guard cutoff) cleanup_set (jobs db)
      in (length updated, db\<lparr>jobs := rows\<rparr>))"

text \<open>
  \<^verbatim>\<open>app/worker/idempotency_cleanup.py\<close>: the loop in the maintenance process, one reading of the
  clock per round; \<open>None\<close> is a round whose cleanup raised, which the loop logs and survives.
\<close>

definition run_cleanup_once :: "datetime \<Rightarrow> database \<Rightarrow> nat \<times> database" where
  "run_cleanup_once now db = cleanup_expired_idempotency_keys now db"

fun run_idempotency_cleanup_loop :: "datetime option list \<Rightarrow> database \<Rightarrow> database" where
  "run_idempotency_cleanup_loop [] db = db"
| "run_idempotency_cleanup_loop (None # rounds) db = run_idempotency_cleanup_loop rounds db"
| "run_idempotency_cleanup_loop (Some now # rounds) db =
     run_idempotency_cleanup_loop rounds (snd (run_cleanup_once now db))"

section \<open>Lemmas\<close>

interpretation cleanup: guarded_update "cleanup_guard cutoff" cleanup_set
  by unfold_locales (auto simp: cleanup_set_def cleanup_guard_def row_ok_def)

lemma cleanup_jobs [table_simps]:
  "jobs (snd (cleanup_expired_idempotency_keys now db)) =
    update_where (cleanup_guard (now - IDEMPOTENCY_TTL)) cleanup_set (jobs db)"
  by (simp add: cleanup_expired_idempotency_keys_def update_returning_def Let_def)

lemma cleanup_db_ok: "db_ok db \<Longrightarrow> db_ok (snd (cleanup_expired_idempotency_keys now db))"
  by (simp add: db_ok_def cleanup_jobs cleanup.table_kept)

lemma normalize_Some:
  assumes "normalize_idempotency_key key = Inr (Some k)"
  shows "k \<noteq> []" "length k \<le> IDEMPOTENCY_KEY_MAX_LEN" "strip k = k" "\<exists>raw. key = Some raw \<and> k = strip raw"
  using assms by (auto simp: normalize_idempotency_key_def Let_def split: option.splits if_splits)

lemma find_key_Some:
  "find_job_by_idempotency_key rows k = Some j \<Longrightarrow> j \<in> set rows \<and> idempotency_key j = Some k"
  unfolding find_job_by_idempotency_key_def by (rule find_Some_set)

lemma find_key_None:
  "find_job_by_idempotency_key rows k = None \<longleftrightarrow> Some k \<notin> idempotency_key ` set rows"
  by (auto simp: find_job_by_idempotency_key_def find_None_iff image_iff)

lemma find_key_append:
  "find_job_by_idempotency_key rows k = None \<Longrightarrow> idempotency_key j = Some k \<Longrightarrow>
    find_job_by_idempotency_key (rows @ [j]) k = Some j"
  by (induction rows) (auto simp: find_job_by_idempotency_key_def split: if_splits)

lemma keys_unique_the_row:
  assumes "keys_unique rows" "j \<in> set rows" "idempotency_key j = Some k"
  shows "find_job_by_idempotency_key rows k = Some j"
  using assms
proof (induction rows)
  case Nil
  then show ?case by simp
next
  case (Cons r rows)
  show ?case
  proof (cases "idempotency_key r = Some k")
    case True
    then have "Some k \<notin> idempotency_key ` set rows"
      using Cons.prems(1) by (auto simp: keys_unique_def image_iff)
    with Cons.prems have "j = r" by (auto simp: image_iff)
    with True show ?thesis by (simp add: find_job_by_idempotency_key_def)
  next
    case False
    with Cons have "find_job_by_idempotency_key rows k = Some j"
      by (auto simp: keys_unique_def split: if_splits)
    with False show ?thesis by (simp add: find_job_by_idempotency_key_def)
  qed
qed

section \<open>Properties\<close>

text \<open>
  A key is accepted exactly when its stripped text has between 1 and 255 characters; the
  stored key is that text, so storing and sending it again changes nothing; every other key is
  refused with an error, and an absent header is no key.
\<close>

theorem normalize_key_spec:
  "normalize_idempotency_key None = Inr None \<and>
   ((\<exists>k. normalize_idempotency_key (Some s) = Inr k) \<longleftrightarrow> 1 \<le> length (strip s) \<and> length (strip s) \<le> 255) \<and>
   (normalize_idempotency_key (Some s) = Inr k \<longrightarrow>
      k = Some (strip s) \<and> normalize_idempotency_key k = Inr k)"
  by (auto simp: normalize_idempotency_key_def IDEMPOTENCY_KEY_MAX_LEN_def Let_def Suc_le_eq)

theorem normalize_key_spec_witness:
  "normalize_idempotency_key (Some (strip '' key-1 '')) = Inr (Some (strip '' key-1 ''))"
proof -
  have "normalize_idempotency_key (Some '' key-1 '') = Inr (Some (strip '' key-1 ''))" by code_simp
  then show ?thesis using normalize_key_spec [of "'' key-1 ''" "Some (strip '' key-1 '')"] by simp
qed

text \<open>
  The cleanup frees exactly the keys of jobs created more than 24 hours before \<open>now\<close>,
  returns how many it freed, changes nothing else of any row, and afterwards a lookup finds a
  job for a key exactly when a younger job holds it.
\<close>

theorem cleanup_frees_expired_keys:
  assumes "db_ok db" and "cleanup_expired_idempotency_keys now db = (n, db')"
  shows "db_ok db' \<and> job_logs db' = job_logs db \<and>
    n = length (filter (\<lambda>j. idempotency_key j \<noteq> None \<and> created_at j < now - IDEMPOTENCY_TTL) (jobs db)) \<and>
    jobs db' = map (\<lambda>j. if created_at j < now - IDEMPOTENCY_TTL then j\<lparr>idempotency_key := None\<rparr> else j) (jobs db) \<and>
    (find_job_by_idempotency_key (jobs db') k = Some j \<longleftrightarrow>
      j \<in> set (jobs db) \<and> idempotency_key j = Some k \<and> now - IDEMPOTENCY_TTL \<le> created_at j)"
proof -
  let ?c = "now - IDEMPOTENCY_TTL"
  have db': "db' = snd (cleanup_expired_idempotency_keys now db)" using assms(2) by simp
  have ok: "db_ok db'" unfolding db' by (rule cleanup_db_ok [OF assms(1)])
  have rows: "jobs db' = map (\<lambda>j. if created_at j < ?c then j\<lparr>idempotency_key := None\<rparr> else j) (jobs db)"
    unfolding db' cleanup_jobs update_where_def
    by (intro map_cong refl) (auto simp: cleanup_guard_def cleanup_set_def)
  have "find_job_by_idempotency_key (jobs db') k = Some j \<longleftrightarrow>
      j \<in> set (jobs db') \<and> idempotency_key j = Some k"
    using ok find_key_Some keys_unique_the_row by (metis db_ok_def table_ok_def)
  also have "\<dots> \<longleftrightarrow> j \<in> set (jobs db) \<and> idempotency_key j = Some k \<and> ?c \<le> created_at j"
    unfolding rows by (auto simp: image_iff split: if_splits)
  finally have found: "find_job_by_idempotency_key (jobs db') k = Some j \<longleftrightarrow>
      j \<in> set (jobs db) \<and> idempotency_key j = Some k \<and> ?c \<le> created_at j" .
  have "n = length (filter (\<lambda>j. idempotency_key j \<noteq> None \<and> created_at j < ?c) (jobs db))"
    and "job_logs db' = job_logs db"
    using assms(2) unfolding cleanup_expired_idempotency_keys_def update_returning_def Let_def
      cleanup_guard_def by auto
  with ok rows found show ?thesis by blast
qed

theorem cleanup_frees_expired_keys_witness:
  "fst (cleanup_expired_idempotency_keys (seconds 90000)
     (empty_db\<lparr>jobs := [sample_job 1 Completed 0\<lparr>idempotency_key := Some ''k''\<rparr>, sample_job 2 Pending 0]\<rparr>)) = 1"
proof -
  let ?db = "empty_db\<lparr>jobs := [sample_job 1 Completed 0\<lparr>idempotency_key := Some ''k''\<rparr>, sample_job 2 Pending 0]\<rparr>"
  let ?r = "cleanup_expired_idempotency_keys (seconds 90000) ?db"
  have "db_ok ?db" by (simp add: db_ok_def table_ok_def keys_unique_def row_ok_def)
  then have "fst ?r = length (filter (\<lambda>j. idempotency_key j \<noteq> None \<and>
      created_at j < seconds 90000 - IDEMPOTENCY_TTL) (jobs ?db))"
    using cleanup_frees_expired_keys [of ?db "seconds 90000" "fst ?r" "snd ?r"] by simp
  then show ?thesis by (simp add: IDEMPOTENCY_TTL_def)
qed

end
