(* ===== verification/Job_Service.thy ===== *)
theory Job_Service
  imports Config Schemas Idempotency Queue_Client "HOL-Library.Multiset"
begin

text \<open>
  \<^verbatim>\<open>app/services/job_service.py\<close>: submit, get, list, cancel and retry.

  Each service function is written once, over the database and the Redis structures, as the
  sequence of its transactions.  Where a function reads in one statement and writes in a
  later one (\<^verbatim>\<open>submit_job\<close>, \<^verbatim>\<open>cancel_job\<close>, \<^verbatim>\<open>manual_retry\<close>), the part after the read is a
  definition of its own, so that \<open>System\<close> can interleave other processes in between.

  Calls to PostgreSQL and Redis are taken to succeed; the errors modelled are those of the
  program and the constraint violations of the schema.
\<close>

type_synonym ('a, 'z, 'h) outcome = "(service_error, 'a) result \<times> database \<times> ('z, 'h) redis"

section \<open>submit_job\<close>

text \<open>The object passed to \<^verbatim>\<open>session.add\<close>, with the column defaults of the schema.\<close>

definition new_job :: "settings \<Rightarrow> uuid \<Rightarrow> datetime \<Rightarrow> JobCreate \<Rightarrow> string option \<Rightarrow> job" where
  "new_job S new_id now data key =
     (let is_scheduled = jc_scheduled_at data \<noteq> None in
      \<lparr>job_id = new_id, job_type = jc_job_type data, payload = jc_payload data,
       status = if is_scheduled then Scheduled else Pending,
       priority = jc_priority data, attempt_count = 0, max_attempts = default_max_attempts S,
       error_message = None, error_details = None, progress_pct = 0,
       scheduled_at = jc_scheduled_at data,
       next_run_at = if is_scheduled then jc_scheduled_at data else None,
       idempotency_key = key, worker_id = None, leased_until = None, result = None,
       created_at = now, started_at = None, completed_at = None\<rparr>)"

definition created_log :: "job \<Rightarrow> job_log list" where
  "created_log j = append_job_log [] (job_id j) ''job created'' Info
     (Some (JObj [(''status'', JStr (status_value (status j))),
                  (''job_type'', JStr (job_type_value (job_type j)))]))"

text \<open>The commit inserts the staged log rows; their foreign key is the constraint it can violate.\<close>

definition commit_logs :: "job_log list \<Rightarrow> database \<Rightarrow> (db_error, database) result" where
  "commit_logs logs db =
     (if list_all (\<lambda>l. log_job_id l \<in> job_id ` set (jobs db)) logs
      then Inr (db\<lparr>job_logs := job_logs db @ logs\<rparr>) else Inl IntegrityError)"

definition submit_lookup :: "string option \<Rightarrow> database \<Rightarrow> job option" where
  "submit_lookup key db =
     (case key of None \<Rightarrow> None | Some k \<Rightarrow> find_job_by_idempotency_key (jobs db) k)"

text \<open>After the commit: Redis is told where the job waits.\<close>

definition submit_dispatch ::
    "('z, uuid) zset_ops \<Rightarrow> job \<Rightarrow> ('z, 'h) redis \<Rightarrow> ('z, 'h) redis" where
  "submit_dispatch Z j r =
     (case scheduled_at j of
        Some t \<Rightarrow> snd (schedule Z (job_id j) t r)
      | None \<Rightarrow> snd (enqueue Z (job_id j) (priority_score (priority j) (created_at j)) False r))"

text \<open>
  From \<^verbatim>\<open>session.add(job)\<close> on.  \<^verbatim>\<open>flush\<close> sends the \<open>INSERT\<close>, outside the \<^verbatim>\<open>try\<close>; only an
  \<^verbatim>\<open>IntegrityError\<close> of the commit reaches the handler that looks the key up again.
\<close>

definition submit_new ::
    "settings \<Rightarrow> ('z, uuid) zset_ops \<Rightarrow> uuid \<Rightarrow> datetime \<Rightarrow> JobCreate \<Rightarrow> string option \<Rightarrow>
     database \<Rightarrow> ('z, 'h) redis \<Rightarrow> (job \<times> bool, 'z, 'h) outcome" where
  "submit_new S Z new_id now data key db r =
     (let job = new_job S new_id now data key in
      case insert_row job (jobs db) of
        Inl e \<Rightarrow> (Inl (unhandled e), db, r)
      | Inr rows \<Rightarrow>
          (case commit_logs (created_log job) (db\<lparr>jobs := rows\<rparr>) of
             Inr db' \<Rightarrow> (Inr (job, True), db', submit_dispatch Z job r)
           | Inl DBAPIError \<Rightarrow> (Inl UnhandledDBAPIError, db, r)
           | Inl IntegrityError \<Rightarrow>
               (case submit_lookup key db of
                  None \<Rightarrow> (Inl UnhandledIntegrityError, db, r)
                | Some existing \<Rightarrow> (Inr (existing, False), db, r))))"

definition submit_job ::
    "settings \<Rightarrow> ('z, uuid) zset_ops \<Rightarrow> uuid \<Rightarrow> datetime \<Rightarrow> JobCreate \<Rightarrow> string option \<Rightarrow>
     database \<Rightarrow> ('z, 'h) redis \<Rightarrow> (job \<times> bool, 'z, 'h) outcome" where
  "submit_job S Z new_id now data idem db r =
     (case normalize_idempotency_key idem of
        Inl e \<Rightarrow> (Inl e, db, r)
      | Inr key \<Rightarrow>
          (case submit_lookup key db of
             Some existing \<Rightarrow> (Inr (existing, False), db, r)
           | None \<Rightarrow> submit_new S Z new_id now data key db r))"

section \<open>get_job, list_jobs\<close>

definition get_job :: "database \<Rightarrow> uuid \<Rightarrow> job option" where
  "get_job db i = get_row i (jobs db)"

definition list_filter :: "JobStatus option \<Rightarrow> JobType option \<Rightarrow> job \<Rightarrow> bool" where
  "list_filter st ty j \<longleftrightarrow>
     (case st of None \<Rightarrow> True | Some s \<Rightarrow> status j = s) \<and>
     (case ty of None \<Rightarrow> True | Some t \<Rightarrow> job_type j = t)"

text \<open>
  \<^verbatim>\<open>ORDER BY created_at DESC\<close> leaves the order of equal times to PostgreSQL, query by query: \<open>scan\<close> is
  the order in which the rows reach the sort of this query, any rearrangement (\<open>arranges\<close>).
\<close>

definition arranges :: "('a list \<Rightarrow> 'a list) \<Rightarrow> bool" where
  "arranges scan \<longleftrightarrow> (\<forall>xs. mset (scan xs) = mset xs)"

definition list_jobs ::
    "(job list \<Rightarrow> job list) \<Rightarrow> database \<Rightarrow> JobStatus option \<Rightarrow> JobType option \<Rightarrow> nat \<Rightarrow> nat \<Rightarrow> job list \<times> nat" where
  "list_jobs scan db st ty limit offset =
     (let matching = filter (list_filter st ty) (jobs db) in
      (take limit (drop offset (sort_key (\<lambda>j. - created_at j) (scan matching))), length matching))"

section \<open>cancel_job\<close>

text \<open>\<^verbatim>\<open>session.refresh(job)\<close>: no operation deletes rows, so the row is there.\<close>

definition refresh :: "database \<Rightarrow> job \<Rightarrow> job" where
  "refresh db j = (case get_row (job_id j) (jobs db) of Some row \<Rightarrow> row | None \<Rightarrow> j)"

definition not_found :: "uuid \<Rightarrow> service_error" where
  "not_found i = JobNotFoundError (''job '' @ uuid_str i @ '' not found'')"

definition cancel_check :: "uuid \<Rightarrow> job option \<Rightarrow> (service_error, job) result" where
  "cancel_check i loaded =
     (case loaded of
        None \<Rightarrow> Inl (not_found i)
      | Some job \<Rightarrow>
          if status job \<noteq> Pending \<and> status job \<noteq> Scheduled then
            Inl (JobConflictError (''only pending or scheduled jobs can be cancelled (status='' @
                   status_value (status job) @ '')''))
          else Inr job)"

definition cancel_values :: "job \<Rightarrow> job" where
  "cancel_values j =
     j\<lparr>status := Cancelled, next_run_at := None, leased_until := None, worker_id := None\<rparr>"

definition cancel_commit :: "job \<Rightarrow> database \<Rightarrow> database" where
  "cancel_commit loaded db =
     orm_commit loaded (cancel_values loaded)
       (append_job_log [] (job_id loaded) ''job cancelled'' Warning
          (Some (JObj [(''status'', JStr (status_value Cancelled))]))) db"

definition cancel_job ::
    "('z, uuid) zset_ops \<Rightarrow> uuid \<Rightarrow> database \<Rightarrow> ('z, 'h) redis \<Rightarrow> (job, 'z, 'h) outcome" where
  "cancel_job Z i db r =
     (case cancel_check i (get_job db i) of
        Inl e \<Rightarrow> (Inl e, db, r)
      | Inr job \<Rightarrow>
          let db' = cancel_commit job db in
          (Inr (refresh db' job), db', remove_job Z i r))"

section \<open>manual_retry\<close>

definition retry_check :: "uuid \<Rightarrow> job option \<Rightarrow> (service_error, job) result" where
  "retry_check i loaded =
     (case loaded of
        None \<Rightarrow> Inl (not_found i)
      | Some job \<Rightarrow>
          if status job \<noteq> Failed then
            Inl (JobConflictError (''only failed jobs can be retried (status='' @
                   status_value (status job) @ '')''))
          else Inr job)"

definition retry_values :: "datetime \<Rightarrow> job \<Rightarrow> job" where
  "retry_values now j =
     j\<lparr>max_attempts := max_attempts j + 1, status := Pending, next_run_at := Some now,
       completed_at := None, started_at := None, leased_until := None, worker_id := None,
       error_message := None\<rparr>"

definition retry_commit :: "datetime \<Rightarrow> job \<Rightarrow> database \<Rightarrow> database" where
  "retry_commit now loaded db =
     orm_commit loaded (retry_values now loaded)
       (append_job_log [] (job_id loaded) ''manual retry requested'' Info
          (Some (JObj [(''status'', JStr (status_value Pending)),
                       (''max_attempts'', JInt (max_attempts loaded + 1))]))) db"

definition manual_retry ::
    "datetime \<Rightarrow> uuid \<Rightarrow> database \<Rightarrow> ('z, 'h) redis \<Rightarrow> (job, 'z, 'h) outcome" where
  "manual_retry now i db r =
     (case retry_check i (get_job db i) of
        Inl e \<Rightarrow> (Inl e, db, r)
      | Inr job \<Rightarrow>
          let db' = retry_commit now job db in
          (Inr (refresh db' job), db', remove_dead_letter (job_id job) r))"

section \<open>Lemmas\<close>

lemma new_job_simps [row_simps]:
  "job_id (new_job S i now data key) = i"
  "status (new_job S i now data key) = (if jc_scheduled_at data \<noteq> None then Scheduled else Pending)"
  "job_type (new_job S i now data key) = jc_job_type data"
  "payload (new_job S i now data key) = jc_payload data"
  "priority (new_job S i now data key) = jc_priority data"
  "attempt_count (new_job S i now data key) = 0"
  "max_attempts (new_job S i now data key) = default_max_attempts S"
  "scheduled_at (new_job S i now data key) = jc_scheduled_at data"
  "next_run_at (new_job S i now data key) = jc_scheduled_at data"
  "idempotency_key (new_job S i now data key) = key"
  "created_at (new_job S i now data key) = now"
  "worker_id (new_job S i now data key) = None"
  "leased_until (new_job S i now data key) = None"
  "row_ok (new_job S i now data key) \<longleftrightarrow> 0 < default_max_attempts S"
  by (auto simp: new_job_def row_ok_def Let_def)

lemma cancel_values_simps [row_simps]:
  "job_id (cancel_values j) = job_id j" "status (cancel_values j) = Cancelled"
  "idempotency_key (cancel_values j) = idempotency_key j" "row_ok (cancel_values j) = row_ok j"
  "attempt_count (cancel_values j) = attempt_count j" "max_attempts (cancel_values j) = max_attempts j"
  "worker_id (cancel_values j) = None" "leased_until (cancel_values j) = None"
  "next_run_at (cancel_values j) = None" "progress_pct (cancel_values j) = progress_pct j"
  by (simp_all add: cancel_values_def row_ok_def)

lemma retry_values_simps [row_simps]:
  "job_id (retry_values now j) = job_id j" "status (retry_values now j) = Pending"
  "idempotency_key (retry_values now j) = idempotency_key j"
  "attempt_count (retry_values now j) = attempt_count j"
  "max_attempts (retry_values now j) = max_attempts j + 1"
  "worker_id (retry_values now j) = None" "leased_until (retry_values now j) = None"
  "next_run_at (retry_values now j) = Some now" "progress_pct (retry_values now j) = progress_pct j"
  "row_ok j \<Longrightarrow> row_ok (retry_values now j)"
  by (simp_all add: retry_values_def row_ok_def)

lemma created_log_ids: "l \<in> set (created_log j) \<Longrightarrow> log_job_id l = job_id j"
  by (simp add: created_log_def append_job_log_def)

text \<open>The commit never violates the foreign key, so the handler of the \<^verbatim>\<open>try\<close> is dead code.\<close>

lemma commit_logs_after_insert:
  "insert_row j (jobs db) = Inr rows \<Longrightarrow>
    commit_logs (created_log j) (db\<lparr>jobs := rows\<rparr>) =
      Inr (db\<lparr>jobs := rows, job_logs := job_logs db @ created_log j\<rparr>)"
  by (auto simp: commit_logs_def insert_row_def list_all_iff dest!: created_log_ids split: if_splits)

lemma submit_new_eq:
  "submit_new S Z i now data key db r =
    (let job = new_job S i now data key in
     case insert_row job (jobs db) of
       Inl e \<Rightarrow> (Inl (unhandled e), db, r)
     | Inr rows \<Rightarrow> (Inr (job, True), db\<lparr>jobs := rows, job_logs := job_logs db @ created_log job\<rparr>,
                   submit_dispatch Z job r))"
  unfolding submit_new_def Let_def
  by (cases "insert_row (new_job S i now data key) (jobs db)")
    (auto simp: commit_logs_after_insert split: db_error.splits)

text \<open>When the insert succeeds: a fresh id and no holder of the key.\<close>

definition can_insert :: "settings \<Rightarrow> uuid \<Rightarrow> JobCreate \<Rightarrow> string option \<Rightarrow> database \<Rightarrow> bool" where
  "can_insert S i data key db \<longleftrightarrow>
     storable (JObj (jc_payload data)) \<and> 0 < default_max_attempts S \<and> get_row i (jobs db) = None \<and> submit_lookup key db = None"

lemma insert_new_job:
  "insert_row (new_job S i now data key) (jobs db) =
    (if can_insert S i data key db then Inr (jobs db @ [new_job S i now data key]) else Inl (if storable (JObj (jc_payload data)) then IntegrityError else DBAPIError))"
  by (auto simp: insert_row_def can_insert_def row_simps get_row_None submit_lookup_def find_key_None
      image_iff split: option.splits)

interpretation cancelling: object_update "\<lambda>j. status j = Pending \<or> status j = Scheduled" cancel_values
  by unfold_locales (auto simp: row_simps)

interpretation retrying: object_update "\<lambda>j. status j = Failed" "retry_values now"
  by unfold_locales (auto simp: row_simps)

lemma cancel_check_Inr: "cancel_check i l = Inr j \<longleftrightarrow> l = Some j \<and> (status j = Pending \<or> status j = Scheduled)"
  by (auto simp: cancel_check_def split: option.splits if_splits)

lemma retry_check_Inr: "retry_check i l = Inr j \<longleftrightarrow> l = Some j \<and> status j = Failed"
  by (auto simp: retry_check_def split: option.splits if_splits)

lemma submit_new_db_ok:
  assumes "db_ok db" "submit_new S Z i now data key db r = (res, db', r')"
  shows "db_ok db'"
  using assms by (auto simp: submit_new_eq insert_new_job Let_def db_ok_def
      intro: table_ok_insert [of "jobs db" "new_job S i now data key"] split: if_splits)

lemma list_jobs_sorted: "sorted (map (\<lambda>j. - created_at j) (sort_key (\<lambda>j. - created_at j) xs))"
  by simp

section \<open>Properties\<close>

text \<open>
  A submission without a valid duplicate: the job is stored exactly once, with status
  \<open>Scheduled\<close> or \<open>Pending\<close> by its schedule, no attempts and the default attempt limit, together
  with its "job created" log row; and Redis lists it in the scheduled set under its time or
  in the pending set under its priority score, and is otherwise unchanged.
\<close>

theorem submit_stores_and_dispatches:
  assumes "job_queue Z" and "normalize_idempotency_key idem = Inr key" and "can_insert S i data key db"
  shows "\<exists>j. fst (submit_job S Z i now data idem db r) = Inr (j, True) \<and>
    fst (snd (submit_job S Z i now data idem db r)) =
      db\<lparr>jobs := jobs db @ [j], job_logs := job_logs db @ created_log j\<rparr> \<and>
    job_id j = i \<and> idempotency_key j = key \<and> attempt_count j = 0 \<and>
    max_attempts j = default_max_attempts S \<and> created_at j = now \<and> payload j = jc_payload data \<and>
    (case jc_scheduled_at data of
       Some t \<Rightarrow> status j = Scheduled \<and> scheduled_at j = Some t \<and>
         scheduled_score Z (snd (snd (submit_job S Z i now data idem db r))) =
           (scheduled_score Z r)(i \<mapsto> timestamp t) \<and>
         pending_score Z (snd (snd (submit_job S Z i now data idem db r))) = pending_score Z r
     | None \<Rightarrow> status j = Pending \<and> scheduled_at j = None \<and>
         pending_score Z (snd (snd (submit_job S Z i now data idem db r))) =
           (pending_score Z r)(i \<mapsto> rnd53 (of_int (priority_score (jc_priority data) now))) \<and>
         scheduled_score Z (snd (snd (submit_job S Z i now data idem db r))) = scheduled_score Z r)"
proof -
  have "submit_lookup key db = None" using assms(3) by (simp add: can_insert_def)
  then have "submit_job S Z i now data idem db r =
      (Inr (new_job S i now data key, True),
       db\<lparr>jobs := jobs db @ [new_job S i now data key],
          job_logs := job_logs db @ created_log (new_job S i now data key)\<rparr>,
       submit_dispatch Z (new_job S i now data key) r)"
    using assms(2,3) by (simp add: submit_job_def submit_new_eq insert_new_job Let_def)
  then show ?thesis
    by (auto simp: row_simps submit_dispatch_def job_queue.queue_simps [OF assms(1)] split: option.split)
qed

theorem submit_stores_and_dispatches_witness:
  "\<exists>j. fst (submit_job default_settings list_zset 7 1000
       \<lparr>jc_job_type = Report, jc_payload = [], jc_priority = 3, jc_scheduled_at = None\<rparr>
       (Some ''k'') empty_db empty_redis) = Inr (j, True)"
proof -
  have n: "normalize_idempotency_key (Some ''k'') = Inr (Some ''k'')" by code_simp
  have "can_insert default_settings 7 \<lparr>jc_job_type = Report, jc_payload = [], jc_priority = 3, jc_scheduled_at = None\<rparr> (Some ''k'') empty_db"
    by (simp add: can_insert_def empty_db_def get_row_def submit_lookup_def find_job_by_idempotency_key_def)
  from submit_stores_and_dispatches [OF list_queue n this] show ?thesis by blast
qed

text \<open>
  C23. Idempotent submission: once a submission with a key has been answered, any later one
  whose key strips to the same text, whatever its body, is answered with that same job as a
  duplicate and changes neither the database nor Redis.
\<close>

theorem resubmission_is_idempotent:
  assumes "normalize_idempotency_key idem = Inr (Some k)"
    and "normalize_idempotency_key idem' = Inr (Some k)"
    and "submit_job S Z i now data idem db r = (Inr (j, created), db', r')"
  shows "submit_job S Z i' now' data' idem' db' r' = (Inr (j, False), db', r')"
proof -
  have "submit_lookup (Some k) db' = Some j"
  proof (cases "submit_lookup (Some k) db")
    case None
    with assms(1,3) have new: "submit_new S Z i now data (Some k) db r = (Inr (j, created), db', r')"
      by (simp add: submit_job_def)
    then have ci: "can_insert S i data (Some k) db" and j: "j = new_job S i now data (Some k)"
      and "jobs db' = jobs db @ [j]"
      by (auto simp: submit_new_eq insert_new_job Let_def split: if_splits)
    with None find_key_append [of "jobs db" k j] show ?thesis
      by (simp add: submit_lookup_def row_simps)
  next
    case (Some existing)
    with assms(1,3) show ?thesis by (simp add: submit_job_def)
  qed
  with assms(2) show ?thesis by (simp add: submit_job_def)
qed

theorem resubmission_is_idempotent_witness:
  "\<exists>j db' (r' :: list_redis). submit_job default_settings list_zset 8 2000
     \<lparr>jc_job_type = Batch, jc_payload = [], jc_priority = 0, jc_scheduled_at = None\<rparr>
     (Some '' k'') db' r' = (Inr (j, False), db', r') \<and> job_id j = 7"
proof -
  let ?d = "\<lparr>jc_job_type = Report, jc_payload = [], jc_priority = 3, jc_scheduled_at = None\<rparr>"
  have n: "normalize_idempotency_key (Some ''k'') = Inr (Some ''k'')"
    "normalize_idempotency_key (Some '' k'') = Inr (Some ''k'')" by code_simp+
  have ci: "can_insert default_settings 7 ?d (Some ''k'') empty_db"
    by (simp add: can_insert_def empty_db_def get_row_def submit_lookup_def find_job_by_idempotency_key_def)
  then have "submit_lookup (Some ''k'') empty_db = None" by (simp add: can_insert_def)
  then obtain j db' r' where s: "submit_job default_settings list_zset 7 1000 ?d (Some ''k'') empty_db empty_redis =
      (Inr (j, True), db', r')" "job_id j = 7"
    using n(1) ci by (auto simp: submit_job_def submit_new_eq insert_new_job Let_def row_simps)
  let ?d' = "\<lparr>jc_job_type = Batch, jc_payload = [], jc_priority = 0, jc_scheduled_at = None\<rparr>"
  have "submit_job default_settings list_zset 8 2000 ?d' (Some '' k'') db' r' = (Inr (j, False), db', r')"
    by (rule resubmission_is_idempotent [OF n s(1)])
  with s(2) show ?thesis by blast
qed

text \<open>
  C36. Finding: two concurrent submissions with one new key.  Both look the key up before
  either stores; the first stores its job; the second is not answered with that job, as the
  comment in the code intends: its \<open>INSERT\<close> is sent by \<^verbatim>\<open>flush\<close>, outside the \<^verbatim>\<open>try\<close>, and the
  \<^verbatim>\<open>IntegrityError\<close> escapes to the caller, although the lookup would now find the job.
\<close>

theorem concurrent_duplicate_escapes:
  assumes "submit_lookup (Some k) db = None"
    and "submit_new S Z i now data (Some k) db r = (Inr (j, True), db1, r1)" and "storable (JObj (jc_payload data'))"
  shows "submit_new S Z i' now' data' (Some k) db1 r1 = (Inl UnhandledIntegrityError, db1, r1) \<and>
    submit_lookup (Some k) db1 = Some j"
proof -
  from assms(2) have j: "j = new_job S i now data (Some k)" and db1: "jobs db1 = jobs db @ [j]"
    by (auto simp: submit_new_eq insert_new_job Let_def split: if_splits)
  then have found: "submit_lookup (Some k) db1 = Some j"
    using assms(1) find_key_append [of "jobs db" k j] by (simp add: submit_lookup_def row_simps)
  then have "\<not> can_insert S i' data' (Some k) db1" by (simp add: can_insert_def)
  with found assms(3) show ?thesis by (simp add: submit_new_eq insert_new_job Let_def)
qed

theorem concurrent_duplicate_escapes_witness:
  "\<exists>db1 (r1 :: list_redis). submit_new default_settings list_zset 8 2000
     \<lparr>jc_job_type = Report, jc_payload = [], jc_priority = 3, jc_scheduled_at = None\<rparr>
     (Some ''k'') db1 r1 = (Inl UnhandledIntegrityError, db1, r1)"
proof -
  let ?d = "\<lparr>jc_job_type = Report, jc_payload = [], jc_priority = 3, jc_scheduled_at = None\<rparr>"
  have ci: "can_insert default_settings 7 ?d (Some ''k'') empty_db"
    by (simp add: can_insert_def empty_db_def get_row_def submit_lookup_def find_job_by_idempotency_key_def)
  then have l: "submit_lookup (Some ''k'') empty_db = None" by (simp add: can_insert_def)
  from ci obtain j db1 r1 where
    "submit_new default_settings list_zset 7 1000 ?d (Some ''k'') empty_db empty_redis = (Inr (j, True), db1, r1)"
    by (auto simp: submit_new_eq insert_new_job Let_def)
  then have "submit_new default_settings list_zset 8 2000 ?d (Some ''k'') db1 r1 =
      (Inl UnhandledIntegrityError, db1, r1)"
    by (rule concurrent_duplicate_escapes [OF l, THEN conjunct1]) simp
  then show ?thesis by blast
qed

text \<open>
  C26. Cancellation: an unknown job and a job that is neither pending nor scheduled are refused, each
  with its error, and nothing changes; otherwise exactly that row becomes \<open>Cancelled\<close> with no lease, no
  owner and no next run, its other columns and the other rows keep their values, one warning is
  logged, the job leaves both Redis sets, and the row is what the caller gets back.
\<close>

theorem cancel_job_spec:
  assumes "job_queue Z" and "db_ok db"
  shows "case get_row i (jobs db) of
      None \<Rightarrow> cancel_job Z i db r = (Inl (JobNotFoundError (''job '' @ uuid_str i @ '' not found'')), db, r)
    | Some j \<Rightarrow>
        if status j = Pending \<or> status j = Scheduled then
          (\<exists>db' r'. cancel_job Z i db r =
              (Inr (j\<lparr>status := Cancelled, next_run_at := None, leased_until := None, worker_id := None\<rparr>), db', r') \<and>
            db_ok db' \<and>
            (\<forall>k. get_row k (jobs db') = (if k = i
              then Some (j\<lparr>status := Cancelled, next_run_at := None, leased_until := None, worker_id := None\<rparr>)
              else get_row k (jobs db))) \<and>
            job_logs db' = job_logs db @ [\<lparr>log_job_id = i, log_level = Warning, log_message = ''job cancelled'',
              log_metadata = Some (JObj [(''status'', JStr ''cancelled'')])\<rparr>] \<and>
            pending_score Z r' = (pending_score Z r)(i := None) \<and>
            scheduled_score Z r' = (scheduled_score Z r)(i := None) \<and>
            jobs_dead_letter r' = jobs_dead_letter r)
        else cancel_job Z i db r = (Inl (JobConflictError
          (''only pending or scheduled jobs can be cancelled (status='' @ status_value (status j) @ '')'')), db, r)"
proof (cases "get_row i (jobs db)")
  case None
  then show ?thesis by (simp add: cancel_job_def get_job_def cancel_check_def not_found_def)
next
  case (Some j)
  show ?thesis
  proof (cases "status j = Pending \<or> status j = Scheduled")
    case False
    with Some show ?thesis by (auto simp: cancel_job_def get_job_def cancel_check_def)
  next
    case True
    have id: "job_id j = i" using get_row_Some [OF Some] by simp
    have row: "get_row k (jobs (cancel_commit j db)) =
        (if k = i then Some (cancel_values j) else get_row k (jobs db))" for k
      unfolding cancel_commit_def using cancelling.commit_fresh [OF Some] cancelling.commit_other id
      by auto
    have cancel_log: "job_logs (cancel_commit j db) = job_logs db @ [\<lparr>log_job_id = i, log_level = Warning,
        log_message = ''job cancelled'', log_metadata = Some (JObj [(''status'', JStr ''cancelled'')])\<rparr>]"
      using id by (simp add: cancel_commit_def orm_commit_def append_job_log_def)
    have "db_ok (cancel_commit j db)"
      unfolding cancel_commit_def
      by (intro cancelling.commit_db_ok assms(2) db_ok_row [OF assms(2) Some])
    moreover have "cancel_check i (get_job db i) = Inr j"
      using Some True by (simp add: get_job_def cancel_check_Inr)
    ultimately show ?thesis
      using Some True row id unfolding cancel_values_def [symmetric]
      by (simp add: cancel_job_def Let_def refresh_def job_queue.queue_simps [OF assms(1)] cancel_log)
  qed
qed

theorem cancel_job_spec_witness:
  "\<exists>db' r'. cancel_job list_zset 1 (empty_db\<lparr>jobs := [sample_job 1 Pending 0]\<rparr>) empty_redis =
    (Inr (sample_job 1 Cancelled 0), db', r') \<and> map_option status (get_row 1 (jobs db')) = Some Cancelled"
proof -
  let ?db = "empty_db\<lparr>jobs := [sample_job 1 Pending 0]\<rparr>"
  have "db_ok ?db" by (simp add: db_ok_def table_ok_def keys_unique_def)
  moreover have "(sample_job 1 Pending 0)\<lparr>status := Cancelled, next_run_at := None, leased_until := None, worker_id := None\<rparr> =
      sample_job 1 Cancelled 0" by (simp add: sample_job_def)
  ultimately show ?thesis using cancel_job_spec [OF list_queue, of ?db 1 empty_redis]
    by (simp add: get_row_def [of 1 "[sample_job 1 Pending 0]"]) fastforce
qed

text \<open>
  C27. Manual retry: an unknown job and a job that has not failed are refused, each with its error,
  and nothing changes; otherwise exactly that row becomes pending and due now, with one attempt more
  allowed, no error, no owner, no lease and neither start nor completion time, its other columns and the
  other rows keep their values, the request is logged with the new limit, and the job leaves the
  dead-letter list.
\<close>

theorem manual_retry_spec:
  assumes "db_ok db"
  shows "case get_row i (jobs db) of
      None \<Rightarrow> manual_retry now i db r = (Inl (JobNotFoundError (''job '' @ uuid_str i @ '' not found'')), db, r)
    | Some j \<Rightarrow>
        if status j = Failed then
          (\<exists>db' r' new. manual_retry now i db r = (Inr new, db', r') \<and>
            new = j\<lparr>max_attempts := max_attempts j + 1, status := Pending, next_run_at := Some now, completed_at := None,
              started_at := None, leased_until := None, worker_id := None, error_message := None\<rparr> \<and> db_ok db' \<and>
            (\<forall>k. get_row k (jobs db') = (if k = i then Some new else get_row k (jobs db))) \<and>
            job_logs db' = job_logs db @ [\<lparr>log_job_id = i, log_level = Info, log_message = ''manual retry requested'',
              log_metadata = Some (JObj [(''status'', JStr ''pending''), (''max_attempts'', JInt (max_attempts j + 1))])\<rparr>] \<and>
            jobs_dead_letter r' = filter (\<lambda>k. k \<noteq> i) (jobs_dead_letter r) \<and>
            jobs_pending r' = jobs_pending r \<and> jobs_scheduled r' = jobs_scheduled r)
        else manual_retry now i db r = (Inl (JobConflictError
          (''only failed jobs can be retried (status='' @ status_value (status j) @ '')'')), db, r)"
proof (cases "get_row i (jobs db)")
  case None
  then show ?thesis by (simp add: manual_retry_def get_job_def retry_check_def not_found_def)
next
  case (Some j)
  show ?thesis
  proof (cases "status j = Failed")
    case False
    with Some show ?thesis by (auto simp: manual_retry_def get_job_def retry_check_def)
  next
    case True
    have id: "job_id j = i" using get_row_Some [OF Some] by simp
    have row: "get_row k (jobs (retry_commit now j db)) =
        (if k = i then Some (retry_values now j) else get_row k (jobs db))" for k
      unfolding retry_commit_def using retrying.commit_fresh [OF Some] retrying.commit_other id
      by auto
    have dead: "removeAll i xs = filter (\<lambda>k. k \<noteq> i) xs" for xs :: "uuid list" by (induction xs) auto
    have retry_log: "job_logs (retry_commit now j db) = job_logs db @ [\<lparr>log_job_id = i, log_level = Info,
        log_message = ''manual retry requested'',
        log_metadata = Some (JObj [(''status'', JStr ''pending''), (''max_attempts'', JInt (max_attempts j + 1))])\<rparr>]"
      using id by (simp add: retry_commit_def orm_commit_def append_job_log_def)
    have "db_ok (retry_commit now j db)"
      unfolding retry_commit_def
      by (intro retrying.commit_db_ok assms db_ok_row [OF assms Some])
    moreover have "retry_check i (get_job db i) = Inr j"
      using Some True by (simp add: get_job_def retry_check_Inr)
    ultimately show ?thesis
      using Some True row id unfolding retry_values_def [symmetric]
      by (simp add: manual_retry_def Let_def refresh_def remove_dead_letter_def retry_log dead)
  qed
qed

theorem manual_retry_spec_witness:
  "\<exists>db' r' j. manual_retry 50 1 (empty_db\<lparr>jobs := [sample_job 1 Failed 0]\<rparr>) empty_redis = (Inr j, db', r') \<and>
    status j = Pending \<and> max_attempts j = 4 \<and> next_run_at j = Some 50"
proof -
  let ?db = "empty_db\<lparr>jobs := [sample_job 1 Failed 0]\<rparr>"
  have "db_ok ?db" by (simp add: db_ok_def table_ok_def keys_unique_def)
  from manual_retry_spec [OF this, where i = 1 and now = 50 and r = empty_redis] show ?thesis
    by (simp add: get_row_def [of 1 "[sample_job 1 Failed 0]"]) fastforce
qed

text \<open>What a page can hold, by the number of jobs that must come before a job and of those that may.\<close>

lemma sorted_rank:
  assumes "sorted (map f ys)" "distinct ys" "p < length ys"
  shows "card {y \<in> set ys. f y < f (ys ! p)} \<le> p" "p < card {y \<in> set ys. f y \<le> f (ys ! p)}"
proof -
  have le: "f (ys ! m) \<le> f (ys ! n)" if "m \<le> n" "n < length ys" for m n
    using sorted_nth_mono [OF assms(1), of m n] that by simp
  have "{y \<in> set ys. f y < f (ys ! p)} \<subseteq> set (take p ys)"
  proof
    fix y assume y: "y \<in> {y \<in> set ys. f y < f (ys ! p)}"
    then obtain q where q: "q < length ys" "y = ys ! q" by (auto simp: in_set_conv_nth)
    with y le [of p q] have "q < p" by (cases "p \<le> q") auto
    with q show "y \<in> set (take p ys)" by (auto simp: in_set_conv_nth)
  qed
  from card_mono [OF _ this] show "card {y \<in> set ys. f y < f (ys ! p)} \<le> p"
    using card_length [of "take p ys"] by (simp add: min_def split: if_splits)
  have "set (take (Suc p) ys) \<subseteq> {y \<in> set ys. f y \<le> f (ys ! p)}"
  proof
    fix y assume "y \<in> set (take (Suc p) ys)"
    then obtain q where "q \<le> p" "y = ys ! q" by (auto simp: in_set_conv_nth less_Suc_eq_le)
    with assms(3) le [of q p] show "y \<in> {y \<in> set ys. f y \<le> f (ys ! p)}" by simp
  qed
  from card_mono [OF _ this] show "p < card {y \<in> set ys. f y \<le> f (ys ! p)}"
    using distinct_card [OF distinct_take [OF assms(2), of "Suc p"]] assms(3) by simp
qed

lemma set_page:
  "y \<in> set (take limit (drop off ys)) \<longleftrightarrow> (\<exists>p. off \<le> p \<and> p < off + limit \<and> p < length ys \<and> y = ys ! p)"
proof
  assume "y \<in> set (take limit (drop off ys))"
  then obtain q where "q < limit" "q < length ys - off" "y = ys ! (off + q)" by (auto simp: in_set_conv_nth)
  then show "\<exists>p. off \<le> p \<and> p < off + limit \<and> p < length ys \<and> y = ys ! p" by (intro exI [of _ "off + q"]) auto
next
  assume "\<exists>p. off \<le> p \<and> p < off + limit \<and> p < length ys \<and> y = ys ! p"
  then obtain p where "off \<le> p" "p < off + limit" "p < length ys" "y = ys ! p" by blast
  then show "y \<in> set (take limit (drop off ys))" by (auto simp: in_set_conv_nth intro!: exI [of _ "p - off"])
qed

lemma list_jobs_arranged:
  assumes "arranges scan" "db_ok db"
    and ys_def: "ys = sort_key (\<lambda>j. - created_at j) (scan (filter (list_filter st ty) (jobs db)))"
  shows "set ys = {j \<in> set (jobs db). list_filter st ty j}" "distinct (map job_id ys)" "distinct ys"
    "sorted (map (\<lambda>j. - created_at j) ys)" "length ys = length (filter (list_filter st ty) (jobs db))"
proof -
  let ?m = "filter (list_filter st ty) (jobs db)"
  have m: "mset ys = mset ?m" using assms(1) by (simp add: ys_def arranges_def)
  show "set ys = {j \<in> set (jobs db). list_filter st ty j}" using mset_eq_setD [OF m] by auto
  have "distinct (map job_id ?m)" using db_ok_distinct [OF assms(2)] by (simp add: distinct_map_filter)
  moreover have "mset (map job_id ys) = mset (map job_id ?m)" using m by simp
  ultimately show d: "distinct (map job_id ys)" using mset_eq_imp_distinct_iff by blast
  then show "distinct ys" by (simp add: distinct_map)
  show "sorted (map (\<lambda>j. - created_at j) ys)" unfolding ys_def by (rule list_jobs_sorted)
  show "length ys = length ?m" using mset_eq_length [OF m] .
qed

text \<open>
  C39. Listing, with ties in whatever order this query has them: the total counts the matching jobs; the
  page holds distinct matching jobs, newest first, as many as \<open>limit\<close> and \<open>offset\<close> leave; and a job
  is in the page when every position its creation time allows is on it, and only when some such position is.
  So a job whose creation time is its own is on the one page its rank falls on, whatever the other queries do.
\<close>

theorem list_jobs_page:
  assumes "arranges scan" and "db_ok db" and "list_jobs scan db st ty limit off = (page, n)"
    and "matching = {j \<in> set (jobs db). (\<forall>x. st = Some x \<longrightarrow> status j = x) \<and> (\<forall>x. ty = Some x \<longrightarrow> job_type j = x)}"
  shows "n = card matching \<and> length page = min limit (n - off) \<and> set page \<subseteq> matching \<and> distinct (map job_id page) \<and>
    sorted (map (\<lambda>j. - created_at j) page) \<and>
    (\<forall>j \<in> matching.
      (off \<le> card {k \<in> matching. created_at j < created_at k} \<and>
         card {k \<in> matching. created_at j \<le> created_at k} \<le> off + limit \<longrightarrow> j \<in> set page) \<and>
      (j \<in> set page \<longrightarrow> off < card {k \<in> matching. created_at j \<le> created_at k} \<and>
         card {k \<in> matching. created_at j < created_at k} < off + limit))"
proof -
  define ys where "ys = sort_key (\<lambda>j. - created_at j) (scan (filter (list_filter st ty) (jobs db)))"
  have "matching = {j \<in> set (jobs db). list_filter st ty j}"
    unfolding assms(4) list_filter_def by (cases st; cases ty; simp)
  note ys = list_jobs_arranged [OF assms(1,2) ys_def, folded this]
  have page: "page = take limit (drop off ys)" and n: "n = length ys"
    using assms(3) ys(5) by (auto simp: list_jobs_def Let_def ys_def)
  have rank: "card {k \<in> matching. created_at (ys ! p) < created_at k} \<le> p"
    "p < card {k \<in> matching. created_at (ys ! p) \<le> created_at k}" if "p < length ys" for p
    using sorted_rank [OF ys(4,3) that] ys(1) by simp_all
  note pos = set_page [of _ limit off ys, folded page]
  have "(off \<le> card {k \<in> matching. created_at j < created_at k} \<and>
         card {k \<in> matching. created_at j \<le> created_at k} \<le> off + limit \<longrightarrow> j \<in> set page) \<and>
      (j \<in> set page \<longrightarrow> off < card {k \<in> matching. created_at j \<le> created_at k} \<and>
         card {k \<in> matching. created_at j < created_at k} < off + limit)" if "j \<in> matching" for j
  proof -
    obtain p where p: "p < length ys" "j = ys ! p" using \<open>j \<in> matching\<close> ys(1) by (metis in_set_conv_nth)
    have "j \<in> set page \<longleftrightarrow> off \<le> p \<and> p < off + limit"
      using p nth_eq_iff_index_eq [OF ys(3)] by (auto simp: pos)
    with rank [OF p(1)] p(2) show ?thesis by auto
  qed
  moreover have "n = card matching" using distinct_card [OF ys(3)] ys(1) n by simp
  moreover have "length page = min limit (n - off)" by (simp add: page n)
  moreover have "set page \<subseteq> matching" using ys(1) by (auto simp: pos)
  moreover have "distinct (map job_id page)" using ys(2) unfolding page by (simp flip: take_map drop_map)
  moreover have "sorted (map (\<lambda>j. - created_at j) page)"
    unfolding page using ys(4) by (metis sorted_wrt_drop sorted_wrt_take take_map drop_map)
  ultimately show ?thesis by blast
qed

theorem list_jobs_page_witness:
  "sample_job 2 Pending 50 \<in> set (fst (list_jobs rev (empty_db\<lparr>jobs := [sample_job 1 Pending 40, sample_job 2 Pending 50, sample_job 3 Failed 60]\<rparr>)
     (Some Pending) None 1 0))"
proof -
  let ?j = "sample_job 2 Pending 50"
  let ?db = "empty_db\<lparr>jobs := [sample_job 1 Pending 40, ?j, sample_job 3 Failed 60]\<rparr>"
  have a: "arranges rev" "db_ok ?db"
    by (simp add: arranges_def, simp add: db_ok_def table_ok_def keys_unique_def)
  have m: "{j \<in> set (jobs ?db). (\<forall>x. Some Pending = Some x \<longrightarrow> status j = x) \<and>
      (\<forall>x. None = Some x \<longrightarrow> job_type j = x)} = {sample_job 1 Pending 40, ?j}"
    by auto
  have "{k \<in> {sample_job 1 Pending 40, ?j}. created_at ?j < created_at k} = {}"
    "{k \<in> {sample_job 1 Pending 40, ?j}. created_at ?j \<le> created_at k} = {?j}" by auto
  with list_jobs_page [OF a surjective_pairing m [symmetric], of 1 0] show ?thesis by simp
qed

text \<open>
  Finding: two jobs of one creation time and two queries.  PostgreSQL may arrange them differently, and
  then the second page repeats the job of the first, and the other job is on no page.
\<close>

lemma tied_jobs_repeat:
  assumes "filter (list_filter st ty) (jobs db) = [a, b]" and "created_at a = created_at b"
  shows "arranges (\<lambda>xs. xs) \<and> arranges rev \<and>
    list_jobs (\<lambda>xs. xs) db st ty 1 0 = ([a], 2) \<and> list_jobs rev db st ty 1 1 = ([a], 2)"
  using assms by (simp add: list_jobs_def Let_def arranges_def)

end
