(* ===== verification/System.thy ===== *)
theory System
  imports Executor Scheduler Reaper Job_Service
begin

text \<open>
  The processes together.  The state is the database and what the running processes hold in
  memory: the job object of each worker, loaded at its claim, and the objects that cancel and
  retry requests have read and checked but not yet written.  An event is one transaction of one
  process; any interleaving is a sequence of events.

  Redis is left out on purpose: a worker may try to claim any id at any time, which covers every
  content Redis can have, lost, stale or duplicated.  What holds here holds because of the
  statements sent to PostgreSQL alone.
\<close>

section \<open>State and events\<close>

record system =
  sys_db :: database
  running :: "string \<Rightarrow> job option"
  cancelling :: "job list"
  retrying :: "job list"

datatype event =
    Submit uuid datetime JobCreate "string option"
  | ClaimBy string uuid datetime datetime
  | StartBy string
  | ProgressBy string int
  | FinishBy string datetime run_outcome
  | RenewBy string uuid datetime
  | Crash string
  | Reap uuid datetime
  | Promote uuid datetime
  | Cleanup datetime
  | CancelRead uuid
  | CancelWrite job
  | RetryRead uuid
  | RetryWrite job datetime

definition initial :: system where
  "initial = \<lparr>sys_db = empty_db, running = Map.empty, cancelling = [], retrying = []\<rparr>"

text \<open>One event; an event whose process is not in the right place changes nothing.\<close>

fun step :: "settings \<Rightarrow> event \<Rightarrow> system \<Rightarrow> system" where
  "step S (Submit i now data key) s =
     (case insert_row (new_job S i now data key) (jobs (sys_db s)) of
        Inl e \<Rightarrow> s
      | Inr rows \<Rightarrow>
          (case commit_logs (created_log (new_job S i now data key)) ((sys_db s)\<lparr>jobs := rows\<rparr>) of
             Inl e \<Rightarrow> s
           | Inr d \<Rightarrow> s\<lparr>sys_db := d\<rparr>))"
| "step S (ClaimBy w i now db_now) s =
     (case running s w of
        Some l \<Rightarrow> s
      | None \<Rightarrow>
          (case claim_job now db_now i w (worker_lease_seconds S) (sys_db s) of
             (None, d) \<Rightarrow> s\<lparr>sys_db := d\<rparr>
           | (Some l, d) \<Rightarrow> s\<lparr>sys_db := d, running := (running s)(w \<mapsto> l)\<rparr>))"
| "step S (StartBy w) s =
     (case running s w of None \<Rightarrow> s | Some l \<Rightarrow> s\<lparr>sys_db := start_commit w l (sys_db s)\<rparr>)"
| "step S (ProgressBy w pct) s =
     (case running s w of
        None \<Rightarrow> s
      | Some l \<Rightarrow> let (l', d) = report_progress pct (l, sys_db s) in s\<lparr>sys_db := d, running := (running s)(w \<mapsto> l')\<rparr>)"
| "step S (FinishBy w now out) s =
     (case running s w of
        None \<Rightarrow> s
      | Some l \<Rightarrow> s\<lparr>sys_db := fst (finalize S now out l (sys_db s, empty_redis)), running := (running s)(w := None)\<rparr>)"
| "step S (RenewBy w i now) s = s\<lparr>sys_db := snd (renew_job_lease now i w (worker_lease_seconds S) (sys_db s))\<rparr>"
| "step S (Crash w) s = s\<lparr>running := (running s)(w := None)\<rparr>"
| "step S (Reap i t) s = s\<lparr>sys_db := snd (reap_one t i (0, sys_db s))\<rparr>"
| "step S (Promote i t) s = s\<lparr>sys_db := fst (snd (promote_one list_zset t i (0, sys_db s, empty_redis)))\<rparr>"
| "step S (Cleanup t) s = s\<lparr>sys_db := snd (cleanup_expired_idempotency_keys t (sys_db s))\<rparr>"
| "step S (CancelRead i) s =
     (case cancel_check i (get_job (sys_db s) i) of Inl e \<Rightarrow> s | Inr l \<Rightarrow> s\<lparr>cancelling := l # cancelling s\<rparr>)"
| "step S (CancelWrite l) s =
     (if l \<in> set (cancelling s) then s\<lparr>sys_db := cancel_commit l (sys_db s), cancelling := remove1 l (cancelling s)\<rparr> else s)"
| "step S (RetryRead i) s =
     (case retry_check i (get_job (sys_db s) i) of Inl e \<Rightarrow> s | Inr l \<Rightarrow> s\<lparr>retrying := l # retrying s\<rparr>)"
| "step S (RetryWrite l now) s =
     (if l \<in> set (retrying s) then s\<lparr>sys_db := retry_commit now l (sys_db s), retrying := remove1 l (retrying s)\<rparr> else s)"

inductive reachable :: "settings \<Rightarrow> system \<Rightarrow> bool" for S where
  start: "reachable S initial"
| next_event: "reachable S s \<Longrightarrow> reachable S (step S ev s)"

section \<open>What an event does to a row\<close>

fun row_effect :: "settings \<Rightarrow> system \<Rightarrow> event \<Rightarrow> job \<Rightarrow> job" where
  "row_effect S s (ClaimBy w i now db_now) j =
     (if running s w = None \<and> claim_guard i db_now j
      then claim_set w (now + seconds (worker_lease_seconds S)) db_now j else j)"
| "row_effect S s (ProgressBy w pct) j =
     (case running s w of None \<Rightarrow> j
      | Some l \<Rightarrow> if job_id j = job_id l then orm_row l (progress_values pct l) j else j)"
| "row_effect S s (FinishBy w now out) j =
     (case running s w of None \<Rightarrow> j
      | Some l \<Rightarrow> if job_id j = job_id l then orm_row l (final_row S now out l) j else j)"
| "row_effect S s (RenewBy w i now) j =
     (if renew_guard i w j then renew_set (now + seconds (worker_lease_seconds S)) j else j)"
| "row_effect S s (Reap i t) j = (if reap_guard i t j then reap_set j else j)"
| "row_effect S s (Promote i t) j = (if promote_guard i t j then promote_set j else j)"
| "row_effect S s (Cleanup t) j = (if cleanup_guard (t - IDEMPOTENCY_TTL) j then cleanup_set j else j)"
| "row_effect S s (CancelWrite l) j =
     (if l \<in> set (cancelling s) \<and> job_id j = job_id l then orm_row l (cancel_values l) j else j)"
| "row_effect S s (RetryWrite l now) j =
     (if l \<in> set (retrying s) \<and> job_id j = job_id l then orm_row l (retry_values now l) j else j)"
| "row_effect S s ev j = j"

text \<open>A successful submission adds a row; no other event does.\<close>

definition fresh_row :: "settings \<Rightarrow> system \<Rightarrow> event \<Rightarrow> uuid \<Rightarrow> job option" where
  "fresh_row S s ev k =
     (case ev of
        Submit i now data key \<Rightarrow> if k = i \<and> can_insert S i data key (sys_db s) then Some (new_job S i now data key) else None
      | _ \<Rightarrow> None)"

lemma orm_commit_row:
  "get_row k (jobs (orm_commit l new logs d)) =
    map_option (\<lambda>j. if job_id j = job_id l then orm_row l new j else j) (get_row k (jobs d))"
  unfolding orm_commit_jobs by (rule get_row_update_where) (simp add: row_simps)

lemma claim_job_row:
  assumes "db_ok d"
  shows "get_row k (jobs (snd (claim_job now db_now i w lease d))) =
    map_option (\<lambda>j. if claim_guard i db_now j then claim_set w (now + seconds lease) db_now j else j) (get_row k (jobs d))"
proof (cases "\<exists>j. get_row i (jobs d) = Some j \<and> claim_guard i db_now j")
  case True
  then show ?thesis
    by (auto simp: claim_job_eq [OF db_ok_distinct [OF assms]] claiming.row_after)
next
  case False
  then have "\<not> claim_guard i db_now j" if "get_row k (jobs d) = Some j" for j
    using that get_row_Some [OF that] by (auto simp: claim_guard_def)
  with False show ?thesis
    by (cases "get_row k (jobs d)")
      (auto simp: claim_job_eq [OF db_ok_distinct [OF assms]] split: option.split)
qed

lemma renew_row:
  assumes "db_ok d"
  shows "get_row k (jobs (snd (renew_job_lease now i w lease d))) =
    map_option (\<lambda>j. if renew_guard i w j then renew_set (now + seconds lease) j else j) (get_row k (jobs d))"
proof (cases "\<exists>j. get_row i (jobs d) = Some j \<and> renew_guard i w j")
  case True
  then show ?thesis
    by (auto simp: renew_job_lease_eq [OF db_ok_distinct [OF assms]] renewing.row_after)
next
  case False
  then have "\<not> renew_guard i w j" if "get_row k (jobs d) = Some j" for j
    using that get_row_Some [OF that] by (auto simp: renew_guard_def)
  with False show ?thesis
    by (cases "get_row k (jobs d)")
      (auto simp: renew_job_lease_eq [OF db_ok_distinct [OF assms]] split: option.split)
qed

lemma promote_one_jobs:
  assumes "db_ok d"
  shows "jobs (fst (snd (promote_one list_zset t i (n, d, r)))) = update_where (promote_guard i t) promote_set (jobs d)"
proof -
  obtain n' d' r' where p: "promote_one list_zset t i (n, d, r) = (n', d', r')" by (metis prod.exhaust)
  with promote_one_spec(1) [OF list_queue db_ok_distinct [OF assms] p] show ?thesis by simp
qed

text \<open>The database after a submission, and after the end of an attempt.\<close>

lemma submit_step:
  "sys_db (step S (Submit i now data key) s) =
    (if can_insert S i data key (sys_db s)
     then (sys_db s)\<lparr>jobs := jobs (sys_db s) @ [new_job S i now data key],
                     job_logs := job_logs (sys_db s) @ created_log (new_job S i now data key)\<rparr>
     else sys_db s)"
proof (cases "can_insert S i data key (sys_db s)")
  case True
  then have ins: "insert_row (new_job S i now data key) (jobs (sys_db s)) = Inr (jobs (sys_db s) @ [new_job S i now data key])"
    by (simp add: insert_new_job)
  with True commit_logs_after_insert [OF ins] show ?thesis by simp
qed (simp add: insert_new_job)

lemma finish_step:
  assumes "running s w = Some l"
  obtains logs where "sys_db (step S (FinishBy w now out) s) = orm_commit l (final_row S now out l) logs (sys_db s)"
proof -
  obtain logs where "fst (finalize S now out l (sys_db s, empty_redis)) = orm_commit l (final_row S now out l) logs (sys_db s)"
    by (metis finalize_commit fst_conv)
  with assms show thesis by (intro that [of logs]) simp
qed

text \<open>The table after an event, row by row.\<close>

lemma step_row:
  assumes ok: "db_ok (sys_db s)"
  shows "get_row k (jobs (sys_db (step S ev s))) =
    (case get_row k (jobs (sys_db s)) of Some j \<Rightarrow> Some (row_effect S s ev j) | None \<Rightarrow> fresh_row S s ev k)"
proof (cases ev)
  case (Submit i now data key)
  then show ?thesis
    by (auto simp: submit_step get_row_append fresh_row_def row_simps can_insert_def simp del: step.simps split: option.split)
next
  case (ClaimBy w i now db_now)
  then show ?thesis
    using claim_job_row [OF ok, of k now db_now i w "worker_lease_seconds S"]
    by (cases "running s w"; cases "claim_job now db_now i w (worker_lease_seconds S) (sys_db s)")
      (auto simp: fresh_row_def split: option.split)
next
  case (ProgressBy w pct)
  then show ?thesis
    by (auto simp: fresh_row_def report_progress_pair orm_commit_row split: option.split)
next
  case (FinishBy w now out)
  show ?thesis
  proof (cases "running s w")
    case (Some l)
    show ?thesis
      by (rule finish_step [OF Some, of S now out])
        (use FinishBy Some in \<open>auto simp: fresh_row_def orm_commit_row simp del: step.simps split: option.split\<close>)
  qed (use FinishBy in \<open>simp add: fresh_row_def split: option.split\<close>)
next
  case (RenewBy w i now)
  then show ?thesis by (simp add: fresh_row_def renew_row [OF ok] split: option.split)
next
  case (Reap i t)
  then show ?thesis
    by (simp add: fresh_row_def reap_one_eq [OF db_ok_distinct [OF ok]]
        guarded_update.row_after [OF reaping.one_statement] split: option.split)
next
  case (Promote i t)
  then show ?thesis
    by (simp add: fresh_row_def promote_one_jobs [OF ok] guarded_update.row_after [OF promoting.one_statement]
        split: option.split)
next
  case (Cleanup t)
  then show ?thesis by (simp add: fresh_row_def cleanup_jobs cleanup.row_after split: option.split)
qed (auto simp: fresh_row_def cancel_commit_def retry_commit_def orm_commit_row split: option.split sum.split)

lemma step_row_cases [consumes 2, case_names old new]:
  assumes "db_ok (sys_db s)" "get_row k (jobs (sys_db (step S ev s))) = Some j'"
  obtains (old) j where "get_row k (jobs (sys_db s)) = Some j" "j' = row_effect S s ev j"
  | (new) i now data key where "ev = Submit i now data key" "k = i" "can_insert S i data key (sys_db s)"
      "get_row k (jobs (sys_db s)) = None" "j' = new_job S i now data key"
  using assms
  by (auto simp: step_row fresh_row_def split: option.splits event.splits if_splits)

lemma step_row_kept:
  "db_ok (sys_db s) \<Longrightarrow> get_row k (jobs (sys_db s)) = Some j \<Longrightarrow>
    get_row k (jobs (sys_db (step S ev s))) = Some (row_effect S s ev j)"
  by (simp add: step_row)

lemma row_effect_id [simp]: "job_id (row_effect S s ev j) = job_id j"
  by (cases ev) (auto simp: row_simps cleanup_set_def split: option.split)

section \<open>What never changes in a row\<close>

text \<open>The columns a job is submitted with; no statement of the program writes them again.\<close>

definition identity :: "job \<Rightarrow> uuid \<times> JobType \<times> json_dict \<times> int \<times> datetime option \<times> datetime" where
  "identity j = (job_id j, job_type j, payload j, priority j, scheduled_at j, created_at j)"

lemma orm_row_identity: "identity new = identity loaded \<Longrightarrow> identity (orm_row loaded new row) = identity row"
  by (simp add: identity_def row_simps merge_col_def)

lemma identity_kept:
  "identity (claim_set w l t j) = identity j" "identity (renew_set l j) = identity j"
  "identity (reap_set j) = identity j" "identity (promote_set j) = identity j"
  "identity (cleanup_set j) = identity j" "identity (progress_values p j) = identity j"
  "identity (final_row S now out j) = identity j" "identity (cancel_values j) = identity j"
  "identity (retry_values now j) = identity j"
  by (simp_all add: identity_def claim_set_def renew_set_def reap_set_def promote_set_def cleanup_set_def
      progress_values_def final_row_def complete_values_def failure_values_def cancel_values_def retry_values_def Let_def
      split: run_outcome.split)

lemma row_effect_identity: "identity (row_effect S s ev j) = identity j"
  by (cases ev) (auto simp: identity_kept orm_row_identity split: option.split)

section \<open>The invariant of every interleaving\<close>

text \<open>What the processes hold in memory.\<close>

definition worker_snapshot :: "string \<Rightarrow> job \<Rightarrow> bool" where
  "worker_snapshot w l \<longleftrightarrow> row_ok l \<and> status l = Processing \<and> worker_id l = Some w \<and> leased_until l \<noteq> None"

definition cancel_snapshot :: "job \<Rightarrow> bool" where
  "cancel_snapshot l \<longleftrightarrow> row_ok l \<and> (status l = Pending \<or> status l = Scheduled)"

definition retry_snapshot :: "job \<Rightarrow> bool" where
  "retry_snapshot l \<longleftrightarrow> row_ok l \<and> status l = Failed"

definition snapshots_ok :: "system \<Rightarrow> bool" where
  "snapshots_ok s \<longleftrightarrow> (\<forall>w l. running s w = Some l \<longrightarrow> worker_snapshot w l) \<and>
     list_all cancel_snapshot (cancelling s) \<and> list_all retry_snapshot (retrying s)"

lemma snapshots_okD:
  assumes "snapshots_ok s"
  shows "running s w = Some l \<Longrightarrow> worker_snapshot w l"
    "l \<in> set (cancelling s) \<Longrightarrow> cancel_snapshot l"
    "l \<in> set (retrying s) \<Longrightarrow> retry_snapshot l"
  using assms by (auto simp: snapshots_ok_def list_all_iff)

lemma step_db_ok:
  assumes ok: "db_ok (sys_db s)" and snap: "snapshots_ok s"
  shows "db_ok (sys_db (step S ev s))"
proof (cases ev)
  case (Submit i now data key)
  then show ?thesis
    using ok table_ok_insert [of "jobs (sys_db s)" "new_job S i now data key"]
    by (auto simp: submit_step db_ok_def insert_new_job simp del: step.simps)
next
  case (ClaimBy w i now db_now)
  then show ?thesis
    using ok claim_job_db_ok [OF ok, of now db_now i w "worker_lease_seconds S"]
    by (auto split: option.split prod.split)
next
  case (ProgressBy w pct)
  then show ?thesis
    using ok snapshots_okD(1) [OF snap, of w] progressing.commit_db_ok [OF ok]
    by (auto simp: report_progress_pair worker_snapshot_def split: option.split)
next
  case (FinishBy w now out)
  show ?thesis
  proof (cases "running s w")
    case (Some l)
    have "row_ok l" using snapshots_okD(1) [OF snap Some] by (simp add: worker_snapshot_def)
    with finalizing.commit_db_ok [OF ok] FinishBy show ?thesis by (metis finish_step [OF Some])
  qed (use FinishBy ok in simp)
next
  case (RenewBy w i now)
  then show ?thesis
    using ok by (auto simp: renew_job_lease_eq db_ok_distinct db_ok_def renewing.table_kept table_ok_distinct split: option.split)
next
  case (Reap i t)
  then show ?thesis
    using ok guarded_update.table_kept [OF reaping.one_statement]
    by (simp add: reap_one_eq db_ok_distinct) (simp add: db_ok_def)
next
  case (Promote i t)
  then show ?thesis
    using ok guarded_update.table_kept [OF promoting.one_statement]
    by (simp add: promote_one_jobs db_ok_def [of "fst (snd _)"]) (simp add: db_ok_def)
next
  case (Cleanup t)
  then show ?thesis using cleanup_db_ok [OF ok] by simp
next
  case (CancelWrite l)
  then show ?thesis
    using ok snapshots_okD(2) [OF snap, of l] cancelling.commit_db_ok [OF ok]
    by (auto simp: cancel_commit_def cancel_snapshot_def)
next
  case (RetryWrite l now)
  then show ?thesis
    using ok snapshots_okD(3) [OF snap, of l] retrying.commit_db_ok [OF ok]
    by (auto simp: retry_commit_def retry_snapshot_def)
qed (use ok in \<open>auto split: option.split sum.split\<close>)

lemma claim_snapshot:
  assumes "db_ok d" "claim_job now db_now i w lease d = (Some l, d')"
  shows "worker_snapshot w l \<and> get_row i (jobs d') = Some l \<and> job_id l = i"
proof -
  obtain j where j: "get_row i (jobs d) = Some j" "claim_guard i db_now j"
    and l: "l = claim_set w (now + seconds lease) db_now j" "get_row i (jobs d') = Some l" and "db_ok d'"
    by (rule claim_job_Some [OF assms]) (rule that)
  have "row_ok l" by (rule db_ok_row [OF \<open>db_ok d'\<close> l(2)])
  with j l get_row_Some [OF l(2)] show ?thesis by (simp add: worker_snapshot_def row_simps)
qed

lemma step_snapshots_ok:
  assumes ok: "db_ok (sys_db s)" and snap: "snapshots_ok s"
  shows "snapshots_ok (step S ev s)"
proof (cases ev)
  case (ClaimBy w i now db_now)
  then show ?thesis
    using snap claim_snapshot [OF ok, of now db_now i w "worker_lease_seconds S"]
    by (cases "running s w"; cases "claim_job now db_now i w (worker_lease_seconds S) (sys_db s)")
      (auto simp: snapshots_ok_def split: option.split)
next
  case (ProgressBy w pct)
  then show ?thesis
    using snap by (cases "running s w")
      (auto simp: snapshots_ok_def report_progress_pair worker_snapshot_def row_simps)
next
  case (CancelRead i)
  show ?thesis
  proof (cases "cancel_check i (get_job (sys_db s) i)")
    case (Inr l)
    then have l: "get_row i (jobs (sys_db s)) = Some l" "status l = Pending \<or> status l = Scheduled"
      by (simp_all add: cancel_check_Inr get_job_def)
    with CancelRead Inr snap db_ok_row [OF ok l(1)] show ?thesis
      by (simp add: snapshots_ok_def cancel_snapshot_def)
  qed (use CancelRead snap in simp)
next
  case (RetryRead i)
  show ?thesis
  proof (cases "retry_check i (get_job (sys_db s) i)")
    case (Inr l)
    then have l: "get_row i (jobs (sys_db s)) = Some l" "status l = Failed"
      by (simp_all add: retry_check_Inr get_job_def)
    with RetryRead Inr snap db_ok_row [OF ok l(1)] show ?thesis
      by (simp add: snapshots_ok_def retry_snapshot_def)
  qed (use RetryRead snap in simp)
next
  case (CancelWrite l)
  then show ?thesis
    using snap set_remove1_subset [of l "cancelling s"] by (auto simp: snapshots_ok_def list_all_iff)
next
  case (RetryWrite l now)
  then show ?thesis
    using snap set_remove1_subset [of l "retrying s"] by (auto simp: snapshots_ok_def list_all_iff)
qed (use snap in \<open>auto simp: snapshots_ok_def split: option.split sum.split\<close>)

lemma reachable_ok: "reachable S s \<Longrightarrow> db_ok (sys_db s) \<and> snapshots_ok s"
proof (induction rule: reachable.induct)
  case start
  then show ?case by (simp add: initial_def snapshots_ok_def)
next
  case (next_event s ev)
  then show ?case using step_db_ok step_snapshots_ok by blast
qed

text \<open>A row in processing has an owner and a lease.\<close>

definition owned :: "job \<Rightarrow> bool" where
  "owned j \<longleftrightarrow> (status j = Processing \<longrightarrow> worker_id j \<noteq> None \<and> leased_until j \<noteq> None)"

lemma row_effect_owned:
  assumes "snapshots_ok s" "owned j"
  shows "owned (row_effect S s ev j)"
proof (cases ev)
  case (ProgressBy w pct)
  with assms show ?thesis
    by (auto simp: owned_def row_simps merge_col_def split: option.split)
next
  case (FinishBy w now out)
  with assms snapshots_okD(1) [OF assms(1), of w] finalizing.new_lifecycle show ?thesis
    by (auto simp: owned_def row_simps merge_col_def worker_snapshot_def final_row_def
        split: option.split run_outcome.split)
next
  case (CancelWrite l)
  with assms snapshots_okD(2) [OF assms(1), of l] show ?thesis
    by (auto simp: owned_def row_simps merge_col_def cancel_snapshot_def)
next
  case (RetryWrite l now)
  with assms snapshots_okD(3) [OF assms(1), of l] show ?thesis
    by (auto simp: owned_def row_simps merge_col_def retry_snapshot_def)
next
  case (Cleanup t)
  with assms show ?thesis by (simp add: owned_def cleanup_set_def)
qed (use assms in \<open>auto simp: owned_def row_simps\<close>)

lemma new_job_owned: "owned (new_job S i now data key)"
  by (simp add: owned_def row_simps)

lemma reachable_owned: "reachable S s \<Longrightarrow> get_row k (jobs (sys_db s)) = Some j \<Longrightarrow> owned j"
proof (induction arbitrary: k j rule: reachable.induct)
  case start
  then show ?case by (simp add: initial_def empty_db_def get_row_def)
next
  case (next_event s ev)
  have ok: "db_ok (sys_db s)" "snapshots_ok s" using reachable_ok [OF next_event.hyps] by auto
  show ?case
    using ok(1) next_event.prems
  proof (cases rule: step_row_cases)
    case (old j0)
    with next_event.IH [OF old(1)] row_effect_owned [OF ok(2)] show ?thesis by simp
  next
    case (new i now data key)
    then show ?thesis by (simp add: new_job_owned)
  qed
qed

end
