(* ===== verification/Orderly.thy ===== *)
theory Orderly
  imports System
begin

text \<open>
  The runs of \<open>System\<close> in which nothing comes too late: the reaper takes no job from a worker
  that still runs it, and a retry request writes the row it has read.  In these runs one worker
  at a time executes a job and attempts are bounded; with cancel requests that come in time too,
  statuses follow \<open>lifecycle\<close>.  \<open>Timed\<close> derives the first condition from the clocks, \<open>Races\<close> shows
  what happens without them.
\<close>

section \<open>Orderly runs\<close>

text \<open>
  Two things can put a job into the hands of two workers: the reaper takes a job from a worker
  that still runs it, or a retry request writes over a row that has moved on since it was read.
  A run without them is orderly: leases are renewed in time, and the row a retry writes is as it
  was read.  Cancel requests may interleave at will.
\<close>

definition orderly :: "system \<Rightarrow> event \<Rightarrow> bool" where
  "orderly s ev \<longleftrightarrow>
     (case ev of
        Reap i t \<Rightarrow> \<forall>j w l. get_row i (jobs (sys_db s)) = Some j \<and> expired t j \<and> running s w = Some l \<longrightarrow> job_id l \<noteq> i
      | RetryWrite l now \<Rightarrow> \<forall>j. get_row (job_id l) (jobs (sys_db s)) = Some j \<longrightarrow>
          status j = Failed \<and> max_attempts j = max_attempts l
      | _ \<Rightarrow> True)"

text \<open>Stricter still: the row a cancel request writes has the status it was read with.\<close>

definition strict :: "system \<Rightarrow> event \<Rightarrow> bool" where
  "strict s ev \<longleftrightarrow> orderly s ev \<and>
     (case ev of
        CancelWrite l \<Rightarrow> \<forall>j. get_row (job_id l) (jobs (sys_db s)) = Some j \<longrightarrow> status j = status l
      | _ \<Rightarrow> True)"

text \<open>The runs all of whose events satisfy \<open>P\<close> where they happen.\<close>

inductive run_of :: "settings \<Rightarrow> (system \<Rightarrow> event \<Rightarrow> bool) \<Rightarrow> event list \<Rightarrow> system \<Rightarrow> bool" for S P where
  start: "run_of S P [] initial"
| next_event: "run_of S P evs s \<Longrightarrow> P s ev \<Longrightarrow> run_of S P (evs @ [ev]) (step S ev s)"

lemma run_of_reachable: "run_of S P evs s \<Longrightarrow> reachable S s"
  by (induction rule: run_of.induct) (auto intro: reachable.intros)

lemma strict_run_orderly: "run_of S strict evs s \<Longrightarrow> run_of S orderly evs s"
  by (induction rule: run_of.induct) (auto intro: run_of.intros simp: strict_def)

text \<open>The row of a job in progress, as its worker relies on it.\<close>

definition held_row :: "string \<Rightarrow> job \<Rightarrow> job \<Rightarrow> bool" where
  "held_row w l j \<longleftrightarrow> worker_id j = Some w \<and> (status j = Processing \<or> status j = Cancelled) \<and>
     attempt_count j = attempt_count l \<and> max_attempts j = max_attempts l"

definition holders_ok :: "system \<Rightarrow> bool" where
  "holders_ok s \<longleftrightarrow> (\<forall>w l. running s w = Some l \<longrightarrow>
     (\<exists>j. get_row (job_id l) (jobs (sys_db s)) = Some j \<and> held_row w l j))"

definition unowned :: "job \<Rightarrow> bool" where
  "unowned j \<longleftrightarrow> (status j \<in> {Pending, Scheduled, Failed} \<longrightarrow> worker_id j = None)"

definition loose_rows_ok :: "system \<Rightarrow> bool" where
  "loose_rows_ok s \<longleftrightarrow> (\<forall>k j. get_row k (jobs (sys_db s)) = Some j \<longrightarrow> unowned j) \<and>
     (\<forall>l \<in> set (cancelling s) \<union> set (retrying s). worker_id l = None)"

lemma holders_okD:
  assumes "holders_ok s" "running s w = Some l"
  obtains j where "get_row (job_id l) (jobs (sys_db s)) = Some j" "held_row w l j"
  using assms unfolding holders_ok_def by blast

lemma one_holder:
  assumes "holders_ok s" "running s w = Some l" "running s w' = Some l'" "job_id l = job_id l'"
  shows "w = w'"
proof -
  obtain j where j: "get_row (job_id l) (jobs (sys_db s)) = Some j" "held_row w l j"
    by (rule holders_okD [OF assms(1,2)])
  obtain j' where j': "get_row (job_id l') (jobs (sys_db s)) = Some j'" "held_row w' l' j'"
    by (rule holders_okD [OF assms(1,3)])
  from j j' assms(4) show ?thesis by (simp add: held_row_def)
qed

text \<open>An orderly event by anyone else leaves a held row in the hands of its worker.\<close>

lemma row_effect_held:
  assumes snap: "snapshots_ok s" and hold: "holders_ok s" and loose: "loose_rows_ok s" and "orderly s ev"
    and run: "running s w = Some l" and row: "get_row (job_id l) (jobs (sys_db s)) = Some j" and held: "held_row w l j"
    and other: "\<And>now out. ev \<noteq> FinishBy w now out"
  shows "held_row w l (row_effect S s ev j)"
proof -
  have id: "job_id j = job_id l" using get_row_Some [OF row] by simp
  show ?thesis
  proof (cases ev)
    case (ClaimBy w' i now db_now)
    have "\<not> claim_guard i db_now j" using held by (auto simp: held_row_def claim_guard_def)
    with ClaimBy held show ?thesis by simp
  next
    case (ProgressBy w' pct)
    with held show ?thesis by (auto simp: held_row_def row_simps merge_col_def split: option.split)
  next
    case (FinishBy w' now out)
    with other have "w' \<noteq> w" by blast
    then have "job_id l' \<noteq> job_id j" if "running s w' = Some l'" for l'
      using one_holder [OF hold that run] id by auto
    with FinishBy held show ?thesis by (auto split: option.split)
  next
    case (RenewBy w' i now)
    with held show ?thesis by (simp add: held_row_def row_simps)
  next
    case (Reap i t)
    with assms(4) run row id have "\<not> reap_guard i t j" by (auto simp: orderly_def reap_guard_def)
    with Reap held show ?thesis by simp
  next
    case (Promote i t)
    have "\<not> promote_guard i t j" using held by (auto simp: held_row_def promote_guard_def due_def)
    with Promote held show ?thesis by simp
  next
    case (Cleanup t)
    with held show ?thesis by (simp add: held_row_def cleanup_set_def)
  next
    case (CancelWrite c)
    have "c \<in> set (cancelling s) \<Longrightarrow> worker_id c = None" using loose by (auto simp: loose_rows_ok_def)
    with CancelWrite held snapshots_okD(2) [OF snap, of c] show ?thesis
      by (auto simp: held_row_def row_simps merge_col_def cancel_snapshot_def)
  next
    case (RetryWrite c now)
    with assms(4) row held id have "job_id j \<noteq> job_id c" by (auto simp: orderly_def held_row_def)
    with RetryWrite held show ?thesis by simp
  qed (use held in simp_all)
qed

lemma step_running:
  "running (step S ev s) w =
    (case ev of
       ClaimBy w' i now db_now \<Rightarrow> if w' = w \<and> running s w = None
         then fst (claim_job now db_now i w (worker_lease_seconds S) (sys_db s)) else running s w
     | ProgressBy w' pct \<Rightarrow> if w' = w then map_option (progress_values pct) (running s w) else running s w
     | FinishBy w' now out \<Rightarrow> if w' = w then None else running s w
     | Crash w' \<Rightarrow> if w' = w then None else running s w
     | _ \<Rightarrow> running s w)"
  by (cases ev) (auto simp: report_progress_pair split: option.split prod.split sum.split)

lemma step_holders_ok:
  assumes ok: "db_ok (sys_db s)" and snap: "snapshots_ok s" and hold: "holders_ok s" and loose: "loose_rows_ok s"
    and ord: "orderly s ev"
  shows "holders_ok (step S ev s)"
  unfolding holders_ok_def
proof (intro allI impI)
  fix w l'
  assume run': "running (step S ev s) w = Some l'"
  show "\<exists>j. get_row (job_id l') (jobs (sys_db (step S ev s))) = Some j \<and> held_row w l' j"
  proof (cases "running s w")
    case None
    with run' obtain i now db_now where ev: "ev = ClaimBy w i now db_now"
      and c: "fst (claim_job now db_now i w (worker_lease_seconds S) (sys_db s)) = Some l'"
      by (auto simp: step_running split: event.splits if_splits)
    then obtain d where d: "claim_job now db_now i w (worker_lease_seconds S) (sys_db s) = (Some l', d)"
      by (cases "claim_job now db_now i w (worker_lease_seconds S) (sys_db s)") simp
    from claim_snapshot [OF ok this] have "worker_snapshot w l'" "get_row i (jobs d) = Some l'" "job_id l' = i" by auto
    with ev None d show ?thesis by (simp add: worker_snapshot_def held_row_def)
  next
    case (Some l)
    obtain j where j: "get_row (job_id l) (jobs (sys_db s)) = Some j" "held_row w l j"
      by (rule holders_okD [OF hold Some])
    have nf: "ev \<noteq> FinishBy w now out" for now out using run' Some by (auto simp: step_running)
    have "held_row w l (row_effect S s ev j)"
      by (rule row_effect_held [OF snap hold loose ord Some j nf])
    moreover have "job_id l' = job_id l \<and> attempt_count l' = attempt_count l \<and> max_attempts l' = max_attempts l"
      using run' Some by (auto simp: step_running row_simps split: event.splits if_splits)
    ultimately show ?thesis
      using step_row_kept [OF ok j(1), of S ev] by (simp add: held_row_def)
  qed
qed

lemma row_effect_unowned:
  assumes snap: "snapshots_ok s" and loose: "loose_rows_ok s" and ord: "orderly s ev"
    and row: "get_row k (jobs (sys_db s)) = Some j"
  shows "unowned (row_effect S s ev j)"
proof -
  have u: "unowned j" using loose row by (auto simp: loose_rows_ok_def)
  have id: "job_id j = k" using get_row_Some [OF row] by simp
  show ?thesis
  proof (cases ev)
    case (ProgressBy w pct)
    with u show ?thesis by (auto simp: unowned_def row_simps merge_col_def split: option.split)
  next
    case (FinishBy w now out)
    with u snapshots_okD(1) [OF snap, of w] show ?thesis
      by (auto simp: unowned_def row_simps merge_col_def worker_snapshot_def final_row_def
          split: option.split run_outcome.split)
  next
    case (CancelWrite l)
    with u snapshots_okD(2) [OF snap, of l] show ?thesis
      by (auto simp: unowned_def row_simps merge_col_def cancel_snapshot_def)
  next
    case (RetryWrite l now)
    have "worker_id l = None" if "l \<in> set (retrying s)" using loose that by (auto simp: loose_rows_ok_def)
    with RetryWrite ord row id u snapshots_okD(3) [OF snap, of l] show ?thesis
      by (auto simp: unowned_def row_simps merge_col_def retry_snapshot_def orderly_def)
  next
    case (Promote i t)
    with u show ?thesis by (auto simp: unowned_def row_simps promote_guard_def due_def)
  next
    case (Cleanup t)
    with u show ?thesis by (simp add: unowned_def cleanup_set_def)
  qed (use u in \<open>auto simp: unowned_def row_simps renew_guard_def\<close>)
qed

lemma step_loose_rows_ok:
  assumes ok: "db_ok (sys_db s)" and snap: "snapshots_ok s" and loose: "loose_rows_ok s" and ord: "orderly s ev"
  shows "loose_rows_ok (step S ev s)"
proof -
  have "unowned j" if "get_row k (jobs (sys_db (step S ev s))) = Some j" for k j
    using ok that
  proof (cases rule: step_row_cases)
    case (old j0)
    with row_effect_unowned [OF snap loose ord] show ?thesis by simp
  qed (simp add: unowned_def row_simps)
  moreover have "worker_id l = None" if "l \<in> set (cancelling (step S ev s)) \<union> set (retrying (step S ev s))" for l
  proof (cases "l \<in> set (cancelling s) \<union> set (retrying s)")
    case True
    with loose show ?thesis by (auto simp: loose_rows_ok_def)
  next
    case False
    with that obtain i where l: "get_row i (jobs (sys_db s)) = Some l" "status l \<in> {Pending, Scheduled, Failed}"
      by (cases ev)
        (auto simp: cancel_check_Inr retry_check_Inr get_job_def report_progress_pair
          split: sum.splits option.splits prod.splits if_splits dest: notin_set_remove1)
    with loose show ?thesis by (auto simp: loose_rows_ok_def unowned_def)
  qed
  ultimately show ?thesis unfolding loose_rows_ok_def by blast
qed

lemma orderly_run_ok:
  "run_of S orderly evs s \<Longrightarrow> db_ok (sys_db s) \<and> snapshots_ok s \<and> holders_ok s \<and> loose_rows_ok s"
proof (induction rule: run_of.induct)
  case start
  have "db_ok (sys_db initial) \<and> snapshots_ok initial" by (rule reachable_ok [OF reachable.start])
  then show ?case
    by (simp add: initial_def holders_ok_def loose_rows_ok_def empty_db_def get_row_def)
next
  case (next_event evs s ev)
  then show ?case
    using step_db_ok step_snapshots_ok step_holders_ok step_loose_rows_ok by blast
qed

section \<open>Counting attempts\<close>

definition is_reap :: "uuid \<Rightarrow> event \<Rightarrow> bool" where
  "is_reap k ev \<longleftrightarrow> (case ev of Reap i t \<Rightarrow> i = k | _ \<Rightarrow> False)"

definition reaps :: "uuid \<Rightarrow> event list \<Rightarrow> int" where
  "reaps k evs = int (length (filter (is_reap k) evs))"

definition counted :: "int \<Rightarrow> job \<Rightarrow> bool" where
  "counted r j \<longleftrightarrow> attempt_count j \<le> max_attempts j + r \<and>
     (status j = Pending \<or> status j = Scheduled \<longrightarrow> attempt_count j < max_attempts j + r)"

lemma reaps_snoc: "reaps k (evs @ [ev]) = reaps k evs + (if is_reap k ev then 1 else 0)"
  by (simp add: reaps_def)

lemma row_effect_counted:
  assumes snap: "snapshots_ok s" and hold: "holders_ok s" and ord: "orderly s ev"
    and row: "get_row k (jobs (sys_db s)) = Some j" and c: "counted r j" and r: "0 \<le> r"
  shows "counted (r + (if is_reap k ev then 1 else 0)) (row_effect S s ev j)"
proof -
  have id: "job_id j = k" using get_row_Some [OF row] by simp
  show ?thesis
  proof (cases ev)
    case (ClaimBy w i now db_now)
    with c show ?thesis by (auto simp: counted_def is_reap_def row_simps claim_guard_def)
  next
    case (ProgressBy w pct)
    with c show ?thesis by (auto simp: counted_def is_reap_def row_simps merge_col_def split: option.split)
  next
    case (FinishBy w now out)
    have "counted r (orm_row l (final_row S now out l) j)" if l: "running s w = Some l" "job_id l = k" for l
    proof -
      obtain j' where "get_row (job_id l) (jobs (sys_db s)) = Some j'" "held_row w l j'"
        by (rule holders_okD [OF hold l(1)])
      with row l(2) have "held_row w l j" by simp
      with c r snapshots_okD(1) [OF snap l(1)] show ?thesis
        by (auto simp: counted_def held_row_def worker_snapshot_def row_simps merge_col_def final_row_def
            retries_def should_retry_def split: run_outcome.split)
    qed
    with FinishBy c id show ?thesis by (auto simp: is_reap_def split: option.split)
  next
    case (RenewBy w i now)
    with c show ?thesis by (auto simp: counted_def is_reap_def row_simps renew_guard_def)
  next
    case (Reap i t)
    with c id show ?thesis by (auto simp: counted_def is_reap_def row_simps reap_guard_def)
  next
    case (Promote i t)
    with c show ?thesis by (auto simp: counted_def is_reap_def row_simps promote_guard_def due_def)
  next
    case (Cleanup t)
    with c show ?thesis by (simp add: counted_def is_reap_def cleanup_set_def)
  next
    case (CancelWrite l)
    with c snapshots_okD(2) [OF snap, of l] show ?thesis
      by (auto simp: counted_def is_reap_def row_simps merge_col_def cancel_snapshot_def)
  next
    case (RetryWrite l now)
    with c ord row id snapshots_okD(3) [OF snap, of l] show ?thesis
      by (auto simp: counted_def is_reap_def row_simps merge_col_def retry_snapshot_def orderly_def)
  qed (use c in \<open>simp_all add: is_reap_def\<close>)
qed

lemma reaps_nonneg: "0 \<le> reaps k evs"
  by (simp add: reaps_def)

lemma orderly_run_counted:
  "run_of S orderly evs s \<Longrightarrow> get_row k (jobs (sys_db s)) = Some j \<Longrightarrow> counted (reaps k evs) j"
proof (induction arbitrary: j rule: run_of.induct)
  case start
  then show ?case by (simp add: initial_def empty_db_def get_row_def)
next
  case (next_event evs s ev)
  have ok: "db_ok (sys_db s)" "snapshots_ok s" "holders_ok s" using orderly_run_ok [OF next_event.hyps(1)] by auto
  show ?case
    using ok(1) next_event.prems
  proof (cases rule: step_row_cases)
    case (old j0)
    with row_effect_counted [OF ok(2,3) next_event.hyps(2) old(1) next_event.IH [OF old(1)] reaps_nonneg]
    show ?thesis by (simp add: reaps_snoc)
  next
    case (new i now data key)
    with reaps_nonneg [of k "evs @ [ev]"] show ?thesis
      by (simp add: counted_def row_simps can_insert_def)
  qed
qed

section \<open>The life cycle in strict runs\<close>

lemma row_effect_cancelled:
  assumes "snapshots_ok s" "status (row_effect S s ev j) = Cancelled" "status j \<noteq> Cancelled"
  obtains l where "ev = CancelWrite l" "l \<in> set (cancelling s)" "job_id j = job_id l"
proof (cases ev)
  case (FinishBy w now out)
  with assms snapshots_okD(1) [OF assms(1), of w] show ?thesis
    by (auto simp: row_simps merge_col_def worker_snapshot_def final_row_def
        split: option.splits run_outcome.splits if_splits)
next
  case (RetryWrite l now)
  with assms show ?thesis by (auto simp: row_simps merge_col_def split: if_splits)
next
  case (ProgressBy w pct)
  with assms show ?thesis by (auto simp: row_simps merge_col_def split: option.splits if_splits)
qed (use assms that in \<open>auto simp: row_simps cleanup_set_def split: if_splits\<close>)

lemma strict_run_processing:
  "run_of S strict evs s \<Longrightarrow> running s w = Some l \<Longrightarrow> get_row (job_id l) (jobs (sys_db s)) = Some j \<Longrightarrow>
    status j = Processing"
proof (induction arbitrary: w l j rule: run_of.induct)
  case start
  then show ?case by (simp add: initial_def)
next
  case (next_event evs s ev)
  have o: "run_of S orderly evs s" "orderly s ev"
    using strict_run_orderly [OF next_event.hyps(1)] next_event.hyps(2) by (simp_all add: strict_def)
  have ok: "db_ok (sys_db s)" "snapshots_ok s" "holders_ok s" "loose_rows_ok s" using orderly_run_ok [OF o(1)] by auto
  obtain j' where j': "get_row (job_id l) (jobs (sys_db (step S ev s))) = Some j'" "held_row w l j'"
    by (rule holders_okD [OF step_holders_ok [OF ok o(2)] next_event.prems(1)])
  have "status j \<noteq> Cancelled"
  proof
    assume canc: "status j = Cancelled"
    show False
    proof (cases "running s w")
      case None
      with next_event.prems(1) obtain i now db_now where ev: "ev = ClaimBy w i now db_now"
        and c: "fst (claim_job now db_now i w (worker_lease_seconds S) (sys_db s)) = Some l"
        by (auto simp: step_running split: event.splits if_splits)
      then obtain d where d: "claim_job now db_now i w (worker_lease_seconds S) (sys_db s) = (Some l, d)"
        by (cases "claim_job now db_now i w (worker_lease_seconds S) (sys_db s)") simp
      from claim_snapshot [OF ok(1) this] ev None d next_event.prems(2) canc show False
        by (auto simp: worker_snapshot_def)
    next
      case (Some l0)
      have id: "job_id l = job_id l0"
        using next_event.prems(1) Some by (auto simp: step_running row_simps split: event.splits if_splits)
      obtain j0 where j0: "get_row (job_id l0) (jobs (sys_db s)) = Some j0" by (rule holders_okD [OF ok(3) Some])
      then have p: "status j0 = Processing" by (rule next_event.IH [OF Some])
      have "j = row_effect S s ev j0"
        using step_row_kept [OF ok(1) j0, of S ev] next_event.prems(2) id by simp
      with canc p obtain c where c: "ev = CancelWrite c" "c \<in> set (cancelling s)" "job_id j0 = job_id c"
        by (metis JobStatus.distinct(23) row_effect_cancelled [OF ok(2)])
      have "job_id j0 = job_id l0" using get_row_Some [OF j0] by simp
      with c next_event.hyps(2) j0 have "status j0 = status c" by (simp add: strict_def)
      with p snapshots_okD(2) [OF ok(2) c(2)] show False by (simp add: cancel_snapshot_def)
    qed
  qed
  with j' next_event.prems(2) show ?case by (auto simp: held_row_def)
qed

lemma row_effect_lifecycle:
  assumes snap: "snapshots_ok s" and ord: "strict s ev"
    and row: "get_row k (jobs (sys_db s)) = Some j"
    and held: "\<And>w l. running s w = Some l \<Longrightarrow> job_id l = k \<Longrightarrow> status j = Processing"
  shows "status (row_effect S s ev j) = status j \<or> lifecycle (status j) (status (row_effect S s ev j))"
proof -
  have id: "job_id j = k" using get_row_Some [OF row] by simp
  show ?thesis
  proof (cases ev)
    case (ClaimBy w i now db_now)
    then show ?thesis by (auto simp: row_simps claim_guard_def)
  next
    case (ProgressBy w pct)
    then show ?thesis by (auto simp: row_simps merge_col_def split: option.split)
  next
    case (FinishBy w now out)
    show ?thesis
    proof (cases "\<exists>l. running s w = Some l \<and> job_id l = k")
      case True
      then obtain l where l: "running s w = Some l" "job_id l = k" by blast
      with held have "status j = Processing" by blast
      moreover have "status l = Processing" using snapshots_okD(1) [OF snap l(1)] by (simp add: worker_snapshot_def)
      ultimately show ?thesis
        using FinishBy l id finalizing.new_lifecycle [of l S now out] by (auto simp: row_simps merge_col_def)
    qed (use FinishBy id in \<open>auto split: option.split\<close>)
  next
    case (Reap i t)
    then show ?thesis by (auto simp: row_simps reap_guard_def expired_def)
  next
    case (Promote i t)
    then show ?thesis by (auto simp: row_simps promote_guard_def due_def)
  next
    case (CancelWrite l)
    with ord row id snapshots_okD(2) [OF snap, of l] show ?thesis
      by (auto simp: strict_def cancel_snapshot_def row_simps merge_col_def)
  next
    case (RetryWrite l now)
    with ord row id snapshots_okD(3) [OF snap, of l] show ?thesis
      by (auto simp: strict_def orderly_def retry_snapshot_def row_simps merge_col_def)
  qed (auto simp: row_simps cleanup_set_def)
qed

section \<open>An example run\<close>

text \<open>From here on a step is known by its effects on the rows and on the workers.\<close>

declare step.simps [simp del]

definition example_data :: JobCreate where
  "example_data = \<lparr>jc_job_type = Report, jc_payload = [], jc_priority = 0, jc_scheduled_at = None\<rparr>"

definition example_run :: "event list" where
  "example_run = [Submit 1 50 example_data None, ClaimBy ''w1'' 1 100 100]"

definition submitted :: system where
  "submitted = step default_settings (Submit 1 50 example_data None) initial"

lemma submitted_row:
  "get_row 1 (jobs (sys_db submitted)) = Some (new_job default_settings 1 50 example_data None)"
  "running submitted = Map.empty" "cancelling submitted = []" "retrying submitted = []"
  "run_of default_settings strict [Submit 1 50 example_data None] submitted"
  "db_ok (sys_db submitted)" "snapshots_ok submitted"
proof -
  have i: "db_ok (sys_db initial)" "get_row 1 (jobs (sys_db initial)) = None"
    by (simp add: initial_def, simp add: initial_def empty_db_def get_row_def)
  then have "can_insert default_settings 1 example_data None (sys_db initial)"
    by (simp add: can_insert_def example_data_def submit_lookup_def)
  with i show "get_row 1 (jobs (sys_db submitted)) = Some (new_job default_settings 1 50 example_data None)"
    unfolding submitted_def by (simp add: step_row fresh_row_def)
  show "running submitted = Map.empty" "cancelling submitted = []" "retrying submitted = []"
    by (simp_all add: submitted_def initial_def step.simps split: sum.split)
  have "run_of default_settings strict ([] @ [Submit 1 50 example_data None]) submitted"
    unfolding submitted_def by (intro run_of.intros) (simp add: strict_def orderly_def)
  then show r: "run_of default_settings strict [Submit 1 50 example_data None] submitted" by simp
  show "db_ok (sys_db submitted)" "snapshots_ok submitted" using reachable_ok [OF run_of_reachable [OF r]] by auto
qed

lemma submitted_claimable:
  "claim_guard 1 100 (new_job default_settings 1 50 example_data None)"
  by (simp add: claim_guard_def row_simps example_data_def)

definition claimed :: system where
  "claimed = step default_settings (ClaimBy ''w1'' 1 100 100) submitted"

lemma claimed_row:
  "run_of default_settings strict example_run claimed"
  "get_row 1 (jobs (sys_db claimed)) = Some (claim_set ''w1'' (100 + seconds 60) 100 (new_job default_settings 1 50 example_data None))"
  "running claimed ''w1'' = Some (claim_set ''w1'' (100 + seconds 60) 100 (new_job default_settings 1 50 example_data None))"
proof -
  have "run_of default_settings strict ([Submit 1 50 example_data None] @ [ClaimBy ''w1'' 1 100 100]) claimed"
    unfolding claimed_def using submitted_row(5) by (rule run_of.next_event) (simp add: strict_def orderly_def)
  then show "run_of default_settings strict example_run claimed" by (simp add: example_run_def)
  show "get_row 1 (jobs (sys_db claimed)) = Some (claim_set ''w1'' (100 + seconds 60) 100 (new_job default_settings 1 50 example_data None))"
    unfolding claimed_def using step_row_kept [OF submitted_row(6,1)] submitted_row(2) submitted_claimable by simp
  show "running claimed ''w1'' = Some (claim_set ''w1'' (100 + seconds 60) 100 (new_job default_settings 1 50 example_data None))"
    unfolding claimed_def
    using claim_job_eq [OF db_ok_distinct [OF submitted_row(6)]] submitted_row(1,2) submitted_claimable
    by (simp add: step_running)
qed

lemma claimed_others: "k \<noteq> 1 \<Longrightarrow> get_row k (jobs (sys_db claimed)) = None"
proof -
  assume k: "k \<noteq> 1"
  then have "get_row k (jobs (sys_db submitted)) = None"
    unfolding submitted_def using reachable_ok [OF reachable.start]
    by (subst step_row) (simp_all add: fresh_row_def initial_def empty_db_def get_row_def)
  with k show "get_row k (jobs (sys_db claimed)) = None"
    unfolding claimed_def by (subst step_row [OF submitted_row(6)]) (simp add: fresh_row_def)
qed

section \<open>Properties\<close>

text \<open>
  C2. In every interleaving of all processes, with crashes at any point and any content of Redis,
  the table satisfies the constraints of the schema (unique ids, unique idempotency keys, progress
  between 0 and 100, counts in range), and a job in processing has an owner and a lease, so that
  the reaper can find it.
\<close>

theorem every_reachable_state_consistent:
  assumes "reachable S s"
  shows "distinct (map job_id (jobs (sys_db s))) \<and> keys_unique (jobs (sys_db s)) \<and>
    (\<forall>j \<in> set (jobs (sys_db s)). 0 \<le> progress_pct j \<and> progress_pct j \<le> 100 \<and> 0 \<le> attempt_count j \<and> 0 < max_attempts j \<and>
      (status j = Processing \<longrightarrow> worker_id j \<noteq> None \<and> leased_until j \<noteq> None))"
proof -
  have ok: "db_ok (sys_db s)" using reachable_ok [OF assms] by simp
  have "owned j" if "j \<in> set (jobs (sys_db s))" for j
    using reachable_owned [OF assms get_row_unique [OF db_ok_distinct [OF ok] that]] .
  with ok show ?thesis by (auto simp: db_ok_def table_ok_def list_all_iff row_ok_def owned_def)
qed

theorem every_reachable_state_consistent_witness:
  "\<exists>j. get_row 1 (jobs (sys_db claimed)) = Some j \<and> worker_id j \<noteq> None"
proof -
  have "reachable default_settings claimed" by (rule run_of_reachable [OF claimed_row(1)])
  from every_reachable_state_consistent [OF this] claimed_row(2) get_row_Some [OF claimed_row(2)]
  show ?thesis by (auto simp: row_simps)
qed

text \<open>
  C1. Mutual exclusion: in every orderly run, whatever cancel requests, crashes and stale Redis
  entries interleave, no two workers are executing one job at the same time, and the row of a job
  in execution names its worker.
\<close>

theorem one_worker_per_job:
  assumes "run_of S orderly evs s" and "running s w = Some l"
  shows "(\<forall>w' l'. running s w' = Some l' \<longrightarrow> job_id l' = job_id l \<longrightarrow> w' = w) \<and>
    (\<exists>j. get_row (job_id l) (jobs (sys_db s)) = Some j \<and> worker_id j = Some w)"
proof -
  have hold: "holders_ok s" using orderly_run_ok [OF assms(1)] by simp
  have "w' = w" if "running s w' = Some l'" "job_id l' = job_id l" for w' l'
    by (rule one_holder [OF hold that(1) assms(2) that(2)])
  moreover have "\<exists>j. get_row (job_id l) (jobs (sys_db s)) = Some j \<and> worker_id j = Some w"
    using holders_okD [OF hold assms(2)] unfolding held_row_def by metis
  ultimately show ?thesis by blast
qed

theorem one_worker_per_job_witness:
  "\<exists>j. get_row 1 (jobs (sys_db claimed)) = Some j \<and> worker_id j = Some ''w1''"
  using one_worker_per_job [OF strict_run_orderly [OF claimed_row(1)] claimed_row(3)]
  by (simp add: row_simps)

text \<open>
  C15. Attempts: in every orderly run a job never counts more attempts than its limit plus the number
  of times the reaper took it back, and while it waits to be claimed it has counted fewer.
\<close>

theorem attempts_bounded:
  assumes "run_of S orderly evs s" and "get_row k (jobs (sys_db s)) = Some j"
  shows "attempt_count j \<le> max_attempts j + reaps k evs \<and>
    (status j = Pending \<or> status j = Scheduled \<longrightarrow> attempt_count j < max_attempts j + reaps k evs)"
  using orderly_run_counted [OF assms] by (simp add: counted_def)

theorem attempts_bounded_witness:
  "\<exists>j. get_row 1 (jobs (sys_db claimed)) = Some j \<and> attempt_count j \<le> max_attempts j"
  using attempts_bounded [OF strict_run_orderly [OF claimed_row(1)] claimed_row(2)] claimed_row(2)
  by (simp add: reaps_def example_run_def is_reap_def)

text \<open>
  C7. Refinement of the life cycle: in a strict run (leases renewed in time, cancel and retry
  requests writing the row they read) every event moves every job along one edge of the documented
  life cycle or leaves its status alone; so a completed or cancelled job stays as it is.
\<close>

theorem strict_runs_follow_lifecycle:
  assumes "run_of S strict evs s" and "strict s ev"
    and "get_row k (jobs (sys_db s)) = Some j" and "get_row k (jobs (sys_db (step S ev s))) = Some j'"
  shows "(status j' = status j \<or> lifecycle (status j) (status j')) \<and>
    (terminal (status j) \<longrightarrow> status j' = status j)"
proof -
  have ok: "db_ok (sys_db s)" "snapshots_ok s" using orderly_run_ok [OF strict_run_orderly [OF assms(1)]] by auto
  have "j' = row_effect S s ev j" using step_row_kept [OF ok(1) assms(3), of S ev] assms(4) by simp
  moreover have "status (row_effect S s ev j) = status j \<or> lifecycle (status j) (status (row_effect S s ev j))"
    by (rule row_effect_lifecycle [OF ok(2) assms(2,3)])
      (use strict_run_processing [OF assms(1)] assms(3) in blast)
  ultimately show ?thesis using terminal_no_edge by blast
qed

theorem strict_runs_follow_lifecycle_witness:
  "lifecycle Pending Processing \<and> (\<exists>j j'. get_row 1 (jobs (sys_db submitted)) = Some j \<and>
     get_row 1 (jobs (sys_db claimed)) = Some j' \<and> status j' \<noteq> status j \<and> lifecycle (status j) (status j'))"
proof -
  have "strict submitted (ClaimBy ''w1'' 1 100 100)" by (simp add: strict_def orderly_def)
  from strict_runs_follow_lifecycle [OF submitted_row(5) this submitted_row(1)
      claimed_row(2) [unfolded claimed_def]] submitted_row(1) claimed_row(2)
  show ?thesis by (simp add: row_simps example_data_def)
qed

end
