(* ===== verification/Refinement.thy ===== *)
theory Refinement
  imports Main
begin

text \<open>
  The interface between two levels of the system model: a detailed machine whose every action is
  seen, through \<open>view\<close>, as a sequence of events of a coarser machine.  What the coarser machine
  guarantees of its reachable states then holds of the detailed one.
\<close>

locale refinement =
  fixes act :: "'a \<Rightarrow> 'c \<Rightarrow> 'c"
    and step :: "'e \<Rightarrow> 's \<Rightarrow> 's"
    and view :: "'c \<Rightarrow> 's"
    and does :: "'a \<Rightarrow> 'c \<Rightarrow> 'e list"
  assumes simulates: "view (act a c) = fold step (does a c) (view c)"
begin

text \<open>The events a sequence of actions shows.\<close>

primrec visible :: "'a list \<Rightarrow> 'c \<Rightarrow> 'e list" where
  "visible [] c = []"
| "visible (a # acts) c = does a c @ visible acts (act a c)"

lemma run_simulates: "view (fold act acts c) = fold step (visible acts c) (view c)"
  by (induction acts arbitrary: c) (simp_all add: simulates)

lemma invariant_transfers:
  assumes "\<And>e s. P s \<Longrightarrow> P (step e s)" "P (view c)"
  shows "P (view (fold act acts c))"
proof -
  have "P s \<Longrightarrow> P (fold step es s)" for es s by (induction es arbitrary: s) (simp_all add: assms(1))
  then show ?thesis using assms(2) by (simp add: run_simulates)
qed

lemma visible_append: "visible (as @ bs) c = visible as c @ visible bs (fold act as c)"
  by (induction as arbitrary: c) simp_all

end

end
