(* ===== verification/Cluster.thy ===== *)
theory Cluster
  imports Orderly Refinement
begin

text \<open>
  The whole system: the processes of \<open>System\<close>, Redis, and the gap between the two.  Every process
  commits to PostgreSQL first and sends its Redis commands afterwards, one by one; in between,
  other processes run, and a process that dies or loses its connection never sends them.  The
  state holds the commands still to be sent, and the id each worker has popped but not yet tried
  to claim.

  An action is one transaction, one Redis command, or a loss.  Dropping the parts Redis plays
  gives a run of \<open>System\<close>, so that all that is proved there holds here.
\<close>

section \<open>State and actions\<close>

datatype command =
    Enqueue uuid int bool
  | Schedule uuid datetime
  | RemovePending uuid
  | RemoveScheduled uuid
  | DeadLetter uuid
  | RemoveDeadLetter uuid

fun send :: "('z, uuid) zset_ops \<Rightarrow> command \<Rightarrow> ('z, 'h) redis \<Rightarrow> ('z, 'h) redis" where
  "send Z (Enqueue i score nx) r = snd (enqueue Z i score nx r)"
| "send Z (Schedule i t) r = snd (schedule Z i t r)"
| "send Z (RemovePending i) r = r\<lparr>jobs_pending := zrem Z i (jobs_pending r)\<rparr>"
| "send Z (RemoveScheduled i) r = remove_scheduled Z i r"
| "send Z (DeadLetter i) r = dead_letter i r"
| "send Z (RemoveDeadLetter i) r = remove_dead_letter i r"

record ('z, 'h) cluster =
  core :: system
  store :: "('z, 'h) redis"
  todo :: "command list"
  hand :: "string \<Rightarrow> uuid option"

datatype action =
    Commit event
  | Send command
  | Lose command
  | Pop string
  | Feed nat datetime
  | Evict uuid

text \<open>The Redis commands that follow a transaction, in the order of the code.\<close>

definition enqueue_command :: "job \<Rightarrow> bool \<Rightarrow> command" where
  "enqueue_command j nx = Enqueue (job_id j) (priority_score (priority j) (created_at j)) nx"

definition dispatch_command :: "job \<Rightarrow> command" where
  "dispatch_command j =
     (case scheduled_at j of Some t \<Rightarrow> Schedule (job_id j) t | None \<Rightarrow> enqueue_command j False)"

fun commands :: "settings \<Rightarrow> system \<Rightarrow> event \<Rightarrow> command list" where
  "commands S s (Submit i now data key) =
     (case insert_row (new_job S i now data key) (jobs (sys_db s)) of
        Inl e \<Rightarrow> [] | Inr rows \<Rightarrow> [dispatch_command (new_job S i now data key)])"
| "commands S s (FinishBy w now out) =
     (case running s w of
        None \<Rightarrow> []
      | Some l \<Rightarrow> if status (final_row S now out l) = Failed then [DeadLetter (job_id l)] else [])"
| "commands S s (Promote i t) =
     RemoveScheduled i #
     (case scalar_one_or_none (fst (update_returning (promote_guard i t) promote_set (jobs (sys_db s)))) of
        None \<Rightarrow> [] | Some j \<Rightarrow> [enqueue_command j False])"
| "commands S s (CancelWrite l) = (if l \<in> set (cancelling s) then [RemovePending (job_id l), RemoveScheduled (job_id l)] else [])"
| "commands S s (RetryWrite l now) = (if l \<in> set (retrying s) then [RemoveDeadLetter (job_id l)] else [])"
| "commands S s ev = []"

text \<open>A worker claims the id it has popped; what it held is gone when it dies.\<close>

fun allowed :: "(string \<Rightarrow> uuid option) \<Rightarrow> event \<Rightarrow> bool" where
  "allowed h (ClaimBy w i now db_now) = (h w = Some i)"
| "allowed h ev = True"

fun hand_after :: "event \<Rightarrow> (string \<Rightarrow> uuid option) \<Rightarrow> string \<Rightarrow> uuid option" where
  "hand_after (ClaimBy w i now db_now) h = h(w := None)"
| "hand_after (Crash w) h = h(w := None)"
| "hand_after ev h = h"

fun act :: "settings \<Rightarrow> ('z, uuid) zset_ops \<Rightarrow> action \<Rightarrow> ('z, 'h) cluster \<Rightarrow> ('z, 'h) cluster" where
  "act S Z (Commit ev) c =
     (if allowed (hand c) ev
      then c\<lparr>core := step S ev (core c), todo := todo c @ commands S (core c) ev, hand := hand_after ev (hand c)\<rparr>
      else c)"
| "act S Z (Send k) c = (if k \<in> set (todo c) then c\<lparr>store := send Z k (store c), todo := remove1 k (todo c)\<rparr> else c)"
| "act S Z (Lose k) c = c\<lparr>todo := remove1 k (todo c)\<rparr>"
| "act S Z (Pop w) c =
     (if hand c w = None \<and> running (core c) w = None
      then let (popped, r) = dequeue Z (store c) in c\<lparr>store := r, hand := (hand c)(w := popped)\<rparr>
      else c)"
| "act S Z (Feed limit t) c =
     c\<lparr>todo := todo c @ map (\<lambda>j. enqueue_command j True) (select_ready limit t (sys_db (core c)))\<rparr>"
| "act S Z (Evict i) c = c\<lparr>store := remove_dead_letter i (remove_job Z i (store c))\<rparr>"

abbreviation execute_all :: "settings \<Rightarrow> ('z, uuid) zset_ops \<Rightarrow> action list \<Rightarrow> ('z, 'h) cluster \<Rightarrow> ('z, 'h) cluster" where
  "execute_all S Z acts c \<equiv> fold (act S Z) acts c"

abbreviation rows_of :: "('z, 'h) cluster \<Rightarrow> uuid \<Rightarrow> job option" where
  "rows_of c i \<equiv> get_row i (jobs (sys_db (core c)))"

text \<open>An empty database and an empty Redis.\<close>

definition fresh_cluster :: "('z, 'h) redis \<Rightarrow> ('z, 'h) cluster" where
  "fresh_cluster r = \<lparr>core = initial, store = r, todo = [], hand = Map.empty\<rparr>"

definition empty_store :: "('z, uuid) zset_ops \<Rightarrow> ('z, 'h) redis \<Rightarrow> bool" where
  "empty_store Z r \<longleftrightarrow> pending_score Z r = Map.empty \<and> scheduled_score Z r = Map.empty \<and> jobs_dead_letter r = []"

section \<open>Refinement of the system\<close>

fun events_of :: "action \<Rightarrow> ('z, 'h) cluster \<Rightarrow> event list" where
  "events_of (Commit ev) c = (if allowed (hand c) ev then [ev] else [])"
| "events_of a c = []"

lemma act_core: "core (act S Z a c) = fold (step S) (events_of a c) (core c)"
  by (cases a) (auto split: prod.split)

interpretation cluster: refinement "act S Z" "step S" core events_of
  by unfold_locales (rule act_core)

lemma fold_reachable: "reachable S s \<Longrightarrow> reachable S (fold (step S) evs s)"
  by (induction evs arbitrary: s) (auto intro: reachable.next_event)

lemma cluster_reachable:
  assumes "reachable S (core c)"
  shows "reachable S (core (execute_all S Z acts c))"
  using cluster.invariant_transfers [of "reachable S" S c Z acts] assms by (blast intro: reachable.next_event)

section \<open>Rows never disappear\<close>

definition extends :: "database \<Rightarrow> database \<Rightarrow> bool" where
  "extends d d' \<longleftrightarrow> (\<forall>i j. get_row i (jobs d) = Some j \<longrightarrow>
     (\<exists>j'. get_row i (jobs d') = Some j' \<and> identity j' = identity j))"

lemma extends_refl [simp]: "extends d d"
  by (simp add: extends_def)

lemma step_extends: "db_ok (sys_db s) \<Longrightarrow> extends (sys_db s) (sys_db (step S ev s))"
  unfolding extends_def using step_row_kept row_effect_identity by blast

lemma extends_known: "extends d d' \<Longrightarrow> get_row i (jobs d) \<noteq> None \<Longrightarrow> get_row i (jobs d') \<noteq> None"
  unfolding extends_def by fastforce

text \<open>What the processes hold in memory are objects of rows that exist.\<close>

definition snapshots_known :: "system \<Rightarrow> bool" where
  "snapshots_known s \<longleftrightarrow>
     (\<forall>l. l \<in> ran (running s) \<union> set (cancelling s) \<union> set (retrying s) \<longrightarrow> get_row (job_id l) (jobs (sys_db s)) \<noteq> None)"

lemma step_snapshots_known:
  assumes ok: "db_ok (sys_db s)" and known: "snapshots_known s"
  shows "snapshots_known (step S ev s)"
  unfolding snapshots_known_def
proof (intro allI impI)
  fix l
  assume l: "l \<in> ran (running (step S ev s)) \<union> set (cancelling (step S ev s)) \<union> set (retrying (step S ev s))"
  have old: "get_row (job_id l) (jobs (sys_db (step S ev s))) \<noteq> None"
    if "l0 \<in> ran (running s) \<union> set (cancelling s) \<union> set (retrying s)" "job_id l0 = job_id l" for l0
    using extends_known [OF step_extends [OF ok]] known that unfolding snapshots_known_def by metis
  have new: "get_row (job_id l) (jobs (sys_db (step S ev s))) \<noteq> None" if "get_row i (jobs (sys_db s)) = Some l" for i
    using extends_known [OF step_extends [OF ok], of i] get_row_Some [OF that] that by simp
  show "get_row (job_id l) (jobs (sys_db (step S ev s))) \<noteq> None"
  proof (cases "l \<in> set (cancelling (step S ev s)) \<union> set (retrying (step S ev s))")
    case True
    then have "l \<in> set (cancelling s) \<union> set (retrying s) \<or> (\<exists>i. get_row i (jobs (sys_db s)) = Some l)"
      by (cases ev)
        (auto simp: step.simps cancel_check_Inr retry_check_Inr get_job_def report_progress_pair
          split: sum.splits option.splits prod.splits if_splits dest: notin_set_remove1)
    with old new show ?thesis by blast
  next
    case False
    with l obtain w where w: "running (step S ev s) w = Some l" by (auto simp: ran_def)
    show ?thesis
    proof (cases "running s w")
      case None
      with w obtain i now db_now where ev: "ev = ClaimBy w i now db_now"
        and c: "fst (claim_job now db_now i w (worker_lease_seconds S) (sys_db s)) = Some l"
        by (auto simp: step_running split: event.splits if_splits)
      then obtain d where d: "claim_job now db_now i w (worker_lease_seconds S) (sys_db s) = (Some l, d)"
        by (cases "claim_job now db_now i w (worker_lease_seconds S) (sys_db s)") simp
      from claim_snapshot [OF ok this] ev None d show ?thesis by (simp add: step.simps)
    next
      case (Some l0)
      with w have "job_id l = job_id l0" by (auto simp: step_running row_simps split: event.splits if_splits)
      with old [of l0] Some show ?thesis by (auto simp: ran_def)
    qed
  qed
qed

section \<open>The typing of Redis over the rows\<close>

text \<open>
  The types of the entries: every id names a row; a pending entry carries the score of its row, a
  scheduled entry the time of its row; the dead letters are at most as many as the cap.
\<close>

fun command_ok :: "database \<Rightarrow> command \<Rightarrow> bool" where
  "command_ok d (Enqueue i score nx) =
     (case get_row i (jobs d) of None \<Rightarrow> False | Some j \<Rightarrow> score = priority_score (priority j) (created_at j))"
| "command_ok d (Schedule i t) = (case get_row i (jobs d) of None \<Rightarrow> False | Some j \<Rightarrow> scheduled_at j = Some t)"
| "command_ok d (RemovePending i) = (get_row i (jobs d) \<noteq> None)"
| "command_ok d (RemoveScheduled i) = True"
| "command_ok d (DeadLetter i) = (get_row i (jobs d) \<noteq> None)"
| "command_ok d (RemoveDeadLetter i) = (get_row i (jobs d) \<noteq> None)"

definition store_ok :: "('z, uuid) zset_ops \<Rightarrow> database \<Rightarrow> ('z, 'h) redis \<Rightarrow> bool" where
  "store_ok Z d r \<longleftrightarrow>
     (\<forall>i x. pending_score Z r i = Some x \<longrightarrow> (\<exists>j. get_row i (jobs d) = Some j \<and> x = job_score j)) \<and>
     (\<forall>i x. scheduled_score Z r i = Some x \<longrightarrow>
        (\<exists>j t. get_row i (jobs d) = Some j \<and> scheduled_at j = Some t \<and> x = timestamp t)) \<and>
     (\<forall>i \<in> set (jobs_dead_letter r). get_row i (jobs d) \<noteq> None) \<and>
     length (jobs_dead_letter r) \<le> DEAD_LETTER_MAX_LEN"

definition well_typed :: "('z, uuid) zset_ops \<Rightarrow> ('z, 'h) cluster \<Rightarrow> bool" where
  "well_typed Z c \<longleftrightarrow> snapshots_known (core c) \<and> store_ok Z (sys_db (core c)) (store c) \<and>
     list_all (command_ok (sys_db (core c))) (todo c) \<and> (\<forall>w i. hand c w = Some i \<longrightarrow> rows_of c i \<noteq> None)"

text \<open>Typing survives whatever happens to the database, \<dots>\<close>

lemma identity_score: "identity j' = identity j \<Longrightarrow> job_score j' = job_score j"
  by (simp add: identity_def job_score_def)

lemma command_ok_extends: "extends d d' \<Longrightarrow> command_ok d k \<Longrightarrow> command_ok d' k"
  using extends_known [of d d'] unfolding extends_def
  by (cases k) (fastforce simp: identity_def split: option.splits)+

lemma store_ok_extends:
  assumes "extends d d'" "store_ok Z d r"
  shows "store_ok Z d' r"
proof -
  have "\<exists>j. get_row i (jobs d') = Some j \<and> x = job_score j" if "pending_score Z r i = Some x" for i x
    using assms that identity_score unfolding store_ok_def extends_def by metis
  moreover have "\<exists>j t. get_row i (jobs d') = Some j \<and> scheduled_at j = Some t \<and> x = timestamp t"
    if s: "scheduled_score Z r i = Some x" for i x
  proof -
    obtain j t where "get_row i (jobs d) = Some j" "scheduled_at j = Some t" "x = timestamp t"
      using assms(2) s unfolding store_ok_def by blast
    with assms(1) show ?thesis unfolding extends_def identity_def by fastforce
  qed
  ultimately show ?thesis
    using assms(2) extends_known [OF assms(1)] unfolding store_ok_def by blast
qed

text \<open>\<dots> and every command that is sent.\<close>

lemma send_ok:
  assumes "job_queue Z" "store_ok Z d r" "command_ok d k"
  shows "store_ok Z d (send Z k r)"
proof (cases k)
  case (Enqueue i score nx)
  with assms show ?thesis
    by (auto simp: store_ok_def job_queue.queue_simps [OF assms(1)] job_score_def split: option.splits)
next
  case (Schedule i t)
  with assms show ?thesis
    by (auto simp: store_ok_def job_queue.queue_simps [OF assms(1)] split: option.splits)
next
  case (DeadLetter i)
  with assms(2,3) show ?thesis
    by (auto simp: store_ok_def dead_letter_def DEAD_LETTER_MAX_LEN_def dest: in_set_takeD)
next
  case (RemoveDeadLetter i)
  with assms(2) show ?thesis
    by (auto simp: store_ok_def remove_dead_letter_def intro: order.trans [OF length_removeAll_less_eq])
next
  case (RemovePending i)
  with assms(2) show ?thesis
    by (auto simp: store_ok_def zset.zrem_scores [OF job_queue.axioms [OF assms(1)]])
qed (use assms(2) in \<open>auto simp: store_ok_def job_queue.queue_simps [OF assms(1)]\<close>)

lemma dispatch_command_ok:
  "get_row (job_id j) (jobs d) = Some j \<Longrightarrow> command_ok d (dispatch_command j)"
  by (simp add: dispatch_command_def enqueue_command_def split: option.split)

lemma commands_ok:
  assumes ok: "db_ok (sys_db s)" and known: "snapshots_known s"
  shows "list_all (command_ok (sys_db (step S ev s))) (commands S s ev)"
proof -
  note kept = extends_known [OF step_extends [OF ok]]
  show ?thesis
  proof (cases ev)
    case (Submit i now data key)
    show ?thesis
    proof (cases "can_insert S i data key (sys_db s)")
      case True
      then have "get_row i (jobs (sys_db s)) = None" by (simp add: can_insert_def)
      with True Submit have "get_row i (jobs (sys_db (step S ev s))) = Some (new_job S i now data key)"
        by (simp add: step_row [OF ok] fresh_row_def)
      with Submit show ?thesis by (auto simp: row_simps intro!: dispatch_command_ok split: sum.split)
    qed (use Submit in \<open>simp add: insert_new_job\<close>)
  next
    case (FinishBy w now out)
    then show ?thesis
      using kept [of _ S ev] known by (auto simp: snapshots_known_def ran_def split: option.split)
  next
    case (Promote i t)
    have "command_ok (sys_db (step S ev s)) (enqueue_command j False)"
      if "scalar_one_or_none (fst (update_returning (promote_guard i t) promote_set (jobs (sys_db s)))) = Some j" (is ?hit) for j
    proof -
      from that have hit: ?hit .
      obtain j0 where j0: "get_row i (jobs (sys_db s)) = Some j0" "j = promote_set j0" "promote_guard i t j0"
        using hit promoting.sweep_hit [OF db_ok_distinct [OF ok], of i t] by (auto split: option.splits if_splits)
      then have "get_row i (jobs (sys_db (step S ev s))) = Some j"
        using step_row_kept [OF ok j0(1), of S ev] Promote by simp
      with get_row_Some [OF j0(1)] j0(2) show ?thesis by (simp add: enqueue_command_def row_simps)
    qed
    with Promote show ?thesis by (auto split: option.split)
  next
    case (CancelWrite l)
    then show ?thesis using kept [of "job_id l" S ev] known by (auto simp: snapshots_known_def)
  next
    case (RetryWrite l now)
    then show ?thesis using kept [of "job_id l" S ev] known by (auto simp: snapshots_known_def)
  qed simp_all
qed

lemma commit_well_typed:
  assumes ok: "db_ok (sys_db (core c))" and typed: "well_typed Z c" and allowed: "allowed (hand c) ev"
  shows "well_typed Z (act S Z (Commit ev) c)"
proof -
  note [simp] = well_typed_def
  let ?d = "sys_db (step S ev (core c))"
  have ext: "extends (sys_db (core c)) ?d" by (rule step_extends [OF ok])
  have "list_all (command_ok ?d) (todo c)"
    using typed command_ok_extends [OF ext] by (auto simp: list_all_iff)
  moreover have "get_row i (jobs ?d) \<noteq> None" if "hand_after ev (hand c) w = Some i" for w i
  proof -
    have "hand c w = Some i" using that by (cases ev) (auto split: if_splits)
    with typed extends_known [OF ext] show ?thesis by auto
  qed
  ultimately show ?thesis
    using allowed typed step_snapshots_known [OF ok] store_ok_extends [OF ext, of Z "store c"] commands_ok [OF ok] by simp
qed

lemma dequeue_store_ok:
  assumes Z: "job_queue Z" and ok: "store_ok Z d r" and dq: "dequeue Z r = (popped, r')"
  shows "store_ok Z d r'" "popped = Some i \<Longrightarrow> get_row i (jobs d) \<noteq> None"
proof -
  have "store_ok Z d r' \<and> (\<forall>i. popped = Some i \<longrightarrow> get_row i (jobs d) \<noteq> None)"
  proof (cases popped)
    case None
    with dq job_queue.dequeue_empty [OF Z, of r r'] ok show ?thesis by simp
  next
    case (Some i)
    then obtain x where x: "pending_score Z r i = Some x" and "pending_score Z r' = (pending_score Z r)(i := None)"
      using dq job_queue.dequeue_Some [OF Z] by metis
    moreover have "jobs_scheduled r' = jobs_scheduled r" "jobs_dead_letter r' = jobs_dead_letter r"
      using redis_frame(6,7) [of Z r] dq by simp_all
    moreover have "get_row i (jobs d) \<noteq> None" using x ok unfolding store_ok_def by blast
    ultimately show ?thesis using ok Some by (auto simp: store_ok_def)
  qed
  then show "store_ok Z d r'" "popped = Some i \<Longrightarrow> get_row i (jobs d) \<noteq> None" by blast+
qed

lemma act_well_typed:
  assumes Z: "job_queue Z" and ok: "db_ok (sys_db (core c))" and typed: "well_typed Z c"
  shows "well_typed Z (act S Z a c)"
proof -
  note [simp] = well_typed_def
  show ?thesis
  proof (cases a)
    case (Commit ev)
    with commit_well_typed [OF ok typed, of ev S] typed show ?thesis by (cases "allowed (hand c) ev") simp_all
  next
    case (Send k)
    then show ?thesis
      using typed send_ok [OF Z, of "sys_db (core c)" "store c" k] set_remove1_subset [of k "todo c"]
      by (auto simp: list_all_iff)
  next
    case (Lose k)
    then show ?thesis using typed set_remove1_subset [of k "todo c"] by (auto simp: list_all_iff)
  next
    case (Pop w)
    obtain popped r where d: "dequeue Z (store c) = (popped, r)" by fastforce
    have "store_ok Z (sys_db (core c)) (store c)" using typed by simp
    from dequeue_store_ok [OF Z this d] Pop d typed show ?thesis by auto
  next
    case (Feed limit t)
    have "command_ok (sys_db (core c)) (enqueue_command j True)"
      if "j \<in> set (select_ready limit t (sys_db (core c)))" for j
    proof -
      have "j \<in> set (jobs (sys_db (core c)))" using that set_select_rows unfolding select_ready_def by blast
      with get_row_unique [OF db_ok_distinct [OF ok]] show ?thesis by (simp add: enqueue_command_def)
    qed
    with Feed typed show ?thesis by (auto simp: list_all_iff)
  next
    case (Evict i)
    have "store_ok Z (sys_db (core c)) (remove_job Z i (store c))"
      using typed by (auto simp: store_ok_def job_queue.queue_simps [OF Z])
    then have "store_ok Z (sys_db (core c)) (remove_dead_letter i (remove_job Z i (store c)))"
      by (auto simp: store_ok_def remove_dead_letter_def intro: order.trans [OF length_removeAll_less_eq])
    with Evict typed show ?thesis by simp
  qed
qed

lemma execute_well_typed:
  assumes "job_queue Z" "reachable S (core c)" "well_typed Z c"
  shows "well_typed Z (execute_all S Z acts c)"
  using assms(2,3)
proof (induction acts arbitrary: c)
  case (Cons a acts)
  have "well_typed Z (act S Z a c)"
    using act_well_typed [OF assms(1)] Cons.prems reachable_ok by blast
  with Cons.IH cluster_reachable [OF Cons.prems(1), of Z "[a]"] show ?case by simp
qed simp

lemma fresh_cluster_ok:
  assumes "empty_store Z r"
  shows "reachable S (core (fresh_cluster r))" "well_typed Z (fresh_cluster r)"
  using assms reachable.start [of S]
  by (simp_all add: fresh_cluster_def well_typed_def snapshots_known_def store_ok_def empty_store_def)
    (simp add: initial_def)

section \<open>Submissions within a window of time\<close>

definition accepted_in :: "datetime \<Rightarrow> datetime \<Rightarrow> action \<Rightarrow> bool" where
  "accepted_in lo hi a \<longleftrightarrow>
     (case a of
        Commit (Submit i now data key) \<Rightarrow> \<bar>jc_priority data\<bar> \<le> 1000 \<and> lo \<le> now \<and> now \<le> hi
      | _ \<Rightarrow> True)"

definition rows_in :: "datetime \<Rightarrow> datetime \<Rightarrow> system \<Rightarrow> bool" where
  "rows_in lo hi s \<longleftrightarrow> (\<forall>k j. get_row k (jobs (sys_db s)) = Some j \<longrightarrow>
     \<bar>priority j\<bar> \<le> 1000 \<and> lo \<le> created_at j \<and> created_at j \<le> hi)"

lemma act_rows_in:
  assumes ok: "db_ok (sys_db (core c))" and rows: "rows_in lo hi (core c)" and a: "accepted_in lo hi a"
  shows "rows_in lo hi (core (act S Z a c))"
proof (cases "\<exists>ev. a = Commit ev \<and> allowed (hand c) ev")
  case True
  then obtain ev where ev: "a = Commit ev" "allowed (hand c) ev" by blast
  have "\<bar>priority j\<bar> \<le> 1000 \<and> lo \<le> created_at j \<and> created_at j \<le> hi"
    if row: "get_row k (jobs (sys_db (step S ev (core c)))) = Some j" for k j
    using ok row
  proof (cases rule: step_row_cases)
    case (old j0)
    then have "identity j = identity j0" by (simp add: row_effect_identity)
    with old(1) rows show ?thesis by (simp add: rows_in_def identity_def)
  next
    case (new i now data key)
    with a ev(1) show ?thesis by (simp add: accepted_in_def row_simps)
  qed
  with ev show ?thesis by (simp add: rows_in_def)
next
  case False
  then have "events_of a c = []" by (cases a) auto
  with rows show ?thesis by (simp add: act_core)
qed

lemma execute_rows_in:
  assumes "reachable S (core c)" "rows_in lo hi (core c)" "list_all (accepted_in lo hi) acts"
  shows "rows_in lo hi (core (execute_all S Z acts c))"
  using assms
proof (induction acts arbitrary: c)
  case (Cons a acts)
  have "rows_in lo hi (core (act S Z a c))"
    using Cons.prems reachable_ok [OF Cons.prems(1)] by (simp add: act_rows_in)
  with Cons cluster_reachable [OF Cons.prems(1), of Z "[a]"] show ?case by simp
qed simp

lemma typed_scored_by:
  assumes typed: "well_typed Z c" and rows: "rows_in lo hi (core c)"
    and window: "0 \<le> lo" "hi \<le> max_time" "hi - lo \<le> 10 ^ 15 - 3000"
  shows "scored_by Z (\<lambda>i. priority (the (rows_of c i))) (\<lambda>i. created_at (the (rows_of c i))) (store c)"
proof -
  have entry: "\<exists>j. rows_of c m = Some j \<and> x = job_score j \<and> \<bar>priority j\<bar> \<le> 1000 \<and> lo \<le> created_at j \<and> created_at j \<le> hi"
    if "pending_score Z (store c) m = Some x" for m x
    using typed rows that unfolding well_typed_def store_ok_def rows_in_def by blast
  have "created_at (the (rows_of c m)) - created_at (the (rows_of c n)) \<le> 10 ^ 15 - 3000"
    if m: "pending_score Z (store c) m \<noteq> None" and n: "pending_score Z (store c) n \<noteq> None" for m n
  proof -
    obtain jm jn where "rows_of c m = Some jm" "created_at jm \<le> hi" "rows_of c n = Some jn" "lo \<le> created_at jn"
      using entry m n by blast
    with window(3) show ?thesis by simp
  qed
  moreover have "x = rnd53 (of_int (priority_score (priority (the (rows_of c m))) (created_at (the (rows_of c m))))) \<and>
      \<bar>priority (the (rows_of c m))\<bar> \<le> 1000 \<and> 0 \<le> created_at (the (rows_of c m)) \<and> created_at (the (rows_of c m)) \<le> max_time"
    if "pending_score Z (store c) m = Some x" for m x
    using entry [OF that] window(1,2) by (auto simp: job_score_def)
  ultimately show ?thesis unfolding scored_by_def by blast
qed

section \<open>An example\<close>

definition example_actions :: "action list" where
  "example_actions = [Commit (Submit 1 50 example_data None), Send (Enqueue 1 (priority_score 0 50) False)]"

definition queued :: "(uuid alist_zset, string alist_zset) cluster" where
  "queued = execute_all default_settings list_zset example_actions (fresh_cluster empty_redis)"

lemma empty_redis_store [simp]: "empty_store list_zset empty_redis"
  by (simp add: empty_store_def empty_redis_def)

lemma queued_state:
  "core queued = submitted" "todo queued = []" "hand queued = Map.empty"
  "jobs_pending (store queued) = [(1, rnd53 (of_int (priority_score 0 50)))]"
proof -
  have ci: "can_insert default_settings 1 example_data None (sys_db initial)"
    by (simp add: can_insert_def example_data_def submit_lookup_def initial_def empty_db_def get_row_def)
  have d: "dispatch_command (new_job default_settings 1 50 example_data None) = Enqueue 1 (priority_score 0 50) False"
    by (simp add: dispatch_command_def enqueue_command_def row_simps example_data_def)
  show "core queued = submitted" "todo queued = []" "hand queued = Map.empty"
    "jobs_pending (store queued) = [(1, rnd53 (of_int (priority_score 0 50)))]"
    using ci by (simp_all add: queued_def example_actions_def fresh_cluster_def submitted_def insert_new_job d
        enqueue_def list_zset_def empty_redis_def)
qed

section \<open>Properties\<close>

text \<open>
  C3. Typing of Redis: after any actions of any processes, with commands delayed, lost or sent in any
  interleaving and entries of Redis lost at will, every id in Redis or in a worker's hand names a
  row of the table; every pending entry carries the score of its row and every scheduled entry its
  time; and the dead-letter list is never longer than its cap.
\<close>

theorem redis_entries_typed:
  assumes "job_queue Z" and "empty_store Z r" and "c = execute_all S Z acts (fresh_cluster r)"
  shows "(\<forall>i x. pending_score Z (store c) i = Some x \<longrightarrow>
      (\<exists>j. rows_of c i = Some j \<and> x = rnd53 (of_int (priority_score (priority j) (created_at j))))) \<and>
    (\<forall>i x. scheduled_score Z (store c) i = Some x \<longrightarrow>
      (\<exists>j t. rows_of c i = Some j \<and> scheduled_at j = Some t \<and> x = timestamp t)) \<and>
    (\<forall>i \<in> set (jobs_dead_letter (store c)). rows_of c i \<noteq> None) \<and>
    dead_letter_depth (store c) \<le> DEAD_LETTER_MAX_LEN \<and>
    (\<forall>w i. hand c w = Some i \<longrightarrow> rows_of c i \<noteq> None)"
  using execute_well_typed [OF assms(1) fresh_cluster_ok [OF assms(2)], of S acts]
  unfolding assms(3) well_typed_def store_ok_def job_score_def dead_letter_depth_def by blast

theorem redis_entries_typed_witness:
  "\<exists>j. rows_of queued 1 = Some j \<and> rnd53 (of_int (priority_score 0 50)) = rnd53 (of_int (priority_score (priority j) (created_at j)))"
  using redis_entries_typed [OF list_queue empty_redis_store queued_def] by (simp add: queued_state(4))

text \<open>
  C13. Dispatch order of the whole system: when all submissions had accepted priorities and came
  within 31 years, then in every state the id a worker pops belongs to a row of the highest
  priority among all rows queued, and of the oldest creation millisecond among these; and
  exactly that entry leaves the queue.
\<close>

theorem pops_highest_priority_first:
  assumes "job_queue Z" and "empty_store Z r" and "c = execute_all S Z acts (fresh_cluster r)"
    and "list_all (accepted_in lo hi) acts" and "0 \<le> lo" and "hi \<le> max_time" and "hi - lo \<le> 10 ^ 15 - 3000"
    and "hand c w = None" and "hand (act S Z (Pop w) c) w = Some i"
  shows "\<exists>j. rows_of c i = Some j \<and> pending_score Z (store c) i \<noteq> None \<and>
    pending_score Z (store (act S Z (Pop w) c)) = (pending_score Z (store c))(i := None) \<and>
    (\<forall>m k. pending_score Z (store c) m \<noteq> None \<and> rows_of c m = Some k \<longrightarrow>
      priority k < priority j \<or>
      priority k = priority j \<and> created_at_epoch_ms (created_at j) \<le> created_at_epoch_ms (created_at k))"
proof -
  have typed: "well_typed Z c"
    unfolding assms(3) by (rule execute_well_typed [OF assms(1) fresh_cluster_ok [OF assms(2)]])
  have "rows_in lo hi (core (fresh_cluster r))"
    by (simp add: rows_in_def fresh_cluster_def initial_def empty_db_def get_row_def)
  then have "rows_in lo hi (core c)"
    unfolding assms(3) by (rule execute_rows_in [OF fresh_cluster_ok(1) [OF assms(2)] _ assms(4)])
  note sc = typed_scored_by [OF typed this assms(5-7)]
  obtain popped r' where d: "dequeue Z (store c) = (popped, r')" by fastforce
  then have "dequeue Z (store c) = (Some i, r')" "store (act S Z (Pop w) c) = r'"
    using assms(8,9) by (auto split: if_splits)
  moreover from this(1) have "pending_score Z (store c) i \<noteq> None"
    using job_queue.dequeue_Some [OF assms(1)] by (metis option.distinct(1))
  moreover from this obtain j where "rows_of c i = Some j"
    using typed unfolding well_typed_def store_ok_def by blast
  ultimately show ?thesis using dequeue_highest_priority_first [OF assms(1) sc] by fastforce
qed

theorem pops_highest_priority_first_witness:
  "\<exists>j. rows_of queued 1 = Some j \<and> pending_score list_zset (store (act default_settings list_zset (Pop ''w1'') queued)) = Map.empty"
proof -
  have acc: "list_all (accepted_in 0 100) example_actions"
    by (simp add: example_actions_def accepted_in_def example_data_def)
  have "fst (dequeue list_zset (store queued)) = Some 1"
    by (simp add: dequeue_def queued_state(4) list_zset_def zsorted_def)
  then have "hand (act default_settings list_zset (Pop ''w1'') queued) ''w1'' = Some 1"
    by (cases "dequeue list_zset (store queued)") (simp add: queued_state submitted_row(2))
  from pops_highest_priority_first [OF list_queue empty_redis_store queued_def acc _ _ _ _ this]
  show ?thesis by (auto simp: queued_state max_time_def submitted_row(2))
qed

end
