(* ===== verification/Operations.thy ===== *)
theory Operations
  imports Cluster
begin

text \<open>
  The two readings of the program agree.  The component theories model an operation as one
  function on the database and Redis; \<open>Cluster\<close> models the system as actions of interleaved
  processes.  Here every operation, run without interruption, is a sequence of actions: it ends
  in the database and the Redis the function computes, and leaves nothing else changed.  So every
  sequence of operations is a run of the cluster, and what holds of all runs holds of it.
\<close>

section \<open>Runs that end with nothing left to do\<close>

definition realises ::
    "settings \<Rightarrow> ('z, uuid) zset_ops \<Rightarrow> ('z, 'h) cluster \<Rightarrow> database \<times> ('z, 'h) redis \<Rightarrow> bool" where
  "realises S Z c st \<longleftrightarrow>
     (\<exists>acts. execute_all S Z acts c = c\<lparr>core := (core c)\<lparr>sys_db := fst st\<rparr>, store := snd st\<rparr>)"

abbreviation with_state :: "('z, 'h) cluster \<Rightarrow> database \<times> ('z, 'h) redis \<Rightarrow> ('z, 'h) cluster" where
  "with_state c st \<equiv> c\<lparr>core := (core c)\<lparr>sys_db := fst st\<rparr>, store := snd st\<rparr>"

lemma realisesI: "execute_all S Z acts c = with_state c st \<Longrightarrow> realises S Z c st"
  unfolding realises_def by blast

lemma realises_refl: "realises S Z c (sys_db (core c), store c)"
  by (rule realisesI [of S Z "[]"]) simp

lemma realises_trans:
  assumes "realises S Z c st" "realises S Z (with_state c st) st'"
  shows "realises S Z c st'"
proof -
  obtain as where a: "execute_all S Z as c = with_state c st" using assms(1) unfolding realises_def by blast
  obtain bs where b: "execute_all S Z bs (with_state c st) = with_state (with_state c st) st'"
    using assms(2) unfolding realises_def by blast
  have "execute_all S Z (as @ bs) c = with_state c st'"
    by (simp only: fold_append comp_apply a b) simp
  then show ?thesis by (rule realisesI)
qed

text \<open>A process that sends its commands right away.\<close>

lemma send_all:
  "execute_all S Z (map Send ks) (c\<lparr>todo := ks\<rparr>) = c\<lparr>store := fold (send Z) ks (store c), todo := []\<rparr>"
  by (induction ks arbitrary: c) simp_all

lemma commit_and_send:
  assumes "todo c = []" "allowed (hand c) ev"
  shows "execute_all S Z (Commit ev # map Send (commands S (core c) ev)) c =
    c\<lparr>core := step S ev (core c), store := fold (send Z) (commands S (core c) ev) (store c), hand := hand_after ev (hand c)\<rparr>"
  using assms send_all [of S Z "commands S (core c) ev" "c\<lparr>core := step S ev (core c), hand := hand_after ev (hand c)\<rparr>"]
  by (cases c) simp

lemma realises_commit:
  assumes "todo c = []" "allowed (hand c) ev" "hand_after ev (hand c) = hand c"
    and "step S ev (core c) = (core c)\<lparr>sys_db := d\<rparr>"
  shows "realises S Z c (d, fold (send Z) (commands S (core c) ev) (store c))"
proof (rule realisesI)
  show "execute_all S Z (Commit ev # map Send (commands S (core c) ev)) c =
      with_state c (d, fold (send Z) (commands S (core c) ev) (store c))"
    unfolding commit_and_send [OF assms(1,2)] by (simp add: assms(3,4))
qed

section \<open>The operations of the API\<close>

lemma send_dispatch: "send Z (dispatch_command j) r = submit_dispatch Z j r"
  by (simp add: dispatch_command_def submit_dispatch_def enqueue_command_def split: option.split)

lemma submit_new_realised:
  assumes "todo c = []"
  shows "realises S Z c (snd (submit_new S Z i now data key (sys_db (core c)) (store c)))"
proof (cases "insert_row (new_job S i now data key) (jobs (sys_db (core c)))")
  case (Inl e)
  then show ?thesis by (simp add: submit_new_eq Let_def realises_refl)
next
  case (Inr rows)
  let ?j = "new_job S i now data key"
  let ?d = "(sys_db (core c))\<lparr>jobs := rows, job_logs := job_logs (sys_db (core c)) @ created_log ?j\<rparr>"
  have "step S (Submit i now data key) (core c) = (core c)\<lparr>sys_db := ?d\<rparr>"
    using Inr commit_logs_after_insert [OF Inr] by (simp add: step.simps)
  from realises_commit [OF assms _ _ this, of Z] show ?thesis
    using Inr by (simp add: submit_new_eq Let_def send_dispatch)
qed

lemma submit_job_realised:
  assumes "todo c = []"
  shows "realises S Z c (snd (submit_job S Z i now data idem (sys_db (core c)) (store c)))"
  using submit_new_realised [OF assms] realises_refl
  by (auto simp: submit_job_def split: sum.split option.split)

lemma cancel_job_realised:
  assumes "todo c = []"
  shows "realises S Z c (snd (cancel_job Z i (sys_db (core c)) (store c)))"
proof (cases "cancel_check i (get_job (sys_db (core c)) i)")
  case (Inl e)
  then show ?thesis by (simp add: cancel_job_def realises_refl)
next
  case (Inr j)
  then have "job_id j = i" by (auto simp: cancel_check_Inr get_job_def dest: get_row_Some)
  with Inr assms show ?thesis
    by (intro realisesI [of S Z "[Commit (CancelRead i), Commit (CancelWrite j), Send (RemovePending i), Send (RemoveScheduled i)]"])
      (simp add: step.simps cancel_job_def remove_job_def remove_scheduled_def Let_def)
qed

lemma manual_retry_realised:
  assumes "todo c = []"
  shows "realises S Z c (snd (manual_retry now i (sys_db (core c)) (store c)))"
proof (cases "retry_check i (get_job (sys_db (core c)) i)")
  case (Inl e)
  then show ?thesis by (simp add: manual_retry_def realises_refl)
next
  case (Inr j)
  with assms show ?thesis
    by (intro realisesI [of S Z "[Commit (RetryRead i), Commit (RetryWrite j now), Send (RemoveDeadLetter (job_id j))]"])
      (simp add: step.simps manual_retry_def Let_def)
qed

section \<open>The cycles of the maintenance process\<close>

lemma feeder_realised:
  assumes "todo c = []"
  shows "realises S Z c (sys_db (core c), snd (promote_ready_jobs Z limit t (sys_db (core c)) (store c)))"
proof (rule realisesI)
  let ?js = "select_ready limit t (sys_db (core c))"
  let ?ks = "map (\<lambda>j. enqueue_command j True) ?js"
  have feed: "snd (fold (feed_one Z) js (n, r)) = fold (send Z) (map (\<lambda>j. enqueue_command j True) js) r" for js n r
    by (induction js arbitrary: n r) (simp_all add: feed_one_def enqueue_command_def case_prod_unfold Let_def)
  show "execute_all S Z (Feed limit t # map Send ?ks) c =
      with_state c (sys_db (core c), snd (promote_ready_jobs Z limit t (sys_db (core c)) (store c)))"
    using send_all [of S Z ?ks c] feed [of ?js 0 "store c"] assms
    by (cases c) (simp add: promote_ready_jobs_def del: map_map)
qed

lemma cleanup_realised:
  "todo c = [] \<Longrightarrow> realises S Z c (snd (cleanup_expired_idempotency_keys t (sys_db (core c))), store c)"
  by (rule realisesI [of S Z "[Commit (Cleanup t)]"]) (simp add: step.simps)

lemma reap_one_realised:
  "todo c = [] \<Longrightarrow> realises S Z c (snd (reap_one t i (n, sys_db (core c))), store c)"
  by (rule realisesI [of S Z "[Commit (Reap i t)]"])
    (simp add: step.simps reap_one_def case_prod_unfold Let_def split: option.split)

lemma fold_reap_realised:
  "todo c = [] \<Longrightarrow> realises S Z c (snd (fold (\<lambda>i. reap_one (clk i) i) ids (n, sys_db (core c))), store c)"
proof (induction ids arbitrary: c n)
  case (Cons i ids)
  obtain n' d where one: "reap_one (clk i) i (n, sys_db (core c)) = (n', d)" by fastforce
  have "realises S Z c (d, store c)" using reap_one_realised [OF Cons.prems, of S Z "clk i" i n] one by simp
  from realises_trans [OF this] Cons.IH [of "with_state c (d, store c)" n'] Cons.prems one show ?case by simp
qed (simp add: realises_refl)

lemma reaper_realised:
  "todo c = [] \<Longrightarrow> realises S Z c (snd (reap_expired_leases limit t clk (sys_db (core c))), store c)"
  unfolding reap_expired_leases_def by (rule fold_reap_realised)

lemma promote_one_realised:
  assumes "todo c = []"
  shows "realises S Z c (snd (promote_one Z t i (n, sys_db (core c), store c)))"
proof -
  let ?hit = "scalar_one_or_none (fst (update_returning (promote_guard i t) promote_set (jobs (sys_db (core c)))))"
  let ?d = "fst (snd (promote_one Z t i (n, sys_db (core c), store c)))"
  have "step S (Promote i t) (core c) = (core c)\<lparr>sys_db := ?d\<rparr>"
    by (simp add: step.simps promote_one_def case_prod_unfold Let_def split: option.split)
  moreover have "snd (snd (promote_one Z t i (n, sys_db (core c), store c))) =
      fold (send Z) (commands S (core c) (Promote i t)) (store c)"
    by (simp add: promote_one_def case_prod_unfold Let_def enqueue_command_def split: option.split)
  ultimately show ?thesis
    using realises_commit [OF assms, of "Promote i t" S ?d Z] by (metis allowed.simps(9) hand_after.simps(9) prod.collapse)
qed

lemma fold_promote_realised:
  "todo c = [] \<Longrightarrow> realises S Z c (snd (fold (\<lambda>i. promote_one Z (clk i) i) ids (n, sys_db (core c), store c)))"
proof (induction ids arbitrary: c n)
  case (Cons i ids)
  obtain n' d r where one: "promote_one Z (clk i) i (n, sys_db (core c), store c) = (n', d, r)" by (metis prod.exhaust)
  have "realises S Z c (d, r)" using promote_one_realised [OF Cons.prems, of S Z "clk i" i n] one by simp
  from realises_trans [OF this] Cons.IH [of "with_state c (d, r)" n'] Cons.prems one show ?case by simp
qed (simp add: realises_refl)

lemma scheduler_realised:
  "todo c = [] \<Longrightarrow>
    realises S Z c (snd (promote_due_scheduled Z limit moment clk (sys_db (core c)) (store c)))"
  unfolding promote_due_scheduled_def by (rule fold_promote_realised)

section \<open>The executor\<close>

text \<open>The actions of one round, as far as it gets.\<close>

definition run_actions :: "settings \<Rightarrow> string \<Rightarrow> run_env \<Rightarrow> job \<Rightarrow> action list" where
  "run_actions S w env job =
     (let (pcts, out) = execute S env job in
      Commit (StartBy w) # map (\<lambda>p. Commit (ProgressBy w p)) pcts @ [Commit (FinishBy w (clk_done env) out)] @
      (if status (final_row S (clk_done env) out (after_reports pcts job)) = Failed then [Send (DeadLetter (job_id job))] else []))"

definition process_actions ::
    "settings \<Rightarrow> ('z, uuid) zset_ops \<Rightarrow> string \<Rightarrow> run_env \<Rightarrow> database \<times> ('z, 'h) redis \<Rightarrow> action list" where
  "process_actions S Z w env = (\<lambda>(db, r).
     Pop w #
     (case fst (dequeue Z r) of
        None \<Rightarrow> []
      | Some i \<Rightarrow> Commit (ClaimBy w i (clk_claim env) (clk_db env)) #
          (case fst (claim_job (clk_claim env) (clk_db env) i w (worker_lease_seconds S) db) of
             None \<Rightarrow> []
           | Some job \<Rightarrow> run_actions S w env job)))"

lemma fst_fold_reports: "fst (fold report_progress ps (l, d)) = after_reports ps l"
  by (induction ps arbitrary: l d) (simp_all add: after_reports_def report_progress_pair)

lemma after_reports_Cons: "after_reports (p # ps) l = after_reports ps (progress_values p l)"
  by (simp add: after_reports_def)

lemma progress_run:
  assumes "running (core c) w = Some l"
  shows "execute_all S Z (map (\<lambda>p. Commit (ProgressBy w p)) ps) c =
    c\<lparr>core := (core c)\<lparr>sys_db := snd (fold report_progress ps (l, sys_db (core c))),
                       running := (running (core c))(w \<mapsto> after_reports ps l)\<rparr>\<rparr>"
  using assms
proof (induction ps arbitrary: c l)
  case Nil
  then show ?case by (cases c) (simp add: after_reports_def fun_upd_idem)
next
  case (Cons p ps)
  let ?c = "act S Z (Commit (ProgressBy w p)) c"
  have c1: "?c = c\<lparr>core := (core c)\<lparr>sys_db := orm_commit l (progress_values p l) [] (sys_db (core c)),
      running := (running (core c))(w \<mapsto> progress_values p l)\<rparr>\<rparr>"
    using Cons.prems by (simp add: step.simps report_progress_pair)
  then have "running (core ?c) w = Some (progress_values p l)" by simp
  from Cons.IH [OF this] show ?case
    unfolding list.map fold_Cons comp_apply c1 by (simp add: report_progress_pair after_reports_Cons cong: if_cong)
qed

lemma finalize_db: "fst (finalize S now out job (d, r)) = fst (finalize S now out job (d, r'))"
  by (cases out) (simp_all add: finalize_eq row_simps)

text \<open>From the successful claim on: up to the last commit, and with the dead letter sent.\<close>

definition finish_actions :: "settings \<Rightarrow> string \<Rightarrow> run_env \<Rightarrow> job \<Rightarrow> action list" where
  "finish_actions S w env job =
     (let (pcts, out) = execute S env job in
      Commit (StartBy w) # map (\<lambda>p. Commit (ProgressBy w p)) pcts @ [Commit (FinishBy w (clk_done env) out)])"

definition finish_commands :: "settings \<Rightarrow> datetime \<Rightarrow> run_outcome \<Rightarrow> job \<Rightarrow> command list" where
  "finish_commands S now out job = (if status (final_row S now out job) = Failed then [DeadLetter (job_id job)] else [])"

lemma finish_actions_execute:
  assumes run: "running (core c) w = Some job" and idle: "todo c = []"
    and ex: "execute S env job = (pcts, out)"
    and rep: "fold report_progress pcts (job, start_commit w job (sys_db (core c))) = (job', d)"
  shows "execute_all S Z (finish_actions S w env job) c =
    c\<lparr>core := (core c)\<lparr>sys_db := fst (finalize S (clk_done env) out job' (d, r)), running := (running (core c))(w := None)\<rparr>,
      todo := finish_commands S (clk_done env) out job'\<rparr>"
proof -
  let ?c1 = "c\<lparr>core := (core c)\<lparr>sys_db := start_commit w job (sys_db (core c))\<rparr>\<rparr>"
  have job': "job' = after_reports pcts job" using fst_fold_reports [of pcts job "start_commit w job (sys_db (core c))"] rep by simp
  let ?c2 = "?c1\<lparr>core := (core ?c1)\<lparr>sys_db := d, running := (running (core c))(w \<mapsto> job')\<rparr>\<rparr>"
  have c1: "act S Z (Commit (StartBy w)) c = ?c1" using run by (simp add: step.simps)
  have c2: "execute_all S Z (map (\<lambda>p. Commit (ProgressBy w p)) pcts) ?c1 = ?c2"
    using progress_run [of ?c1 w job S Z pcts] run rep job' by simp
  have "execute_all S Z (finish_actions S w env job) c =
      act S Z (Commit (FinishBy w (clk_done env) out)) (execute_all S Z (map (\<lambda>p. Commit (ProgressBy w p)) pcts) (act S Z (Commit (StartBy w)) c))"
    by (simp only: finish_actions_def ex Let_def case_prod_conv fold_Cons fold_append comp_apply fold_Nil id_apply)
  also have "\<dots> = act S Z (Commit (FinishBy w (clk_done env) out)) ?c2" by (simp only: c1 c2)
  finally show ?thesis
    using idle finalize_db [of S "clk_done env" out job' d empty_redis r]
    by (cases c) (simp add: step.simps finish_commands_def)
qed

lemma run_actions_finish:
  assumes "execute S env job = (pcts, out)"
  shows "run_actions S w env job = finish_actions S w env job @ map Send (finish_commands S (clk_done env) out (after_reports pcts job))"
  by (simp add: run_actions_def finish_actions_def finish_commands_def assms row_simps)

lemma run_actions_execute:
  assumes run: "running (core c) w = Some job" and idle: "todo c = []"
    and ex: "execute S env job = (pcts, out)"
    and rep: "fold report_progress pcts (job, start_commit w job (sys_db (core c))) = (job', d)"
  shows "execute_all S Z (run_actions S w env job) c =
    c\<lparr>core := (core c)\<lparr>sys_db := fst (finalize S (clk_done env) out job' (d, store c)), running := (running (core c))(w := None)\<rparr>,
      store := snd (finalize S (clk_done env) out job' (d, store c))\<rparr>"
proof -
  let ?c = "c\<lparr>core := (core c)\<lparr>sys_db := fst (finalize S (clk_done env) out job' (d, store c)), running := (running (core c))(w := None)\<rparr>\<rparr>"
  have job': "job' = after_reports pcts job" using fst_fold_reports [of pcts job "start_commit w job (sys_db (core c))"] rep by simp
  have "snd (finalize S (clk_done env) out job' (d, store c)) = fold (send Z) (finish_commands S (clk_done env) out job') (store c)"
    by (simp add: finalize_redis finish_commands_def)
  with send_all [of S Z "finish_commands S (clk_done env) out job'" ?c] idle show ?thesis
    unfolding run_actions_finish [OF ex] fold_append comp_apply finish_actions_execute [OF assms, of Z "store c"]
    by (cases c) (simp add: job')
qed

text \<open>Popping and claiming.\<close>

lemma pop_run:
  assumes "hand c w = None" "running (core c) w = None" "dequeue Z (store c) = (popped, r1)"
  shows "act S Z (Pop w) c = c\<lparr>store := r1, hand := (hand c)(w := popped)\<rparr>"
  using assms by simp

lemma claim_run:
  assumes "todo c = []" "hand c w = None" "running (core c) w = None" "dequeue Z (store c) = (Some i, r1)"
    and "claim_job now db_now i w (worker_lease_seconds S) (sys_db (core c)) = (res, d1)"
  shows "execute_all S Z [Pop w, Commit (ClaimBy w i now db_now)] c =
    c\<lparr>core := (core c)\<lparr>sys_db := d1, running := (running (core c))(w := res)\<rparr>, store := r1\<rparr>"
proof -
  have hand: "(hand c)(w := None) = hand c" "(running (core c))(w := None) = running (core c)"
    using assms(2,3) by (simp_all add: fun_upd_idem)
  show ?thesis using assms hand by (cases res) (simp_all add: step.simps)
qed

lemma process_one_run:
  assumes idle: "todo c = []" "hand c w = None" "running (core c) w = None"
    and p: "process_one S Z w env (h, sys_db (core c), store c) = (b, h', d, r)"
  shows "execute_all S Z (process_actions S Z w env (sys_db (core c), store c)) c = with_state c (d, r)"
proof (cases "dequeue Z (store c)")
  case (Pair popped r1)
  have hand: "(hand c)(w := None) = hand c" "(running (core c))(w := None) = running (core c)"
    using idle by (simp_all add: fun_upd_idem)
  show ?thesis
  proof (cases popped)
    case None
    with Pair p have "d = sys_db (core c)" "r = r1" by (simp_all add: process_one_def)
    with Pair None pop_run [OF idle(2,3) Pair, of S] hand show ?thesis by (simp add: process_actions_def)
  next
    case (Some i)
    obtain res d1 where claim: "claim_job (clk_claim env) (clk_db env) i w (worker_lease_seconds S) (sys_db (core c)) = (res, d1)"
      by fastforce
    note claimed = claim_run [OF idle Pair [unfolded Some] claim]
    show ?thesis
    proof (cases res)
      case None
      with Pair Some claim p have "d = d1" "r = r1" by (simp_all add: process_one_def)
      with Pair Some claim None claimed hand show ?thesis by (simp add: process_actions_def)
    next
      case (Some job)
      let ?c1 = "c\<lparr>core := (core c)\<lparr>sys_db := d1, running := (running (core c))(w \<mapsto> job)\<rparr>, store := r1\<rparr>"
      obtain pcts out where ex: "execute S env job = (pcts, out)" by fastforce
      obtain job' d2 where rep: "fold report_progress pcts (job, start_commit w job d1) = (job', d2)" by fastforce
      have fin: "finalize S (clk_done env) out job' (d2, r1) = (d, r)"
        using p Pair \<open>popped = Some i\<close> claim Some ex rep by (auto simp: process_one_def Let_def split: prod.splits)
      have "process_actions S Z w env (sys_db (core c), store c) =
          [Pop w, Commit (ClaimBy w i (clk_claim env) (clk_db env))] @ run_actions S w env job"
        using Pair \<open>popped = Some i\<close> claim Some by (simp add: process_actions_def)
      then have "execute_all S Z (process_actions S Z w env (sys_db (core c), store c)) c =
          execute_all S Z (run_actions S w env job) ?c1"
        by (simp only: fold_append comp_apply claimed Some)
      also have "\<dots> = with_state c (d, r)"
        using run_actions_execute [of ?c1 w job S env pcts out job' d2 Z] ex rep fin hand idle by (simp add: fun_upd_idem)
      finally show ?thesis .
    qed
  qed
qed

lemma process_one_realised:
  assumes "todo c = []" "hand c w = None" "running (core c) w = None"
  shows "realises S Z c (snd (snd (process_one S Z w env (h, sys_db (core c), store c))))"
proof -
  obtain b h' d r where "process_one S Z w env (h, sys_db (core c), store c) = (b, h', d, r)" by (metis prod.exhaust)
  with realisesI [OF process_one_run [OF assms this]] show ?thesis by simp
qed

section \<open>Sequences of operations\<close>

text \<open>One call of the program, with what it reads from outside.\<close>

datatype operation =
    SubmitJob uuid datetime JobCreate "string option"
  | CancelJob uuid
  | RetryJob datetime uuid
  | WorkerRound string run_env
  | FeederCycle nat datetime
  | SchedulerCycle nat datetime "uuid \<Rightarrow> datetime"
  | ReaperCycle nat datetime "uuid \<Rightarrow> datetime"
  | CleanupCycle datetime

fun perform ::
    "settings \<Rightarrow> ('z, uuid) zset_ops \<Rightarrow> operation \<Rightarrow> database \<times> ('z, 'h) redis \<Rightarrow> database \<times> ('z, 'h) redis" where
  "perform S Z (SubmitJob i now data idem) (d, r) = snd (submit_job S Z i now data idem d r)"
| "perform S Z (CancelJob i) (d, r) = snd (cancel_job Z i d r)"
| "perform S Z (RetryJob now i) (d, r) = snd (manual_retry now i d r)"
| "perform S Z (WorkerRound w env) (d, r) = snd (snd (process_one S Z w env (None, d, r)))"
| "perform S Z (FeederCycle limit t) (d, r) = (d, snd (promote_ready_jobs Z limit t d r))"
| "perform S Z (SchedulerCycle limit moment clk) (d, r) = snd (promote_due_scheduled Z limit moment clk d r)"
| "perform S Z (ReaperCycle limit t clk) (d, r) = (snd (reap_expired_leases limit t clk d), r)"
| "perform S Z (CleanupCycle t) (d, r) = (snd (cleanup_expired_idempotency_keys t d), r)"

definition at_rest :: "('z, 'h) cluster \<Rightarrow> bool" where
  "at_rest c \<longleftrightarrow> todo c = [] \<and> hand c = Map.empty \<and> running (core c) = Map.empty"

lemma perform_realised:
  assumes "at_rest c"
  shows "realises S Z c (perform S Z op (sys_db (core c), store c))"
proof -
  from assms have "todo c = []" by (simp add: at_rest_def)
  note realised = submit_job_realised [OF this] cancel_job_realised [OF this] manual_retry_realised [OF this]
    feeder_realised [OF this] scheduler_realised [OF this] reaper_realised [OF this] cleanup_realised [OF this]
  have "realises S Z c (snd (snd (process_one S Z w env (None, sys_db (core c), store c))))" for w env
    using assms by (intro process_one_realised) (simp_all add: at_rest_def)
  with realised show ?thesis by (cases op) simp_all
qed

lemma perform_all_realised:
  "at_rest c \<Longrightarrow> realises S Z c (fold (perform S Z) ops (sys_db (core c), store c))"
proof (induction ops arbitrary: c)
  case (Cons op ops)
  obtain d r where one: "perform S Z op (sys_db (core c), store c) = (d, r)" by fastforce
  have "at_rest (with_state c (d, r))" using Cons.prems by (simp add: at_rest_def)
  from Cons.IH [OF this] realises_trans [OF perform_realised [OF Cons.prems, of S Z op, unfolded one]] one
  show ?case by simp
qed (simp add: realises_refl)

section \<open>Properties\<close>

text \<open>
  Any sequence of whole operations (submissions, cancellations, retries, worker rounds, cycles of
  the feeder, the scheduler, the reaper and the cleanup) is one of the interleaved runs: some
  actions lead from the empty cluster to exactly the database and the Redis that the operations
  compute one after the other, with no process in the middle of anything.
\<close>

theorem sequential_operations_are_runs:
  "\<exists>acts. execute_all S Z acts (fresh_cluster r) =
    (fresh_cluster r)\<lparr>core := initial\<lparr>sys_db := fst (fold (perform S Z) ops (empty_db, r))\<rparr>,
                     store := snd (fold (perform S Z) ops (empty_db, r))\<rparr>"
proof -
  have "at_rest (fresh_cluster r)" by (simp add: at_rest_def fresh_cluster_def initial_def)
  from perform_all_realised [OF this, of S Z ops] show ?thesis
    by (simp add: realises_def) (simp add: fresh_cluster_def initial_def)
qed

end
