(* ===== verification/Quiescence.thy ===== *)
theory Quiescence
  imports Operations
begin

text \<open>
  Every job gets done.  From whatever state the processes have reached, with whatever Redis has kept,
  lost or mixed up, and with all workers dead, some cycles of the maintenance process, each followed
  by as many worker rounds as there is work, bring every job to an end: completed, failed for good,
  or cancelled as it was.  The variant is the number of attempts a job has left.
\<close>

section \<open>Cycles\<close>

text \<open>A cycle at a time: the reaper, the scheduler, the feeder, then rounds of any workers.\<close>

type_synonym cycle = "datetime \<times> (string \<times> run_env) list"

definition cycle_operations :: "nat \<Rightarrow> cycle \<Rightarrow> operation list" where
  "cycle_operations limit = (\<lambda>(t, rounds).
     [ReaperCycle limit t (\<lambda>i. t), SchedulerCycle limit t (\<lambda>i. t), FeederCycle limit t] @
     map (\<lambda>(w, env). WorkerRound w env) rounds)"

text \<open>A cycle starts when the backoffs of the rounds before it are over; its rounds come after it.\<close>

definition rounds_within :: "settings \<Rightarrow> datetime \<Rightarrow> datetime \<Rightarrow> (string \<times> run_env) list \<Rightarrow> bool" where
  "rounds_within S t until rounds = list_all (\<lambda>(w, env). t \<le> clk_db env \<and>
     clk_done env + timedelta_seconds (backoff_seconds S 1) \<le> until \<and>
     clk_done env + timedelta_seconds (backoff_seconds S 2) \<le> until) rounds"

fun in_time :: "settings \<Rightarrow> datetime \<Rightarrow> cycle list \<Rightarrow> bool" where
  "in_time S t0 [] = True"
| "in_time S t0 [(t, rounds)] = (t0 \<le> t \<and> list_all (\<lambda>(w, env). t \<le> clk_db env) rounds)"
| "in_time S t0 ((t, rounds) # (t', rounds') # rest) =
     (t0 \<le> t \<and> rounds_within S t t' rounds \<and> in_time S t' ((t', rounds') # rest))"

section \<open>Rows\<close>

fun finished :: "JobStatus \<Rightarrow> bool" where
  "finished Completed = True"
| "finished Failed = True"
| "finished Cancelled = True"
| "finished st = False"

text \<open>All that an unfinished row waits for is over by \<open>t\<close>.\<close>

definition waits_until :: "datetime \<Rightarrow> job \<Rightarrow> bool" where
  "waits_until t j \<longleftrightarrow>
     (status j = Processing \<longrightarrow> col_less (leased_until j) t) \<and>
     (status j = Scheduled \<longrightarrow> col_le (scheduled_at j) t) \<and>
     (status j = Pending \<longrightarrow> next_run_at j = None \<or> col_le (next_run_at j) t)"

definition all_wait_until :: "datetime \<Rightarrow> database \<Rightarrow> bool" where
  "all_wait_until t db \<longleftrightarrow> (\<forall>k j. get_row k (jobs db) = Some j \<longrightarrow> waits_until t j)"

text \<open>One attempt later: finished, or pending with attempts left and a backoff that ends by \<open>until\<close>.\<close>

definition attempted :: "datetime \<Rightarrow> job \<Rightarrow> job \<Rightarrow> bool" where
  "attempted until j j' \<longleftrightarrow>
     identity j' = identity j \<and> max_attempts j' = max_attempts j \<and> attempt_count j' = attempt_count j + 1 \<and>
     (status j' = Completed \<or>
      status j' = Failed \<and> max_attempts j' \<le> attempt_count j' \<or>
      status j' = Pending \<and> attempt_count j' < max_attempts j' \<and> col_le (next_run_at j') until)"

text \<open>The attempts an unfinished row can still need.\<close>

definition attempts_left :: "job \<Rightarrow> nat" where
  "attempts_left j = (if finished (status j) then 0 else nat (max 1 (max_attempts j - attempt_count j)))"

lemma attempted_progress:
  "attempted until j j' \<Longrightarrow> \<not> finished (status j) \<Longrightarrow> attempts_left j' < attempts_left j \<and> waits_until until j'"
  by (auto simp: attempted_def attempts_left_def waits_until_def)

lemma attempts_left_zero: "attempts_left j = 0 \<longleftrightarrow> finished (status j)"
  by (auto simp: attempts_left_def)

section \<open>Worker rounds\<close>

lemma rounds_within_Cons [simp]:
  "rounds_within S t until ((w, env) # rounds) \<longleftrightarrow>
    t \<le> clk_db env \<and> clk_done env + timedelta_seconds (backoff_seconds S 1) \<le> until \<and>
    clk_done env + timedelta_seconds (backoff_seconds S 2) \<le> until \<and> rounds_within S t until rounds"
  by (simp add: rounds_within_def)

lemma backoff_of: "backoff_seconds S n = backoff_seconds S 1 \<or> backoff_seconds S n = backoff_seconds S 2"
  by (simp add: backoff_seconds_def)

text \<open>The row of a job that a round has claimed.\<close>

lemma claimed_row_attempted:
  assumes "execute S env j1 = (pcts, out)" "j1 = claim_set w l now j" "fr = final_row S (clk_done env) out (after_reports pcts j1)"
    and "rounds_within S t until ((w', env) # rounds)"
  shows "attempted until j fr"
proof -
  note row = final_row_of_claimed [OF assms(1-3)]
  have "identity (after_reports pcts k) = identity k" for k by (simp add: after_reports_def identity_kept)
  then have "identity fr = identity j" by (simp add: assms(2,3) identity_kept)
  moreover have "max_attempts fr = max_attempts j"
    by (simp add: assms(2,3) final_row_def row_simps split: run_outcome.split)
  moreover have "col_le (next_run_at fr) until" if "status fr = Pending"
  proof -
    have "next_run_at fr = Some (clk_done env + timedelta_seconds (backoff_seconds S (attempt_count fr)))"
      using that row(1) by (auto simp: assms(2,3) final_row_def row_simps split: run_outcome.splits if_splits)
    then show ?thesis using backoff_of [of S "attempt_count fr"] assms(4) by auto
  qed
  ultimately show ?thesis using row by (auto simp: attempted_def split: run_outcome.splits if_splits)
qed

text \<open>No pending job is queued before its time.\<close>

definition queue_due :: "('z, uuid) zset_ops \<Rightarrow> datetime \<Rightarrow> database \<Rightarrow> ('z, 'h) redis \<Rightarrow> bool" where
  "queue_due Z t db r \<longleftrightarrow> (\<forall>k j. pending_score Z r k \<noteq> None \<and> get_row k (jobs db) = Some j \<and> status j = Pending \<longrightarrow> claim_guard k t j)"

text \<open>One round, and as many rounds as there are entries.\<close>

lemma round_rows:
  assumes Z: "job_queue Z" and ok: "db_ok db" and within: "rounds_within S t until ((w, env) # rounds)"
    and due: "queue_due Z t db r"
    and p: "perform S Z (WorkerRound w env) (db, r) = (db', r')"
  shows "db_ok db'" "pending_depth Z r' = pending_depth Z r - 1"
    "\<exists>i. pending_score Z r' = (pending_score Z r)(i := None) \<and>
      (\<forall>k. k \<noteq> i \<longrightarrow> get_row k (jobs db') = get_row k (jobs db)) \<and>
      (get_row i (jobs db) = None \<longrightarrow> get_row i (jobs db') = None) \<and>
      (\<forall>j. get_row i (jobs db) = Some j \<longrightarrow> (\<exists>j'. get_row i (jobs db') = Some j' \<and>
        (if pending_score Z r i \<noteq> None \<and> status j = Pending then attempted until j j' else j' = j)))"
proof -
  obtain b h where pone: "process_one S Z w env (None, db, r) = (b, h, db', r')"
    using p by (cases "process_one S Z w env (None, db, r)") auto
  from process_one_pending [OF Z ok pone] show "db_ok db'" "pending_depth Z r' = pending_depth Z r - 1" by simp_all
  obtain res r1 where dq: "dequeue Z r = (res, r1)" by fastforce
  show "\<exists>i. pending_score Z r' = (pending_score Z r)(i := None) \<and>
      (\<forall>k. k \<noteq> i \<longrightarrow> get_row k (jobs db') = get_row k (jobs db)) \<and>
      (get_row i (jobs db) = None \<longrightarrow> get_row i (jobs db') = None) \<and>
      (\<forall>j. get_row i (jobs db) = Some j \<longrightarrow> (\<exists>j'. get_row i (jobs db') = Some j' \<and>
        (if pending_score Z r i \<noteq> None \<and> status j = Pending then attempted until j j' else j' = j)))"
  proof (cases res)
    case None
    with dq job_queue.dequeue_empty [OF Z, of r r1] job_queue.dequeue_None [OF Z, of r] process_one_idle [of Z r r1 S w env None db] pone
    show ?thesis by (intro exI [of _ 0]) (auto simp: fun_eq_iff)
  next
    case (Some i)
    with dq have dq: "dequeue Z r = (Some i, r1)" by simp
    have pend: "pending_score Z r1 = (pending_score Z r)(i := None)" "pending_score Z r i \<noteq> None"
      using job_queue.dequeue_Some [OF Z dq] by (metis option.distinct(1))+
    show ?thesis
    proof (cases "\<exists>j. get_row i (jobs db) = Some j \<and> status j = Pending")
      case True
      then obtain j where j: "get_row i (jobs db) = Some j" "status j = Pending" by blast
      have "claim_guard i t j" using due pend(2) j unfolding queue_due_def by blast
      then have guard: "claim_guard i (clk_db env) j"
        using within by (cases "next_run_at j") (auto simp: claim_guard_def)
      define j1 where "j1 = claim_set w (clk_claim env + seconds (worker_lease_seconds S)) (clk_db env) j"
      obtain pcts out where ex: "execute S env j1 = (pcts, out)" by (cases "execute S env j1")
      define fr where "fr = final_row S (clk_done env) out (after_reports pcts j1)"
      obtain db2 where "process_one S Z w env (None, db, r) = (True, None, db2, if status fr = Failed then dead_letter i r1 else r1)"
        and rows: "\<And>k. get_row k (jobs db2) = (if k = i then Some fr else get_row k (jobs db))"
        by (rule process_one_claimed [OF ok dq j(1) guard j1_def ex fr_def]) (rule that)
      with pone have "db' = db2" "pending_score Z r' = pending_score Z r1" by (auto simp: dead_letter_def)
      moreover have "attempted until j fr" by (rule claimed_row_attempted [OF ex j1_def fr_def within])
      ultimately show ?thesis using pend rows j by (intro exI [of _ i]) simp
    next
      case False
      then have "process_one S Z w env (None, db, r) = (True, None, db, r1)"
        by (intro process_one_skipped [OF ok dq]) (auto simp: claim_guard_def)
      with pone pend False show ?thesis by (intro exI [of _ i]) auto
    qed
  qed
qed

abbreviation worker_rounds_of :: "(string \<times> run_env) list \<Rightarrow> operation list" where
  "worker_rounds_of rounds \<equiv> map (\<lambda>(w, env). WorkerRound w env) rounds"

lemma drain_rows:
  assumes Z: "job_queue Z"
  shows "db_ok db \<Longrightarrow> rounds_within S t until rounds \<Longrightarrow>
    queue_due Z t db r \<Longrightarrow> pending_depth Z r \<le> length rounds \<Longrightarrow> fold (perform S Z) (worker_rounds_of rounds) (db, r) = (db', r') \<Longrightarrow>
    db_ok db' \<and> pending_depth Z r' = 0 \<and>
    (\<forall>k. (get_row k (jobs db) = None \<longrightarrow> get_row k (jobs db') = None) \<and>
      (\<forall>j. get_row k (jobs db) = Some j \<longrightarrow> (\<exists>j'. get_row k (jobs db') = Some j' \<and>
        (if pending_score Z r k \<noteq> None \<and> status j = Pending then attempted until j j' else j' = j))))"
proof (induction rounds arbitrary: db r)
  case Nil
  then show ?case using job_queue.depth_zero [OF Z, of r] by auto
next
  case (Cons round rounds)
  obtain w env where round: "round = (w, env)" by fastforce
  obtain db1 r1 where one: "perform S Z (WorkerRound w env) (db, r) = (db1, r1)" by fastforce
  note row = round_rows [OF Z Cons.prems(1) Cons.prems(2) [unfolded round] Cons.prems(3) one]
  obtain i where i: "pending_score Z r1 = (pending_score Z r)(i := None)"
    "\<forall>k. k \<noteq> i \<longrightarrow> get_row k (jobs db1) = get_row k (jobs db)"
    "get_row i (jobs db) = None \<longrightarrow> get_row i (jobs db1) = None"
    "\<forall>j. get_row i (jobs db) = Some j \<longrightarrow> (\<exists>j'. get_row i (jobs db1) = Some j' \<and>
        (if pending_score Z r i \<noteq> None \<and> status j = Pending then attempted until j j' else j' = j))"
    using row(3) by (elim exE conjE) (rule that)
  have IH: "db_ok db' \<and> pending_depth Z r' = 0 \<and>
    (\<forall>k. (get_row k (jobs db1) = None \<longrightarrow> get_row k (jobs db') = None) \<and>
      (\<forall>j. get_row k (jobs db1) = Some j \<longrightarrow> (\<exists>j'. get_row k (jobs db') = Some j' \<and>
        (if pending_score Z r1 k \<noteq> None \<and> status j = Pending then attempted until j j' else j' = j))))"
  proof (rule Cons.IH [OF row(1)])
    show "queue_due Z t db1 r1"
      using Cons.prems(3) i(1,2) unfolding queue_due_def by (metis fun_upd_apply)
  qed (use Cons.prems round one row(2) in auto)
  show ?case
  proof (intro conjI allI impI)
    fix k
    show "get_row k (jobs db') = None" if "get_row k (jobs db) = None"
      using IH i(2,3) that by (metis (no_types))
    fix j assume j: "get_row k (jobs db) = Some j"
    show "\<exists>j'. get_row k (jobs db') = Some j' \<and>
        (if pending_score Z r k \<noteq> None \<and> status j = Pending then attempted until j j' else j' = j)"
    proof (cases "k = i")
      case True
      with i(4) j obtain j1 where j1: "get_row k (jobs db1) = Some j1"
        "if pending_score Z r k \<noteq> None \<and> status j = Pending then attempted until j j1 else j1 = j" by blast
      have "pending_score Z r1 k = None" using True i(1) by simp
      with IH j1(1) have "get_row k (jobs db') = Some j1" by fastforce
      with j1(2) show ?thesis by blast
    next
      case False
      then have "get_row k (jobs db1) = Some j" "pending_score Z r1 k = pending_score Z r k" using i(1,2) j by simp_all
      with IH show ?thesis by metis
    qed
  qed (use IH in auto)
qed

section \<open>Maintenance\<close>

text \<open>What the reaper and the scheduler make of a row.\<close>

definition rescued :: "datetime \<Rightarrow> job \<Rightarrow> job" where
  "rescued t j = (let j = (if expired t j then reap_set j else j) in if due t j then promote_set j else j)"

lemma rescued_simps [row_simps]:
  "job_id (rescued t j) = job_id j" "identity (rescued t j) = identity j"
  "attempt_count (rescued t j) = attempt_count j" "max_attempts (rescued t j) = max_attempts j"
  by (simp_all add: rescued_def Let_def row_simps identity_kept)

lemma attempted_rescued [simp]: "attempted until (rescued t j) j' \<longleftrightarrow> attempted until j j'"
  by (simp add: attempted_def row_simps)

lemma rescued_finished: "finished (status j) \<Longrightarrow> rescued t j = j"
  by (cases "status j") (auto simp: rescued_def expired_def due_def)

lemma rescued_ready: "waits_until t j \<Longrightarrow> \<not> finished (status j) \<Longrightarrow> ready t (rescued t j)"
  by (cases "status j"; cases "leased_until j")
    (auto simp: rescued_def waits_until_def expired_def due_def ready_def row_simps Let_def)

lemma rescued_pending: "waits_until t j \<Longrightarrow> status (rescued t j) = Pending \<longleftrightarrow> \<not> finished (status j)"
  using rescued_ready [of t j] rescued_finished [of j t] by (cases "finished (status j)") (auto simp: ready_def)

abbreviation rescue :: "nat \<Rightarrow> datetime \<Rightarrow> operation list" where
  "rescue limit t \<equiv> [ReaperCycle limit t (\<lambda>i. t), SchedulerCycle limit t (\<lambda>i. t), FeederCycle limit t]"

lemma rescue_rows:
  assumes Z: "job_queue Z" and ok: "db_ok db" and limit: "length (jobs db) \<le> limit"
    and run: "fold (perform S Z) (rescue limit t) (db, r) = (db', r')"
  shows "db_ok db'" "length (jobs db') = length (jobs db)"
    "get_row k (jobs db') = map_option (rescued t) (get_row k (jobs db))"
    "ready t j \<Longrightarrow> get_row k (jobs db') = Some j \<Longrightarrow> pending_score Z r' k \<noteq> None"
    "pending_score Z r' k \<noteq> None \<Longrightarrow> pending_score Z r k \<noteq> None \<or> k \<in> job_id ` set (jobs db')"
proof -
  have few: "length (filter P (jobs d)) \<le> limit" if "length (jobs d) \<le> limit" for P d
    using that length_filter_le [of P "jobs d"] by linarith
  define db1 where "db1 = snd (reap_expired_leases limit t (\<lambda>i. t) db)"
  have ok1: "db_ok db1" using ok by (simp add: db1_def reap_eq db_ok_def reaping.sweep_table_ok)
  have db1: "db1 = db\<lparr>jobs := update_where (expired t) reap_set (jobs db)\<rparr>"
    unfolding db1_def using reap_bulk [OF ok few [OF limit]] by simp
  then have l1: "length (jobs db1) \<le> limit" using limit by (simp add: update_where_def)
  obtain n r2 where p: "promote_due_scheduled Z limit t (\<lambda>i. t) db1 r = (n, db', r2)" and r': "r' = snd (promote_ready_jobs Z limit t db' r2)"
    using run by (cases "promote_due_scheduled Z limit t (\<lambda>i. t) db1 r") (auto simp: db1_def [symmetric])
  note f = fold_promote_one [OF Z ok1 distinct_candidates p [unfolded promote_due_scheduled_def]]
  show ok': "db_ok db'" using f ok1 by (simp add: db_ok_def promoting.sweep_table_ok)
  have db': "db' = db1\<lparr>jobs := update_where (due t) promote_set (jobs db1)\<rparr>" using promote_bulk [OF Z ok1 few [OF l1] p] by simp
  then show len: "length (jobs db') = length (jobs db)" by (simp add: db1 update_where_def)
  show "get_row k (jobs db') = map_option (rescued t) (get_row k (jobs db))"
    by (cases "get_row k (jobs db)") (simp_all add: db' db1 table_simps row_simps rescued_def Let_def)
  have "length (jobs db') \<le> limit" using len limit by simp
  from feeder_covers [OF Z ok' few [OF this]]
  show "ready t j \<Longrightarrow> get_row k (jobs db') = Some j \<Longrightarrow> pending_score Z r' k \<noteq> None" unfolding r' by blast
  obtain n' where feed: "fold (feed_one Z) (select_ready limit t db') (0, r2) = (n', r')"
    using r' unfolding promote_ready_jobs_def by (metis prod.collapse)
  show "pending_score Z r k \<noteq> None \<or> k \<in> job_id ` set (jobs db')" if "pending_score Z r' k \<noteq> None"
  proof (cases "pending_score Z r2 k")
    case None
    with that fold_feed_one [OF Z select_ready_distinct [OF ok'] feed, of k]
    obtain j where "get_row k (select_ready limit t db') = Some j" by auto
    then have "j \<in> set (jobs db')" "job_id j = k"
      using get_row_select_ready [OF ok'] set_select_rows unfolding select_ready_def by blast+
    then show ?thesis by blast
  next
    case (Some x)
    have "map job_id (jobs db') = map job_id (jobs db1)" by (simp add: db' update_where_def row_simps)
    then have "job_id ` set (jobs db') = job_id ` set (jobs db1)" by (metis set_map)
    with f Some get_row_Some [of k "jobs db1"] show ?thesis by (force split: option.splits if_splits)
  qed
qed

section \<open>A whole cycle\<close>

lemma table_size: "db_ok db \<Longrightarrow> length (jobs db) = card {k. get_row k (jobs db) \<noteq> None}"
proof -
  assume "db_ok db"
  then have "card (set (map job_id (jobs db))) = length (jobs db)"
    using distinct_card [OF db_ok_distinct] by fastforce
  moreover have "{k. get_row k (jobs db) \<noteq> None} = set (map job_id (jobs db))" by (auto simp: get_row_None)
  ultimately show ?thesis by simp
qed

lemma only_row:
  assumes "db_ok db" "get_row i (jobs db) = Some j" "\<And>k. k \<noteq> i \<Longrightarrow> get_row k (jobs db) = None"
  shows "jobs db = [j]"
proof -
  have "{k. get_row k (jobs db) \<noteq> None} = {i}" using assms(2,3) by (metis (mono_tags, lifting) Collect_cong option.distinct(1) singleton_conv)
  then have "length (jobs db) = 1" using table_size [OF assms(1)] by simp
  with get_row_Some [OF assms(2)] show ?thesis by (cases "jobs db") auto
qed

lemma depth_bound:
  fixes r r' :: "('z, 'h) redis"
  assumes Z: "job_queue Z" and ok: "db_ok db"
    and known: "\<And>k. pending_score Z r' k \<noteq> None \<Longrightarrow> pending_score Z r k \<noteq> None \<or> k \<in> job_id ` set (jobs db)"
  shows "pending_depth Z r' \<le> length (jobs db) + pending_depth Z r"
proof -
  have card: "pending_depth Z q = card (dom (pending_score Z q))" and fin: "finite (dom (pending_score Z q))" for q :: "('z, 'h) redis"
    using zset.zscores_finite [OF job_queue.axioms [OF Z], of "jobs_pending q"]
    by (simp_all add: pending_depth_def zset.zcard_scores [OF job_queue.axioms [OF Z]])
  have "dom (pending_score Z r') \<subseteq> job_id ` set (jobs db) \<union> dom (pending_score Z r)" using known by auto
  then have "card (dom (pending_score Z r')) \<le> card (job_id ` set (jobs db) \<union> dom (pending_score Z r))"
    by (intro card_mono) (use fin in auto)
  also have "\<dots> \<le> card (job_id ` set (jobs db)) + card (dom (pending_score Z r))" by (rule card_Un_le)
  also have "card (job_id ` set (jobs db)) \<le> length (jobs db)" using card_image_le [of "set (jobs db)" job_id] card_length [of "jobs db"] by simp
  finally show ?thesis by (simp add: card)
qed

lemma cycle_rows:
  assumes Z: "job_queue Z" and ok: "db_ok db" and limit: "length (jobs db) \<le> limit"
    and waits: "all_wait_until t db"
    and within: "rounds_within S t until rounds" and enough: "length (jobs db) + pending_depth Z r \<le> length rounds"
    and run: "fold (perform S Z) (cycle_operations limit (t, rounds)) (db, r) = (db', r')"
  shows "db_ok db'" "pending_depth Z r' = 0" "length (jobs db') = length (jobs db)"
    "get_row k (jobs db) = Some j \<Longrightarrow> \<exists>j'. get_row k (jobs db') = Some j' \<and> (if finished (status j) then j' = j else attempted until j j')"
    "get_row k (jobs db') = None \<longleftrightarrow> get_row k (jobs db) = None"
proof -
  note waits = waits [unfolded all_wait_until_def, rule_format]
  obtain db1 r1 where res: "fold (perform S Z) (rescue limit t) (db, r) = (db1, r1)" by fastforce
  note R = rescue_rows [OF Z ok limit res]
  have run1: "fold (perform S Z) (worker_rounds_of rounds) (db1, r1) = (db', r')"
    using run res unfolding cycle_operations_def case_prod_conv fold_append by simp
  have rdy: "ready t j \<and> job_id j = k" if "get_row k (jobs db1) = Some j" "status j = Pending" for k j
  proof -
    from that(1) R(3) [of k] obtain j0 where "get_row k (jobs db) = Some j0" "j = rescued t j0" by auto
    with waits [of k j0] that(2) rescued_pending rescued_ready get_row_Some [OF that(1)] show ?thesis by blast
  qed
  have due: "queue_due Z t db1 r1" using rdy by (auto simp: queue_due_def claim_guard_def ready_def)
  have "pending_depth Z r1 \<le> length (jobs db1) + pending_depth Z r" by (rule depth_bound [OF Z R(1)]) (rule R(5))
  then have "pending_depth Z r1 \<le> length rounds" using R(2) enough by linarith
  note D = drain_rows [OF Z R(1) within due this run1]
  from D show ok': "db_ok db'" "pending_depth Z r' = 0" by simp_all
  have same: "get_row k (jobs db') = None \<longleftrightarrow> get_row k (jobs db) = None" for k
  proof -
    have "get_row k (jobs db') = None \<longleftrightarrow> get_row k (jobs db1) = None"
      using D by (metis option.distinct(1) option.exhaust)
    then show ?thesis using R(3) [of k] by simp
  qed
  then show "get_row k (jobs db') = None \<longleftrightarrow> get_row k (jobs db) = None" .
  from same show "length (jobs db') = length (jobs db)" using table_size [OF ok] table_size [OF ok'(1)] by simp
  show "\<exists>j'. get_row k (jobs db') = Some j' \<and> (if finished (status j) then j' = j else attempted until j j')"
    if j: "get_row k (jobs db) = Some j" for k j
  proof -
    have r1: "get_row k (jobs db1) = Some (rescued t j)" using R(3) j by simp
    with D obtain j' where j': "get_row k (jobs db') = Some j'"
      "if pending_score Z r1 k \<noteq> None \<and> status (rescued t j) = Pending then attempted until (rescued t j) j' else j' = rescued t j"
      by blast
    show ?thesis
    proof (cases "finished (status j)")
      case True
      with j' rescued_finished [OF True, of t] show ?thesis by (auto split: if_splits)
    next
      case False
      then have "status (rescued t j) = Pending" "pending_score Z r1 k \<noteq> None"
        using rescued_pending [OF waits [OF j]] rescued_ready [OF waits [OF j]] R(4) r1 by blast+
      with j' False show ?thesis by simp
    qed
  qed
qed

section \<open>Cycle after cycle\<close>

lemma waits_until_mono: "waits_until t j \<Longrightarrow> t \<le> t' \<Longrightarrow> waits_until t' j"
  by (cases "leased_until j"; cases "scheduled_at j"; cases "next_run_at j") (auto simp: waits_until_def)

lemma finished_waits: "finished (status j) \<Longrightarrow> waits_until t j"
  by (auto simp: waits_until_def)

lemma rounds_end: "list_all (\<lambda>(w, env). t \<le> clk_db env) rounds \<Longrightarrow> \<exists>until. rounds_within S t until rounds"
proof (induction rounds)
  case (Cons round rounds)
  obtain w env where round: "round = (w, env)" by fastforce
  from Cons round obtain until where until: "rounds_within S t until rounds" by auto
  let ?until = "max until (max (clk_done env + timedelta_seconds (backoff_seconds S 1)) (clk_done env + timedelta_seconds (backoff_seconds S 2)))"
  have "rounds_within S t ?until rounds" using until by (auto simp: rounds_within_def list_all_iff)
  with Cons.prems round show ?case by (intro exI [of _ ?until]) auto
qed (simp add: rounds_within_def)

lemma in_time_Cons:
  assumes "in_time S t0 ((t, rounds) # rest)"
  obtains until where "t0 \<le> t" "rounds_within S t until rounds" "in_time S until rest"
  using assms rounds_end [of t rounds S] by (cases rest) (auto intro: that)

text \<open>The row of an unfinished job at the end, and what its attempts amount to.\<close>

definition done_row :: "job \<Rightarrow> job \<Rightarrow> bool" where
  "done_row j j' \<longleftrightarrow> identity j' = identity j \<and> finished (status j') \<and>
     (if finished (status j) then j' = j
      else status j' \<noteq> Cancelled \<and> max_attempts j' = max_attempts j \<and> attempt_count j < attempt_count j' \<and>
        attempt_count j' \<le> max (max_attempts j) (attempt_count j + 1))"

lemma done_row_step:
  assumes "if finished (status j) then j1 = j else attempted until j j1" "done_row j1 j'"
  shows "done_row j j'"
  using assms by (cases "status j1") (auto simp: done_row_def attempted_def split: if_splits)

lemma cycles_finish:
  assumes Z: "job_queue Z"
  shows "db_ok db \<Longrightarrow> all_wait_until t0 db \<Longrightarrow> in_time S t0 cycles \<Longrightarrow>
    length (jobs db) \<le> limit \<Longrightarrow> \<forall>c \<in> set cycles. length (jobs db) + pending_depth Z r \<le> length (snd c) \<Longrightarrow>
    fold (perform S Z) (concat (map (cycle_operations limit) cycles)) (db, r) = (db', r') \<Longrightarrow>
    get_row k (jobs db) = Some j \<Longrightarrow> attempts_left j \<le> length cycles \<Longrightarrow>
    \<exists>j'. get_row k (jobs db') = Some j' \<and> done_row j j'"
proof (induction cycles arbitrary: t0 db r j)
  case Nil
  then show ?case by (simp add: attempts_left_zero done_row_def)
next
  case (Cons c cycles)
  obtain t rounds where c: "c = (t, rounds)" by fastforce
  obtain until where until: "t0 \<le> t" "rounds_within S t until rounds" "in_time S until cycles"
    using Cons.prems(3) unfolding c by (rule in_time_Cons)
  obtain db1 r1 where one: "fold (perform S Z) (cycle_operations limit (t, rounds)) (db, r) = (db1, r1)" by fastforce
  have waits: "all_wait_until t db" using Cons.prems(2) waits_until_mono until(1) unfolding all_wait_until_def by blast
  have enough: "length (jobs db) + pending_depth Z r \<le> length rounds" using Cons.prems(5) c by simp
  note C = cycle_rows [OF Z Cons.prems(1,4) waits until(2) enough one]
  obtain j1 where j1: "get_row k (jobs db1) = Some j1" "if finished (status j) then j1 = j else attempted until j j1"
    using C(4) [OF Cons.prems(7)] by blast
  have "all_wait_until until db1"
    unfolding all_wait_until_def
  proof (intro allI impI)
    fix i k assume k: "get_row i (jobs db1) = Some k"
    then obtain k0 where k0: "get_row i (jobs db) = Some k0" using C(5) [of i] by fastforce
    with C(4) [OF k0] k have "if finished (status k0) then k = k0 else attempted until k0 k" by simp
    then show "waits_until until k"
      using attempted_progress [of until k0 k] finished_waits [of k until] by (auto split: if_splits)
  qed
  moreover have "attempts_left j1 \<le> length cycles"
    using j1(2) Cons.prems(8) attempted_progress [of until j j1] attempts_left_zero [of j] by (auto split: if_splits)
  moreover have "\<forall>c \<in> set cycles. length (jobs db1) + pending_depth Z r1 \<le> length (snd c)"
    using C(2,3) Cons.prems(5) by fastforce
  moreover have "fold (perform S Z) (concat (map (cycle_operations limit) cycles)) (db1, r1) = (db', r')"
    using Cons.prems(6) c one by simp
  moreover have "length (jobs db1) \<le> limit" using C(3) Cons.prems(4) by simp
  ultimately have "\<exists>j'. get_row k (jobs db') = Some j' \<and> done_row j1 j'"
    using Cons.IH [OF C(1) _ until(3) _ _ _ j1(1)] by blast
  with j1(2) done_row_step show ?case by blast
qed

section \<open>Property\<close>

text \<open>A scheduled row has its time; nothing makes a row scheduled but its submission.\<close>

lemma row_effect_scheduled:
  assumes "snapshots_ok s" "status (row_effect S s ev j) = Scheduled"
  shows "status j = Scheduled"
proof (cases ev)
  case (FinishBy w now out)
  with assms snapshots_okD(1) [OF assms(1), of w] show ?thesis
    by (auto simp: row_simps merge_col_def final_row_def split: option.splits run_outcome.splits if_splits)
qed (use assms in \<open>auto simp: row_simps merge_col_def cleanup_set_def split: option.splits if_splits\<close>)

lemma reachable_scheduled:
  "reachable S s \<Longrightarrow> get_row k (jobs (sys_db s)) = Some j \<Longrightarrow> status j = Scheduled \<Longrightarrow> scheduled_at j \<noteq> None"
proof (induction arbitrary: k j rule: reachable.induct)
  case start
  then show ?case by (simp add: initial_def empty_db_def get_row_def)
next
  case (next_event s ev)
  have ok: "db_ok (sys_db s)" "snapshots_ok s" using reachable_ok [OF next_event.hyps] by auto
  show ?case
    using ok(1) next_event.prems(1)
  proof (cases rule: step_row_cases)
    case (old j0)
    then have "status j0 = Scheduled" using row_effect_scheduled [OF ok(2)] next_event.prems(2) by blast
    with next_event.IH [OF old(1)] old(2) row_effect_identity [of S s ev j0] show ?thesis by (simp add: identity_def)
  next
    case (new i now data key)
    with next_event.prems(2) show ?thesis by (simp add: row_simps split: if_splits)
  qed
qed

text \<open>
  C6. No job is lost and every job comes to an end.  Take any state the processes can reach, let all
  workers be gone, and let Redis hold anything at all.  Run maintenance cycles, each followed by
  worker rounds, the first cycle when all leases, schedules and backoffs are over and each other
  when the backoffs of the rounds before are; let there be at least as many cycles as any job has
  attempts left, limits that cover the table, and rounds that cover the table and the entries of
  Redis.  Then every job that was not finished has been attempted and is completed or failed, with
  no more attempts than allowed (or one); every finished job is untouched.
\<close>

theorem every_job_finishes:
  assumes "job_queue Z" and "reachable S s"
    and "\<And>j. j \<in> set (jobs (sys_db s)) \<Longrightarrow>
      (\<forall>u. status j = Processing \<and> leased_until j = Some u \<longrightarrow> u < t0) \<and>
      (\<forall>u. status j = Scheduled \<and> scheduled_at j = Some u \<longrightarrow> u \<le> t0) \<and>
      (\<forall>u. status j = Pending \<and> next_run_at j = Some u \<longrightarrow> u \<le> t0)"
    and "in_time S t0 cycles" and "cycles \<noteq> []"
    and "\<And>j. j \<in> set (jobs (sys_db s)) \<Longrightarrow> max_attempts j - attempt_count j \<le> int (length cycles)"
    and "length (jobs (sys_db s)) \<le> limit"
    and "\<forall>(t, rounds) \<in> set cycles. length (jobs (sys_db s)) + pending_depth Z r \<le> length rounds"
    and "fold (perform S Z) (concat (map (cycle_operations limit) cycles)) (sys_db s, r) = (db', r')"
    and "get_row k (jobs (sys_db s)) = Some j"
  shows "\<exists>j'. get_row k (jobs db') = Some j' \<and> identity j' = identity j \<and>
    (if status j \<in> {Completed, Failed, Cancelled} then j' = j
     else status j' \<in> {Completed, Failed} \<and> max_attempts j' = max_attempts j \<and>
       attempt_count j < attempt_count j' \<and> attempt_count j' \<le> max (max_attempts j) (attempt_count j + 1))"
proof -
  have ok: "db_ok (sys_db s)" using reachable_ok [OF assms(2)] by simp
  have waits: "all_wait_until t0 (sys_db s)"
    unfolding all_wait_until_def
  proof (intro allI impI)
    fix i k assume k: "get_row i (jobs (sys_db s)) = Some k"
    have "owned k" by (rule reachable_owned [OF assms(2) k])
    with assms(3) [of k] reachable_scheduled [OF assms(2) k] get_row_Some [OF k] show "waits_until t0 k"
      by (cases "leased_until k"; cases "scheduled_at k"; cases "next_run_at k") (auto simp: waits_until_def owned_def)
  qed
  have left: "attempts_left j \<le> length cycles"
    using assms(5) assms(6) [of j] get_row_Some [OF assms(10)] by (cases cycles) (auto simp: attempts_left_def)
  have fin: "finished st \<longleftrightarrow> st \<in> {Completed, Failed, Cancelled}" for st by (cases st) auto
  obtain j' where j': "get_row k (jobs db') = Some j'" "done_row j j'"
    using cycles_finish [OF assms(1) ok waits assms(4,7) _ assms(9,10) left] assms(8) by fastforce
  then show ?thesis by (auto simp: done_row_def fin)
qed

text \<open>The worker of the example has died with its job; Redis has lost everything.\<close>

definition example_cycles :: "cycle list" where
  "example_cycles =
     [(seconds 100, [(''w2'', sample_env\<lparr>clk_claim := seconds 100, clk_db := seconds 100, clk_done := seconds 101\<rparr>)]),
      (seconds 400, [(''w2'', sample_env\<lparr>clk_claim := seconds 400, clk_db := seconds 400, clk_done := seconds 401\<rparr>)])]"

theorem every_job_finishes_witness:
  "\<exists>j'. get_row 1 (jobs (fst (fold (perform default_settings list_zset)
      (concat (map (cycle_operations 100) example_cycles)) (sys_db claimed, empty_redis)))) = Some j' \<and>
    status j' \<in> {Completed, Failed}"
proof -
  let ?S = default_settings
  let ?j = "claim_set ''w1'' (100 + seconds 60) 100 (new_job default_settings 1 50 example_data None)"
  have reach: "reachable ?S claimed" by (rule run_of_reachable [OF claimed_row(1)])
  have row: "get_row 1 (jobs (sys_db claimed)) = Some ?j" by (rule claimed_row(2))
  have jobs: "jobs (sys_db claimed) = [?j]" by (rule only_row [OF _ row claimed_others]) (use reachable_ok [OF reach] in simp)
  obtain db' r' where run: "fold (perform ?S list_zset) (concat (map (cycle_operations 100) example_cycles)) (sys_db claimed, empty_redis) = (db', r')"
    by fastforce
  have delays: "timedelta_seconds 30 = 30000000" "timedelta_seconds 120 = 120000000" by code_simp+
  have t: "in_time ?S (seconds 100) example_cycles"
    by (simp add: example_cycles_def rounds_within_def backoff_seconds_def sample_env_def delays)
  have "pending_depth list_zset empty_redis = 0" by (simp add: pending_depth_def list_zset_def empty_redis_def)
  then have enough: "\<forall>(t, rounds) \<in> set example_cycles. length (jobs (sys_db claimed)) + pending_depth list_zset empty_redis \<le> length rounds"
    by (simp add: jobs example_cycles_def)
  have "\<exists>j'. get_row 1 (jobs db') = Some j' \<and> identity j' = identity ?j \<and>
    (if status ?j \<in> {Completed, Failed, Cancelled} then j' = ?j
     else status j' \<in> {Completed, Failed} \<and> max_attempts j' = max_attempts ?j \<and>
       attempt_count ?j < attempt_count j' \<and> attempt_count j' \<le> max (max_attempts ?j) (attempt_count ?j + 1))"
    by (rule every_job_finishes [OF list_queue reach _ t _ _ _ enough run row]) (simp_all add: jobs example_cycles_def row_simps)
  then show ?thesis unfolding run by (auto simp: row_simps)
qed

end
