(* ===== verification/Health.thy ===== *)
theory Health
  imports Config Job_Table Queue_Client
begin

text \<open>
  \<^verbatim>\<open>app/services/health.py\<close>: the counts per status and the body of \<^verbatim>\<open>GET /health\<close>.  What
  the probes of the database and of Redis raise, if anything, are the arguments \<open>db_err\<close> and
  \<open>redis_err\<close>; the calls after a successful probe do not fail.
\<close>

definition check_database :: "'e option \<Rightarrow> bool" where
  "check_database db_err = (case db_err of None \<Rightarrow> True | Some e \<Rightarrow> False)"

definition check_redis :: "'e option \<Rightarrow> bool" where
  "check_redis redis_err = (case ping redis_err of Inr answer \<Rightarrow> answer | Inl e \<Rightarrow> False)"

text \<open>\<^verbatim>\<open>SELECT status, count(*) \<dots> GROUP BY status\<close>: one row per status that occurs.\<close>

definition group_by_status :: "job list \<Rightarrow> (JobStatus \<times> nat) list" where
  "group_by_status rows =
     map (\<lambda>s. (s, length (filter (\<lambda>j. status j = s) rows))) (remdups (map status rows))"

definition zero_counts :: "string \<Rightarrow> int option" where
  "zero_counts = map_of (map (\<lambda>s. (status_value s, 0)) all_statuses)"

definition job_counts_by_status :: "database \<Rightarrow> string \<Rightarrow> int option" where
  "job_counts_by_status db =
     fold (\<lambda>(s, n) counts. counts(status_value s \<mapsto> int n)) (group_by_status (jobs db)) zero_counts"

text \<open>\<^verbatim>\<open>datetime.fromtimestamp(x, tz=UTC)\<close> of a non-negative double, to the microsecond.\<close>

definition fromtimestamp :: "rat \<Rightarrow> datetime" where
  "fromtimestamp x = py_int x * 1000000 + round_half_even (rnd53 ((x - of_int (py_int x)) * 1000000))"

definition queue_stats :: "('z, uuid) zset_ops \<Rightarrow> bool \<Rightarrow> ('z, 'h) redis \<Rightarrow> json" where
  "queue_stats Z redis_up r =
     (if redis_up then
        JObj [(''pending_depth'', JInt (int (pending_depth Z r))),
              (''scheduled_depth'', JInt (int (scheduled_depth Z r))),
              (''dead_letter_depth'', JInt (int (dead_letter_depth r)))]
      else JObj [(''pending_depth'', JNull), (''scheduled_depth'', JNull), (''dead_letter_depth'', JNull)])"

definition worker_stats :: "settings \<Rightarrow> ('h, string) zset_ops \<Rightarrow> bool \<Rightarrow> rat \<Rightarrow> ('z, 'h) redis \<Rightarrow> json" where
  "worker_stats S H redis_up now r =
     (if redis_up then
        let alive = list_alive_workers H now (worker_heartbeat_ttl_seconds S) r in
        JObj [(''alive_count'', JInt (int (length alive))),
              (''alive'', JArr (map (\<lambda>(w, seen). JObj [(''worker_id'', JStr w),
                  (''last_seen_at'', JStr (isoformat (fromtimestamp seen)))]) alive))]
      else JObj [(''alive_count'', JNull), (''alive'', JNull)])"

text \<open>\<^verbatim>\<open>jobs["pending"]\<close> and so on; every status is a key of the dict.\<close>

definition count_of :: "(string \<Rightarrow> int option) \<Rightarrow> JobStatus \<Rightarrow> string \<times> json" where
  "count_of counts s =
     (status_value s, case counts (status_value s) of Some n \<Rightarrow> JInt n | None \<Rightarrow> JNull)"

definition build_health_payload ::
    "settings \<Rightarrow> ('z, uuid) zset_ops \<Rightarrow> ('h, string) zset_ops \<Rightarrow> 'e option \<Rightarrow> 'e option \<Rightarrow> rat \<Rightarrow>
     database \<Rightarrow> ('z, 'h) redis \<Rightarrow> json_dict \<times> bool" where
  "build_health_payload S Z H db_err redis_err now db r =
     (let database_up = check_database db_err;
          redis_up = check_redis redis_err;
          counts = (if database_up then job_counts_by_status db else zero_counts);
          healthy = (database_up \<and> redis_up)
      in ([(''status'', JStr (if healthy then ''ok'' else ''unavailable'')),
           (''database'', JStr (if database_up then ''ok'' else ''error'')),
           (''redis'', JStr (if redis_up then ''ok'' else ''error'')),
           (''queue'', queue_stats Z redis_up r),
           (''workers'', worker_stats S H redis_up now r),
           (''jobs'', JObj (map (count_of counts) [Pending, Processing, Failed, Scheduled, Completed, Cancelled]))],
          healthy))"

text \<open>\<^verbatim>\<open>app/api/routes/health.py\<close>.\<close>

definition health_route ::
    "settings \<Rightarrow> ('z, uuid) zset_ops \<Rightarrow> ('h, string) zset_ops \<Rightarrow> 'e option \<Rightarrow> 'e option \<Rightarrow> rat \<Rightarrow>
     database \<Rightarrow> ('z, 'h) redis \<Rightarrow> nat \<times> json_dict" where
  "health_route S Z H db_err redis_err now db r =
     (let (payload, healthy) = build_health_payload S Z H db_err redis_err now db r
      in (if healthy then 200 else 503, payload))"

section \<open>Lemmas\<close>

lemma fold_counts:
  "distinct (map fst gs) \<Longrightarrow>
    fold (\<lambda>(s, n) counts. counts(status_value s \<mapsto> int n)) gs m (status_value s) =
      (case map_of gs s of Some n \<Rightarrow> Some (int n) | None \<Rightarrow> m (status_value s))"
proof (induction gs arbitrary: m)
  case (Cons g gs)
  obtain t n where g: "g = (t, n)" by (cases g)
  have "map_of gs t = None" using Cons.prems g by (simp add: map_of_eq_None_iff)
  then show ?case using Cons g by (auto split: option.splits)
qed simp

lemma job_counts_eq:
  "job_counts_by_status db (status_value s) = Some (int (length (filter (\<lambda>j. status j = s) (jobs db))))"
proof -
  have m: "map_of (map (\<lambda>s. (s, f s)) xs) s = (if s \<in> set xs then Some (f s) else None)"
    for f :: "JobStatus \<Rightarrow> nat" and xs by (induction xs) auto
  have z: "zero_counts (status_value s) = Some 0"
    by (cases s) (simp_all add: zero_counts_def all_statuses_def)
  have "distinct (map fst (group_by_status (jobs db)))" by (simp add: group_by_status_def o_def)
  moreover have "filter (\<lambda>j. status j = s) (jobs db) = []" if "s \<notin> status ` set (jobs db)"
    using that by (auto simp: filter_empty_conv)
  ultimately show ?thesis
    using z by (auto simp: job_counts_by_status_def fold_counts group_by_status_def m)
qed

lemma sum_statuses: "(\<Sum>s\<in>UNIV. length (filter (\<lambda>j. status j = s) rows)) = length rows"
proof (induction rows)
  case (Cons j rows)
  have "(\<Sum>s\<in>UNIV. length (filter (\<lambda>j. status j = s) (j # rows))) =
      (\<Sum>s\<in>UNIV. (if status j = s then 1 else 0) + length (filter (\<lambda>j. status j = s) rows))"
    by (intro sum.cong) auto
  with Cons show ?case by (simp add: sum.distrib)
qed simp

section \<open>Properties\<close>

text \<open>
  The counts are exact for every status, also for one without jobs, and together they count
  every job once.
\<close>

lemma health_counts:
  "(\<forall>s. job_counts_by_status db (status_value s) = Some (int (length (filter (\<lambda>j. status j = s) (jobs db))))) \<and>
   (\<Sum>s\<in>UNIV. case job_counts_by_status db (status_value s) of Some n \<Rightarrow> n | None \<Rightarrow> 0) = int (length (jobs db))"
  by (simp add: job_counts_eq sum_statuses flip: of_nat_sum)

text \<open>
  C38. The health endpoint answers 200 exactly when both services are up, and names the one that is
  down; it reports the real sizes of the three queues, every worker whose beat is recent, once, with
  their number, and the real job counts; with Redis down the queue and worker figures are null, with
  the database down all counts are zero.
\<close>

theorem health_report:
  assumes "job_queue Z" and "database_up = (db_err = None)" and "redis_up = (redis_err = None)"
  shows "case health_route S Z H db_err redis_err now db r of (code, body) \<Rightarrow>
    (code = 200 \<longleftrightarrow> database_up \<and> redis_up) \<and> (code = 503 \<longleftrightarrow> \<not> (database_up \<and> redis_up)) \<and>
    map_of body ''status'' = Some (JStr (if database_up \<and> redis_up then ''ok'' else ''unavailable'')) \<and>
    map_of body ''database'' = Some (JStr (if database_up then ''ok'' else ''error'')) \<and>
    map_of body ''redis'' = Some (JStr (if redis_up then ''ok'' else ''error'')) \<and>
    map_of body ''queue'' = Some (if redis_up then
      JObj [(''pending_depth'', JInt (int (card (dom (pending_score Z r))))),
            (''scheduled_depth'', JInt (int (card (dom (scheduled_score Z r))))),
            (''dead_letter_depth'', JInt (int (length (jobs_dead_letter r))))]
      else JObj [(''pending_depth'', JNull), (''scheduled_depth'', JNull), (''dead_letter_depth'', JNull)]) \<and>
    (worker_set H \<longrightarrow> (\<exists>alive. distinct (map fst alive) \<and>
      set alive = {(w, t). zscores H (workers_heartbeat r) w = Some t \<and> rnd53 (now - worker_heartbeat_ttl_seconds S) \<le> t} \<and>
      map_of body ''workers'' = Some (if redis_up then
        JObj [(''alive_count'', JInt (int (length alive))),
              (''alive'', JArr (map (\<lambda>(w, t). JObj [(''worker_id'', JStr w),
                 (''last_seen_at'', JStr (isoformat (fromtimestamp t)))]) alive))]
        else JObj [(''alive_count'', JNull), (''alive'', JNull)]))) \<and>
    map_of body ''jobs'' = Some (JObj (map (\<lambda>s. (status_value s,
      JInt (if database_up then int (length (filter (\<lambda>j. status j = s) (jobs db))) else 0)))
      [Pending, Processing, Failed, Scheduled, Completed, Cancelled]))"
proof -
  have card: "zcard Z s = card (dom (zscores Z s))" for s
    by (rule zset.zcard_scores [OF job_queue.axioms [OF assms(1)]])
  have zero: "zero_counts (status_value s) = Some 0" for s
    by (cases s) (simp_all add: zero_counts_def all_statuses_def)
  have "count_of (job_counts_by_status db) s =
      (status_value s, JInt (int (length (filter (\<lambda>j. status j = s) (jobs db)))))"
    and "count_of zero_counts s = (status_value s, JInt 0)" for s
    by (simp_all add: count_of_def job_counts_eq zero)
  moreover have "check_database db_err = database_up" "check_redis redis_err = redis_up"
    by (simp_all add: assms(2,3) check_database_def check_redis_def ping_def split: option.split)
  moreover have "worker_set H \<longrightarrow> (\<exists>alive. distinct (map fst alive) \<and>
      set alive = {(w, t). zscores H (workers_heartbeat r) w = Some t \<and> rnd53 (now - worker_heartbeat_ttl_seconds S) \<le> t} \<and>
      worker_stats S H redis_up now r = (if redis_up then
        JObj [(''alive_count'', JInt (int (length alive))),
              (''alive'', JArr (map (\<lambda>(w, t). JObj [(''worker_id'', JStr w),
                 (''last_seen_at'', JStr (isoformat (fromtimestamp t)))]) alive))]
        else JObj [(''alive_count'', JNull), (''alive'', JNull)]))"
    by (intro impI exI [of _ "list_alive_workers H now (worker_heartbeat_ttl_seconds S) r"])
      (auto simp: worker_stats_def Let_def worker_set.alive_iff worker_set.alive_distinct)
  ultimately show ?thesis
    by (simp add: health_route_def build_health_payload_def Let_def queue_stats_def pending_depth_def
        scheduled_depth_def dead_letter_depth_def card)
qed

theorem health_report_witness:
  "fst (health_route default_settings list_zset list_zset None (None :: string option) 0 empty_db empty_redis) = 200"
  using health_report [OF list_queue refl refl, where S = default_settings and H = list_zset and db_err = "None :: string option" and redis_err = None and now = 0
    and db = empty_db and r = empty_redis]
  by (simp add: case_prod_unfold)

end
