(* ===== verification/Routes.thy ===== *)
theory Routes
  imports Job_Service Health
begin

text \<open>
  \<^verbatim>\<open>app/api/routes/jobs.py\<close>: the HTTP handlers.  A response is a status code and a body; the
  bodies are the response models of \<^verbatim>\<open>app/api/schemas.py\<close> (their JSON text is pydantic's).  A
  request FastAPI refuses before the handler runs is answered 422; an exception that escapes the
  handler, 500.
\<close>

record job_response =
  resp_id :: uuid
  resp_job_type :: JobType
  resp_status :: JobStatus
  resp_priority :: int
  resp_payload :: json_dict
  resp_progress_pct :: int
  resp_attempt_count :: int
  resp_max_attempts :: int
  resp_result :: "json option"
  resp_error_message :: "string option"
  resp_created_at :: datetime
  resp_started_at :: "datetime option"
  resp_completed_at :: "datetime option"
  resp_scheduled_at :: "datetime option"
  resp_next_run_at :: "datetime option"

datatype body =
    JobBody job_response
  | IdempotentJobBody uuid JobStatus
  | JobListBody "job_response list" nat int int
  | Detail string
  | RequestInvalid
  | InternalServerError

type_synonym response = "nat \<times> body"

definition job_response_of :: "job \<Rightarrow> job_response" where
  "job_response_of j = \<lparr>resp_id = job_id j, resp_job_type = job_type j, resp_status = status j,
     resp_priority = priority j, resp_payload = payload j, resp_progress_pct = progress_pct j,
     resp_attempt_count = attempt_count j, resp_max_attempts = max_attempts j, resp_result = result j,
     resp_error_message = error_message j, resp_created_at = created_at j, resp_started_at = started_at j,
     resp_completed_at = completed_at j, resp_scheduled_at = scheduled_at j, resp_next_run_at = next_run_at j\<rparr>"

section \<open>The handlers\<close>

text \<open>\<open>recv\<close> is the clock of the validation, \<open>now\<close> the database's at the insert.\<close>

definition create_job_route ::
    "settings \<Rightarrow> ('z, uuid) zset_ops \<Rightarrow> (string \<Rightarrow> string option) \<Rightarrow> (string \<Rightarrow> string option) \<Rightarrow>
     uuid \<Rightarrow> datetime \<Rightarrow> datetime \<Rightarrow> JobType \<Rightarrow> json_dict \<Rightarrow> int \<Rightarrow> py_datetime option \<Rightarrow> string option \<Rightarrow>
     database \<Rightarrow> ('z, 'h) redis \<Rightarrow> response \<times> database \<times> ('z, 'h) redis" where
  "create_job_route S Z email_str http_url new_id recv now t d p s idem db r =
     (case job_create email_str http_url recv t d p s of
        Inl e \<Rightarrow> ((422, RequestInvalid), db, r)
      | Inr data \<Rightarrow>
          (case submit_job S Z new_id now data idem db r of
             (Inl (InvalidIdempotencyKeyError m), st) \<Rightarrow> ((422, Detail m), st)
           | (Inl e, st) \<Rightarrow> ((500, InternalServerError), st)
           | (Inr (job, created), st) \<Rightarrow>
               (if created then (201, JobBody (job_response_of job))
                else (200, IdempotentJobBody (job_id job) (status job)), st)))"

text \<open>
  \<open>scan\<close> is the order in which the query meets the rows, as in \<open>list_jobs\<close>;
  \<open>bind_max\<close> is the largest integer the driver can bind to a statement (\<^verbatim>\<open>asyncpg\<close>, outside the
  repository); the request has no upper bound on \<^verbatim>\<open>offset\<close>, and beyond it the driver raises.
\<close>

definition list_jobs_route ::
    "int \<Rightarrow> (job list \<Rightarrow> job list) \<Rightarrow> database \<Rightarrow> JobStatus option \<Rightarrow> JobType option \<Rightarrow> int \<Rightarrow> int \<Rightarrow> response" where
  "list_jobs_route bind_max scan db st ty limit offset =
     (if limit < 1 \<or> 100 < limit \<or> offset < 0 then (422, RequestInvalid)
      else if bind_max < offset then (500, InternalServerError)
      else let (page, n) = list_jobs scan db st ty (nat limit) (nat offset)
           in (200, JobListBody (map job_response_of page) n limit offset))"

definition read_job_route :: "database \<Rightarrow> uuid \<Rightarrow> response" where
  "read_job_route db i =
     (case get_job db i of
        None \<Rightarrow> (404, Detail ''Job not found'')
      | Some j \<Rightarrow> (200, JobBody (job_response_of j)))"

text \<open>The two action handlers translate the service's outcome alike.\<close>

fun action_response :: "(service_error, job) result \<Rightarrow> response" where
  "action_response (Inr j) = (200, JobBody (job_response_of j))"
| "action_response (Inl (JobNotFoundError m)) = (404, Detail ''Job not found'')"
| "action_response (Inl (JobConflictError m)) = (409, Detail m)"
| "action_response (Inl e) = (500, InternalServerError)"

definition cancel_job_route ::
    "('z, uuid) zset_ops \<Rightarrow> uuid \<Rightarrow> database \<Rightarrow> ('z, 'h) redis \<Rightarrow> response \<times> database \<times> ('z, 'h) redis" where
  "cancel_job_route Z i db r = (let (out, st) = cancel_job Z i db r in (action_response out, st))"

definition retry_job_route ::
    "datetime \<Rightarrow> uuid \<Rightarrow> database \<Rightarrow> ('z, 'h) redis \<Rightarrow> response \<times> database \<times> ('z, 'h) redis" where
  "retry_job_route now i db r = (let (out, st) = manual_retry now i db r in (action_response out, st))"

section \<open>Lemmas\<close>

lemma submit_job_cases:
  obtains (bad_key) m where "submit_job S Z i now data idem db r = (Inl (InvalidIdempotencyKeyError m), db, r)"
  | (duplicate) j where "submit_job S Z i now data idem db r = (Inr (j, False), db, r)"
  | (clash) "submit_job S Z i now data idem db r = (Inl UnhandledIntegrityError, db, r)"
  | (unstorable) "submit_job S Z i now data idem db r = (Inl UnhandledDBAPIError, db, r)"
  | (created) key where "normalize_idempotency_key idem = Inr key" "can_insert S i data key db"
      "submit_job S Z i now data idem db r =
        (Inr (new_job S i now data key, True),
         db\<lparr>jobs := jobs db @ [new_job S i now data key],
            job_logs := job_logs db @ created_log (new_job S i now data key)\<rparr>,
         submit_dispatch Z (new_job S i now data key) r)"
proof (cases "normalize_idempotency_key idem")
  case (Inl e)
  then obtain m where "e = InvalidIdempotencyKeyError m"
    by (auto simp: normalize_idempotency_key_def Let_def split: option.splits if_splits)
  with Inl show ?thesis by (intro bad_key) (simp add: submit_job_def)
next
  case (Inr key)
  show ?thesis
  proof (cases "submit_lookup key db")
    case (Some j)
    with Inr show ?thesis by (intro duplicate) (simp add: submit_job_def)
  next
    case None
    show ?thesis
    proof (cases "can_insert S i data key db")
      case True
      with Inr None show ?thesis
        by (intro created) (simp_all add: submit_job_def submit_new_eq insert_new_job Let_def)
    next
      case False
      with Inr None show ?thesis
        by (cases "storable (JObj (jc_payload data))")
          (rule clash unstorable, simp add: submit_job_def submit_new_eq insert_new_job Let_def)+
    qed
  qed
qed

lemma get_row_new_job:
  "can_insert S i data key db \<Longrightarrow>
    get_row k (jobs db @ [new_job S i now data key]) =
      (if k = i then Some (new_job S i now data key) else get_row k (jobs db))"
  by (auto simp: get_row_append can_insert_def row_simps split: option.split)

section \<open>Properties\<close>

text \<open>
  C37. Answers of \<^verbatim>\<open>POST /jobs\<close>: 201, 200, 422 or 500, and only a 201 changes anything.  After a
  201, \<^verbatim>\<open>GET /jobs/{id}\<close> answers with exactly the body that was returned, and every other job
  reads as before.
\<close>

theorem create_then_read:
  assumes "create_job_route S Z email_str http_url i recv now t d p s idem db r = ((code, b), db', r')"
  shows "code \<in> {200, 201, 422, 500} \<and>
    (code \<noteq> 201 \<longrightarrow> db' = db \<and> r' = r) \<and>
    (code = 201 \<longrightarrow> read_job_route db' i = (200, b) \<and> (\<forall>k. k \<noteq> i \<longrightarrow> read_job_route db' k = read_job_route db k))"
proof (cases "job_create email_str http_url recv t d p s")
  case (Inl e)
  with assms show ?thesis by (auto simp: create_job_route_def)
next
  case (Inr data)
  show ?thesis
  proof (cases rule: submit_job_cases [of S Z i now data idem db r])
    case (created key)
    with Inr assms get_row_new_job [OF created(2)] show ?thesis
      by (auto simp: create_job_route_def read_job_route_def get_job_def)
  qed (use Inr assms in \<open>auto simp: create_job_route_def\<close>)
qed

theorem create_then_read_witness:
  "\<exists>code b db' (r' :: list_redis). create_job_route default_settings list_zset (\<lambda>s. Some s) (\<lambda>s. Some s) 7 10 20 Report [] 0 None None
     empty_db empty_redis = ((code, b), db', r') \<and> code \<in> {200, 201, 422, 500}"
proof -
  obtain code b db' r' where c: "create_job_route default_settings list_zset (\<lambda>s. Some s) (\<lambda>s. Some s) 7 10 20 Report [] 0 None None
     empty_db empty_redis = ((code, b), db', r')" by (metis prod.exhaust)
  from create_then_read [OF c] c show ?thesis by blast
qed

text \<open>
  Answers of the cancel and retry endpoints: 404 exactly for an unknown job, 409 exactly for a
  job in another status than the action needs, else 200 with the new row; a refused request
  changes nothing.
\<close>

lemma action_answers:
  assumes "job_queue Z" and "db_ok db"
  shows "(case cancel_job_route Z i db r of ((code, b), db', r') \<Rightarrow>
      (case get_row i (jobs db) of
         None \<Rightarrow> code = 404 \<and> db' = db \<and> r' = r
       | Some j \<Rightarrow> if status j = Pending \<or> status j = Scheduled
                  then code = 200 \<and> b = JobBody (job_response_of (cancel_values j))
                  else code = 409 \<and> db' = db \<and> r' = r)) \<and>
    (case retry_job_route now i db r of ((code, b), db', r') \<Rightarrow>
      (case get_row i (jobs db) of
         None \<Rightarrow> code = 404 \<and> db' = db \<and> r' = r
       | Some j \<Rightarrow> if status j = Failed
                  then code = 200 \<and> b = JobBody (job_response_of (retry_values now j))
                  else code = 409 \<and> db' = db \<and> r' = r))"
proof -
  have get: "get_job db i = get_row i (jobs db)" by (simp add: get_job_def)
  have fresh: "refresh (cancel_commit j db) j = cancel_values j" "refresh (retry_commit now j db) j = retry_values now j"
    if "get_row i (jobs db) = Some j" for j
    using that get_row_Some [OF that] cancelling.commit_fresh [OF that] retrying.commit_fresh [OF that]
    by (simp_all add: refresh_def cancel_commit_def retry_commit_def)
  show ?thesis
    by (cases "get_row i (jobs db)")
      (auto simp: cancel_job_route_def retry_job_route_def cancel_job_def manual_retry_def get
        cancel_check_def retry_check_def not_found_def Let_def fresh)
qed

text \<open>
  \<^verbatim>\<open>GET /jobs\<close> answers 422 exactly when the page parameters are out of range, and 500 when the
  offset is beyond the integers of the driver (finding: nothing refuses it); otherwise the page holds
  at most \<open>limit\<close> jobs, all of them matching the filters, newest first, and the total counts all matches.
\<close>

lemma list_answers:
  assumes "arranges scan" "db_ok db"
  shows "case list_jobs_route bind_max scan db st ty limit offset of (code, b) \<Rightarrow>
    (code = 422 \<longleftrightarrow> \<not> (1 \<le> limit \<and> limit \<le> 100 \<and> 0 \<le> offset)) \<and>
    (code = 500 \<longleftrightarrow> 1 \<le> limit \<and> limit \<le> 100 \<and> 0 \<le> offset \<and> bind_max < offset) \<and>
    (code \<noteq> 422 \<and> code \<noteq> 500 \<longrightarrow> code = 200 \<and> (\<exists>page. b = JobListBody (map job_response_of page)
        (length (filter (list_filter st ty) (jobs db))) limit offset \<and>
      length page \<le> nat limit \<and> sorted (map (\<lambda>j. - created_at j) page) \<and>
      set page \<subseteq> {j \<in> set (jobs db). list_filter st ty j}))"
proof -
  obtain page n where p: "list_jobs scan db st ty (nat limit) (nat offset) = (page, n)" by fastforce
  define ys where "ys = sort_key (\<lambda>j. - created_at j) (scan (filter (list_filter st ty) (jobs db)))"
  note ys = list_jobs_arranged [OF assms ys_def]
  have page: "page = take (nat limit) (drop (nat offset) ys)" "n = length (filter (list_filter st ty) (jobs db))"
    using p by (auto simp: list_jobs_def Let_def ys_def)
  have "set page \<subseteq> set ys" using set_take_subset set_drop_subset unfolding page(1) by fast
  then have "set page \<subseteq> {j \<in> set (jobs db). list_filter st ty j}" by (simp only: ys(1))
  moreover have "sorted (map (\<lambda>j. - created_at j) page)"
    unfolding page(1) using ys(4) by (metis sorted_wrt_drop sorted_wrt_take take_map drop_map)
  moreover have "length page \<le> nat limit" by (simp add: page(1))
  ultimately show ?thesis unfolding list_jobs_route_def p page(2) [symmetric] by simp blast
qed


lemma nul_payload_answered_500:
  "create_job_route S Z email_str http_url i recv now Batch [(''items'', JArr [JStr [CHR 0x00]])] 0 None None db r =
    ((500, InternalServerError), db, r)"
proof -
  let ?d = "[(''items'', JArr [JStr [CHR 0x00]])]"
  have "length (dumps (JObj ?d)) \<le> PAYLOAD_MAX_BYTES"
    by (simp add: dumps_str_def esc_char_def PAYLOAD_MAX_BYTES_def Let_def hex_fixed_def)
  then have "job_create email_str http_url recv Batch ?d 0 None =
      Inr \<lparr>jc_job_type = Batch, jc_payload = ?d, jc_priority = 0, jc_scheduled_at = None\<rparr>"
    by (simp add: job_create_def scheduled_at_must_be_future_def validate_payload_for_job_type_def
        validate_batch_def only_keys_def BATCH_MAX_ITEMS_def)
  then show ?thesis
    by (simp add: create_job_route_def submit_job_def submit_new_eq insert_new_job can_insert_def
        normalize_idempotency_key_def submit_lookup_def Let_def)
qed

end
