(* ===== verification/Outages.thy ===== *)
theory Outages
  imports Quiescence Routes
begin

text \<open>
  Redis out of order.  A call of the client library may raise, whether or not the server has
  executed the command; the library (\<^verbatim>\<open>redis==5.2.1\<close>, default settings) sends a command once.  No
  operation of the program catches these exceptions, so the call ends it: the definitions below are
  the operations that talk to Redis, written once more with the replies they meet.  PostgreSQL has
  been committed to before, so that only answers and Redis suffer; and every such run is still one
  of the interleaved runs of \<open>Cluster\<close>.
\<close>

section \<open>Calls that fail\<close>

text \<open>The fate of a call; after the replies listed, all calls are answered.\<close>

datatype reply = Answered | Refused | Unanswered

fun next_reply :: "reply list \<Rightarrow> reply" where
  "next_reply [] = Answered"
| "next_reply (p # net) = p"

text \<open>Commands sent one after the other until one raises: whether all were answered, the replies left, Redis.\<close>

fun deliver ::
    "('z, uuid) zset_ops \<Rightarrow> command list \<Rightarrow> reply list \<Rightarrow> ('z, 'h) redis \<Rightarrow> bool \<times> reply list \<times> ('z, 'h) redis" where
  "deliver Z [] net r = (True, net, r)"
| "deliver Z (k # ks) net r =
     (case next_reply net of
        Answered \<Rightarrow> deliver Z ks (tl net) (send Z k r)
      | Refused \<Rightarrow> (False, tl net, r)
      | Unanswered \<Rightarrow> (False, tl net, send Z k r))"

text \<open>How an operation ends that does not return.\<close>

datatype failure = Service service_error | RedisError

section \<open>The API\<close>

definition submit_new_failing ::
    "settings \<Rightarrow> ('z, uuid) zset_ops \<Rightarrow> reply list \<Rightarrow> uuid \<Rightarrow> datetime \<Rightarrow> JobCreate \<Rightarrow> string option \<Rightarrow>
     database \<Rightarrow> ('z, 'h) redis \<Rightarrow> (failure, job \<times> bool) result \<times> database \<times> ('z, 'h) redis" where
  "submit_new_failing S Z net new_id now data key db r =
     (let job = new_job S new_id now data key in
      case insert_row job (jobs db) of
        Inl e \<Rightarrow> (Inl (Service (unhandled e)), db, r)
      | Inr rows \<Rightarrow>
          (case commit_logs (created_log job) (db\<lparr>jobs := rows\<rparr>) of
             Inr db' \<Rightarrow>
               let (ok, _, r') = deliver Z [dispatch_command job] net r
               in (if ok then Inr (job, True) else Inl RedisError, db', r')
           | Inl DBAPIError \<Rightarrow> (Inl (Service UnhandledDBAPIError), db, r)
           | Inl IntegrityError \<Rightarrow>
               (case submit_lookup key db of
                  None \<Rightarrow> (Inl (Service UnhandledIntegrityError), db, r)
                | Some existing \<Rightarrow> (Inr (existing, False), db, r))))"

definition submit_job_failing ::
    "settings \<Rightarrow> ('z, uuid) zset_ops \<Rightarrow> reply list \<Rightarrow> uuid \<Rightarrow> datetime \<Rightarrow> JobCreate \<Rightarrow> string option \<Rightarrow>
     database \<Rightarrow> ('z, 'h) redis \<Rightarrow> (failure, job \<times> bool) result \<times> database \<times> ('z, 'h) redis" where
  "submit_job_failing S Z net new_id now data idem db r =
     (case normalize_idempotency_key idem of
        Inl e \<Rightarrow> (Inl (Service e), db, r)
      | Inr key \<Rightarrow>
          (case submit_lookup key db of
             Some existing \<Rightarrow> (Inr (existing, False), db, r)
           | None \<Rightarrow> submit_new_failing S Z net new_id now data key db r))"

text \<open>\<^verbatim>\<open>QueueClient.remove\<close> is two calls.\<close>

definition cancel_job_failing ::
    "('z, uuid) zset_ops \<Rightarrow> reply list \<Rightarrow> uuid \<Rightarrow> database \<Rightarrow> ('z, 'h) redis \<Rightarrow>
     (failure, job) result \<times> database \<times> ('z, 'h) redis" where
  "cancel_job_failing Z net i db r =
     (case cancel_check i (get_job db i) of
        Inl e \<Rightarrow> (Inl (Service e), db, r)
      | Inr job \<Rightarrow>
          let db' = cancel_commit job db;
              (ok, _, r') = deliver Z [RemovePending i, RemoveScheduled i] net r
          in (if ok then Inr (refresh db' job) else Inl RedisError, db', r'))"

definition manual_retry_failing ::
    "('z, uuid) zset_ops \<Rightarrow> reply list \<Rightarrow> datetime \<Rightarrow> uuid \<Rightarrow> database \<Rightarrow> ('z, 'h) redis \<Rightarrow>
     (failure, job) result \<times> database \<times> ('z, 'h) redis" where
  "manual_retry_failing Z net now i db r =
     (case retry_check i (get_job db i) of
        Inl e \<Rightarrow> (Inl (Service e), db, r)
      | Inr job \<Rightarrow>
          let db' = retry_commit now job db;
              (ok, _, r') = deliver Z [RemoveDeadLetter (job_id job)] net r
          in (if ok then Inr (refresh db' job) else Inl RedisError, db', r'))"

text \<open>The handlers translate the errors of the service; any other exception is a 500.\<close>

fun action_response_failing :: "(failure, job) result \<Rightarrow> response" where
  "action_response_failing (Inr j) = action_response (Inr j)"
| "action_response_failing (Inl (Service e)) = action_response (Inl e)"
| "action_response_failing (Inl RedisError) = (500, InternalServerError)"

definition create_job_route_failing ::
    "settings \<Rightarrow> ('z, uuid) zset_ops \<Rightarrow> reply list \<Rightarrow> (string \<Rightarrow> string option) \<Rightarrow> (string \<Rightarrow> string option) \<Rightarrow>
     uuid \<Rightarrow> datetime \<Rightarrow> datetime \<Rightarrow> JobType \<Rightarrow> json_dict \<Rightarrow> int \<Rightarrow> py_datetime option \<Rightarrow> string option \<Rightarrow>
     database \<Rightarrow> ('z, 'h) redis \<Rightarrow> response \<times> database \<times> ('z, 'h) redis" where
  "create_job_route_failing S Z net email_str http_url new_id recv now t d p s idem db r =
     (case job_create email_str http_url recv t d p s of
        Inl e \<Rightarrow> ((422, RequestInvalid), db, r)
      | Inr data \<Rightarrow>
          (case submit_job_failing S Z net new_id now data idem db r of
             (Inl (Service (InvalidIdempotencyKeyError m)), st) \<Rightarrow> ((422, Detail m), st)
           | (Inl e, st) \<Rightarrow> ((500, InternalServerError), st)
           | (Inr (job, created), st) \<Rightarrow>
               (if created then (201, JobBody (job_response_of job))
                else (200, IdempotentJobBody (job_id job) (status job)), st)))"

definition cancel_job_route_failing ::
    "('z, uuid) zset_ops \<Rightarrow> reply list \<Rightarrow> uuid \<Rightarrow> database \<Rightarrow> ('z, 'h) redis \<Rightarrow> response \<times> database \<times> ('z, 'h) redis" where
  "cancel_job_route_failing Z net i db r =
     (let (out, st) = cancel_job_failing Z net i db r in (action_response_failing out, st))"

definition retry_job_route_failing ::
    "('z, uuid) zset_ops \<Rightarrow> reply list \<Rightarrow> datetime \<Rightarrow> uuid \<Rightarrow> database \<Rightarrow> ('z, 'h) redis \<Rightarrow>
     response \<times> database \<times> ('z, 'h) redis" where
  "retry_job_route_failing Z net now i db r =
     (let (out, st) = manual_retry_failing Z net now i db r in (action_response_failing out, st))"

section \<open>The worker\<close>

definition apply_failure_failing ::
    "settings \<Rightarrow> ('z, uuid) zset_ops \<Rightarrow> reply list \<Rightarrow> datetime \<Rightarrow> string \<Rightarrow> bool \<Rightarrow> job \<Rightarrow>
     database \<times> ('z, 'h) redis \<Rightarrow> bool \<times> database \<times> ('z, 'h) redis" where
  "apply_failure_failing S Z net now msg permanent job = (\<lambda>(db, r).
     let db = orm_commit job (failure_values S now msg permanent job) (failure_log S now msg permanent job) db in
     if retries permanent job then (True, db, r)
     else let (ok, _, r) = deliver Z [DeadLetter (job_id job)] net r in (ok, db, r))"

definition finalize_failing ::
    "settings \<Rightarrow> ('z, uuid) zset_ops \<Rightarrow> reply list \<Rightarrow> datetime \<Rightarrow> run_outcome \<Rightarrow> job \<Rightarrow>
     database \<times> ('z, 'h) redis \<Rightarrow> bool \<times> database \<times> ('z, 'h) redis" where
  "finalize_failing S Z net now out job st =
     (let timed_out = apply_failure_failing S Z net now (''timed out after '' @ fmt_g (job_timeout_seconds S) @ ''s'') False job st in
      case out of
        Returned d \<Rightarrow> (True, complete_job now d job (fst st), snd st)
      | TimedOut \<Rightarrow> timed_out
      | Raised e \<Rightarrow>
          if exn_type e = ''TimeoutError'' then timed_out
          else (case e of
                  UnknownJobTypeError m \<Rightarrow> apply_failure_failing S Z net now (safe_error_message e) True job st
                | _ \<Rightarrow> apply_failure_failing S Z net now (safe_error_message e) False job st))"

text \<open>The result \<open>None\<close> is the exception; the \<^verbatim>\<open>finally\<close> clears the holder all the same.\<close>

definition process_one_failing ::
    "settings \<Rightarrow> ('z, uuid) zset_ops \<Rightarrow> reply list \<Rightarrow> string \<Rightarrow> run_env \<Rightarrow> ('z, 'h) worker_state \<Rightarrow>
     bool option \<times> ('z, 'h) worker_state" where
  "process_one_failing S Z net w env = (\<lambda>(holder, db, r).
     (case next_reply net of
        Refused \<Rightarrow> (None, holder, db, r)
      | Unanswered \<Rightarrow> (None, holder, db, snd (dequeue Z r))
      | Answered \<Rightarrow>
          (case dequeue Z r of
             (None, r) \<Rightarrow> (Some False, holder, db, r)
           | (Some i, r) \<Rightarrow>
               (case claim_job (clk_claim env) (clk_db env) i w (worker_lease_seconds S) db of
                  (None, db) \<Rightarrow> (Some True, holder, db, r)
                | (Some job, db) \<Rightarrow>
                    let holder = Some (job_id job);
                        db = start_commit w job db;
                        (pcts, out) = execute S env job;
                        (job', db) = fold report_progress pcts (job, db);
                        (ok, db, r) = finalize_failing S Z (tl net) (clk_done env) out job' (db, r);
                        holder = clear_holder (job_id job') holder
                    in (if ok then Some True else None, holder, db, r)))))"

section \<open>The maintenance process\<close>

fun feed_failing ::
    "('z, uuid) zset_ops \<Rightarrow> job list \<Rightarrow> reply list \<Rightarrow> nat \<times> ('z, 'h) redis \<Rightarrow> nat option \<times> ('z, 'h) redis" where
  "feed_failing Z [] net (promoted, r) = (Some promoted, r)"
| "feed_failing Z (job # js) net (promoted, r) =
     (let (added, _) = enqueue Z (job_id job) (priority_score (priority job) (created_at job)) True r;
          (ok, net, r) = deliver Z [enqueue_command job True] net r
      in if ok then feed_failing Z js net (if added then promoted + 1 else promoted, r) else (None, r))"

definition promote_ready_jobs_failing ::
    "('z, uuid) zset_ops \<Rightarrow> reply list \<Rightarrow> nat \<Rightarrow> datetime \<Rightarrow> database \<Rightarrow> ('z, 'h) redis \<Rightarrow> nat option \<times> ('z, 'h) redis" where
  "promote_ready_jobs_failing Z net limit db_now db r = feed_failing Z (select_ready limit db_now db) net (0, r)"

fun promote_failing ::
    "('z, uuid) zset_ops \<Rightarrow> (uuid \<Rightarrow> datetime) \<Rightarrow> uuid list \<Rightarrow> reply list \<Rightarrow> nat \<times> database \<times> ('z, 'h) redis \<Rightarrow>
     nat option \<times> database \<times> ('z, 'h) redis" where
  "promote_failing Z clk [] net (promoted, st) = (Some promoted, st)"
| "promote_failing Z clk (i # ids) net (promoted, db, r) =
     (let (returned, rows) = update_returning (promote_guard i (clk i)) promote_set (jobs db) in
      case scalar_one_or_none returned of
        None \<Rightarrow>
          let (ok, net, r) = deliver Z [RemoveScheduled i] net r
          in if ok then promote_failing Z clk ids net (promoted, db, r) else (None, db, r)
      | Some job \<Rightarrow>
          let db = db\<lparr>jobs := rows\<rparr>;
              (ok, net, r) = deliver Z [RemoveScheduled i, enqueue_command job False] net r
          in if ok then promote_failing Z clk ids net (promoted + 1, db, r) else (None, db, r))"

text \<open>The first call reads the due entries; unanswered or refused, the cycle ends before it has begun.\<close>

definition promote_due_scheduled_failing ::
    "('z, uuid) zset_ops \<Rightarrow> reply list \<Rightarrow> nat \<Rightarrow> datetime \<Rightarrow> (uuid \<Rightarrow> datetime) \<Rightarrow> database \<Rightarrow> ('z, 'h) redis \<Rightarrow>
     nat option \<times> database \<times> ('z, 'h) redis" where
  "promote_due_scheduled_failing Z net limit moment clk db r =
     (if next_reply net = Answered
      then promote_failing Z clk (candidates Z limit moment db r) (tl net) (0, db, r) else (None, db, r))"

section \<open>Sequences of operations\<close>

text \<open>Whether the operation returned, and the state it left.\<close>

fun perform_failing ::
    "settings \<Rightarrow> ('z, uuid) zset_ops \<Rightarrow> reply list \<Rightarrow> operation \<Rightarrow> database \<times> ('z, 'h) redis \<Rightarrow>
     bool \<times> database \<times> ('z, 'h) redis" where
  "perform_failing S Z net (SubmitJob i now data idem) (d, r) =
     (let (res, st) = submit_job_failing S Z net i now data idem d r in (res \<noteq> Inl RedisError, st))"
| "perform_failing S Z net (CancelJob i) (d, r) =
     (let (res, st) = cancel_job_failing Z net i d r in (res \<noteq> Inl RedisError, st))"
| "perform_failing S Z net (RetryJob now i) (d, r) =
     (let (res, st) = manual_retry_failing Z net now i d r in (res \<noteq> Inl RedisError, st))"
| "perform_failing S Z net (WorkerRound w env) (d, r) =
     (let (res, _, st) = process_one_failing S Z net w env (None, d, r) in (res \<noteq> None, st))"
| "perform_failing S Z net (FeederCycle limit t) (d, r) =
     (let (res, r) = promote_ready_jobs_failing Z net limit t d r in (res \<noteq> None, d, r))"
| "perform_failing S Z net (SchedulerCycle limit moment clk) (d, r) =
     (let (res, st) = promote_due_scheduled_failing Z net limit moment clk d r in (res \<noteq> None, st))"
| "perform_failing S Z net op st = (True, perform S Z op st)"

section \<open>When all calls are answered\<close>

abbreviation answered :: "reply list \<Rightarrow> bool" where
  "answered net \<equiv> list_all (\<lambda>p. p = Answered) net"

lemma answered_next [simp]: "answered net \<Longrightarrow> next_reply net = Answered" "answered net \<Longrightarrow> answered (tl net)"
  by (cases net; simp)+

lemma deliver_answered:
  "answered net \<Longrightarrow> deliver Z ks net r = (True, drop (length ks) net, fold (send Z) ks r)"
  by (induction ks arbitrary: net r) (simp_all add: drop_Suc)

lemma submit_new_answered:
  "answered net \<Longrightarrow> submit_new_failing S Z net i now data key d r = map_prod (map_sum Service id) id (submit_new S Z i now data key d r)"
  by (simp add: submit_new_failing_def submit_new_def deliver_answered send_dispatch Let_def
      split: sum.split db_error.split option.split)

lemma submit_job_answered:
  "answered net \<Longrightarrow> submit_job_failing S Z net i now data idem d r = map_prod (map_sum Service id) id (submit_job S Z i now data idem d r)"
  by (simp add: submit_job_failing_def submit_job_def submit_new_answered split: sum.split option.split)

lemma send_removes: "fold (send Z) [RemovePending i, RemoveScheduled i] r = remove_job Z i r"
  by (simp add: remove_job_def remove_scheduled_def)

lemma cancel_job_answered:
  "answered net \<Longrightarrow> cancel_job_failing Z net i d r = map_prod (map_sum Service id) id (cancel_job Z i d r)"
  by (simp add: cancel_job_failing_def cancel_job_def deliver_answered Let_def remove_job_def remove_scheduled_def del: deliver.simps split: sum.split)

lemma manual_retry_answered:
  "answered net \<Longrightarrow> manual_retry_failing Z net now i d r = map_prod (map_sum Service id) id (manual_retry now i d r)"
  by (simp add: manual_retry_failing_def manual_retry_def deliver_answered Let_def split: sum.split)

lemma finalize_answered:
  "answered net \<Longrightarrow> finalize_failing S Z net now out job st = (True, finalize S now out job st)"
  by (simp add: finalize_failing_def finalize_def apply_failure_failing_def apply_failure_def case_prod_unfold
      deliver_answered Let_def split: run_outcome.split handler_exn.split)

lemma process_one_answered:
  "answered net \<Longrightarrow> process_one_failing S Z net w env st = map_prod Some id (process_one S Z w env st)"
  by (simp add: process_one_failing_def process_one_def finalize_answered case_prod_unfold Let_def split: option.split)

lemma feed_answered:
  "answered net \<Longrightarrow> feed_failing Z js net st = map_prod Some id (fold (feed_one Z) js st)"
  by (induction js arbitrary: net st)
    (simp_all add: feed_one_def deliver_answered enqueue_command_def case_prod_unfold Let_def split_paired_all)

lemma promote_answered:
  "answered net \<Longrightarrow> promote_failing Z clk ids net st = map_prod Some id (fold (\<lambda>i. promote_one Z (clk i) i) ids st)"
  by (induction ids arbitrary: net st)
    (simp_all add: promote_one_def deliver_answered enqueue_command_def case_prod_unfold Let_def split_paired_all
      split: option.split)

lemma service_error [simp]: "map_sum Service id res \<noteq> Inl RedisError"
  by (cases res) simp_all

lemma perform_answered:
  "answered net \<Longrightarrow> perform_failing S Z net op st = (True, perform S Z op st)"
  by (cases op; cases st)
    (simp_all add: submit_job_answered cancel_job_answered manual_retry_answered process_one_answered
      promote_ready_jobs_failing_def promote_ready_jobs_def feed_answered
      promote_due_scheduled_failing_def promote_due_scheduled_def promote_answered case_prod_unfold)

section \<open>Every outage is a run of the cluster\<close>

lemma lose_all: "execute_all S Z (map Lose ks) (c\<lparr>todo := ks\<rparr>) = c\<lparr>todo := []\<rparr>"
  by (induction ks arbitrary: c) simp_all

text \<open>What was answered was sent; of the rest, perhaps one command was sent, the others never.\<close>

lemma deliver_run:
  "\<exists>acts. execute_all S Z acts (c\<lparr>todo := ks\<rparr>) = c\<lparr>store := snd (snd (deliver Z ks net (store c))), todo := []\<rparr>"
proof (induction ks arbitrary: c net)
  case Nil
  show ?case by (intro exI [of _ "[]"]) simp
next
  case (Cons k ks)
  have sent: "act S Z (Send k) (c\<lparr>todo := k # ks\<rparr>) = (c\<lparr>store := send Z k (store c)\<rparr>)\<lparr>todo := ks\<rparr>" by simp
  show ?case
  proof (cases "next_reply net")
    case Answered
    obtain acts where "execute_all S Z acts ((c\<lparr>store := send Z k (store c)\<rparr>)\<lparr>todo := ks\<rparr>) =
        c\<lparr>store := snd (snd (deliver Z ks (tl net) (send Z k (store c)))), todo := []\<rparr>"
      using Cons.IH [of "c\<lparr>store := send Z k (store c)\<rparr>" "tl net"] by auto
    with sent Answered show ?thesis by (intro exI [of _ "Send k # acts"]) (simp del: act.simps)
  next
    case Refused
    with lose_all [of S Z "k # ks" c] show ?thesis by (intro exI [of _ "map Lose (k # ks)"]) simp
  next
    case Unanswered
    with sent lose_all [of S Z ks "c\<lparr>store := send Z k (store c)\<rparr>"] show ?thesis
      by (intro exI [of _ "Send k # map Lose ks"]) (simp del: act.simps)
  qed
qed

text \<open>Some actions, and then commands of which some get through.\<close>

lemma realises_then_deliver:
  assumes "execute_all S Z acts c = (with_state c (d, r))\<lparr>todo := ks\<rparr>" "todo c = []"
  shows "realises S Z c (d, snd (snd (deliver Z ks net r)))"
proof -
  obtain bs where "execute_all S Z bs ((with_state c (d, r))\<lparr>todo := ks\<rparr>) =
      (with_state c (d, r))\<lparr>store := snd (snd (deliver Z ks net r)), todo := []\<rparr>"
    using deliver_run [of S Z ks "with_state c (d, r)" net] by auto
  with assms show ?thesis by (intro realisesI [of S Z "acts @ bs"]) (cases c, simp)
qed

lemma submit_new_failing_eq:
  "snd (submit_new_failing S Z net i now data key d r) =
    (let job = new_job S i now data key in
     case insert_row job (jobs d) of
       Inl e \<Rightarrow> (d, r)
     | Inr rows \<Rightarrow> (d\<lparr>jobs := rows, job_logs := job_logs d @ created_log job\<rparr>, snd (snd (deliver Z [dispatch_command job] net r))))"
  by (cases "insert_row (new_job S i now data key) (jobs d)")
    (simp_all add: submit_new_failing_def commit_logs_after_insert case_prod_unfold Let_def del: deliver.simps split: db_error.split)

lemma submit_failing_realised:
  assumes "todo c = []"
  shows "realises S Z c (snd (submit_job_failing S Z net i now data idem (sys_db (core c)) (store c)))"
proof -
  have "realises S Z c (snd (submit_new_failing S Z net i now data key (sys_db (core c)) (store c)))" for key
  proof (cases "insert_row (new_job S i now data key) (jobs (sys_db (core c)))")
    case (Inr rows)
    show ?thesis
      unfolding submit_new_failing_eq Let_def Inr sum.case
      by (rule realises_then_deliver [of S Z "[Commit (Submit i now data key)]"])
        (use Inr assms in \<open>simp_all add: step.simps commit_logs_after_insert\<close>)
  qed (simp add: submit_new_failing_eq Let_def realises_refl)
  then show ?thesis by (auto simp: submit_job_failing_def realises_refl split: sum.split option.split)
qed

lemma cancel_failing_realised:
  assumes "todo c = []"
  shows "realises S Z c (snd (cancel_job_failing Z net i (sys_db (core c)) (store c)))"
proof (cases "cancel_check i (get_job (sys_db (core c)) i)")
  case (Inr j)
  then have "job_id j = i" by (auto simp: cancel_check_Inr get_job_def dest: get_row_Some)
  with Inr assms have "realises S Z c (cancel_commit j (sys_db (core c)),
      snd (snd (deliver Z [RemovePending i, RemoveScheduled i] net (store c))))"
    by (intro realises_then_deliver [of S Z "[Commit (CancelRead i), Commit (CancelWrite j)]"]) (simp_all add: step.simps)
  with Inr show ?thesis by (simp add: cancel_job_failing_def case_prod_unfold Let_def del: deliver.simps)
qed (simp add: cancel_job_failing_def realises_refl)

lemma retry_failing_realised:
  assumes "todo c = []"
  shows "realises S Z c (snd (manual_retry_failing Z net now i (sys_db (core c)) (store c)))"
proof (cases "retry_check i (get_job (sys_db (core c)) i)")
  case (Inr j)
  with assms have "realises S Z c (retry_commit now j (sys_db (core c)),
      snd (snd (deliver Z [RemoveDeadLetter (job_id j)] net (store c))))"
    by (intro realises_then_deliver [of S Z "[Commit (RetryRead i), Commit (RetryWrite j now)]"]) (simp_all add: step.simps)
  with Inr show ?thesis by (simp add: manual_retry_failing_def case_prod_unfold Let_def del: deliver.simps)
qed (simp add: manual_retry_failing_def realises_refl)

lemma finalize_failing_eq:
  "finalize_failing S Z net now out job (d, r) =
    (let (ok, _, r') = deliver Z (finish_commands S now out job) net r in (ok, fst (finalize S now out job (d, r)), r'))"
  by (auto simp: finalize_failing_def finalize_def apply_failure_failing_def apply_failure_def finish_commands_def
      final_row_def failure_of_def row_simps case_prod_unfold Let_def simp del: deliver.simps(2)
      split: run_outcome.split handler_exn.split)

text \<open>A worker that raises is gone, and with it what it held in its hand.\<close>

lemma claim_failing_realised:
  assumes idle: "todo c = []" "hand c w = None" "running (core c) w = None"
    and dq: "dequeue Z (store c) = (Some i, r1)" and answered: "next_reply net = Answered"
  shows "realises S Z c (snd (snd (process_one_failing S Z net w env (h, sys_db (core c), store c))))"
proof -
  obtain res d1 where claim: "claim_job (clk_claim env) (clk_db env) i w (worker_lease_seconds S) (sys_db (core c)) = (res, d1)"
    by fastforce
  note claimed = claim_run [OF idle dq claim]
  have hand: "(running (core c))(w := None) = running (core c)" using idle by (simp add: fun_upd_idem)
  show ?thesis
  proof (cases res)
    case None
    with dq answered claim have st: "snd (snd (process_one_failing S Z net w env (h, sys_db (core c), store c))) = (d1, r1)"
      by (simp add: process_one_failing_def)
    show ?thesis unfolding st by (rule realisesI, rule claimed [THEN trans]) (simp add: None hand)
  next
    case (Some job)
    let ?c1 = "c\<lparr>core := (core c)\<lparr>sys_db := d1, running := (running (core c))(w \<mapsto> job)\<rparr>, store := r1\<rparr>"
    obtain pcts out where ex: "execute S env job = (pcts, out)" by fastforce
    obtain job' d2 where rep: "fold report_progress pcts (job, start_commit w job d1) = (job', d2)" by fastforce
    let ?d = "fst (finalize S (clk_done env) out job' (d2, r1))"
    have st: "snd (snd (process_one_failing S Z net w env (h, sys_db (core c), store c))) =
        (?d, snd (snd (deliver Z (finish_commands S (clk_done env) out job') (tl net) r1)))"
      using dq answered claim Some ex rep by (simp add: process_one_failing_def finalize_failing_eq case_prod_unfold Let_def)
    have "execute_all S Z ([Pop w, Commit (ClaimBy w i (clk_claim env) (clk_db env))] @ finish_actions S w env job) c =
        execute_all S Z (finish_actions S w env job) ?c1"
      by (simp only: fold_append comp_apply claimed Some)
    also have "\<dots> = (with_state c (?d, r1))\<lparr>todo := finish_commands S (clk_done env) out job'\<rparr>"
      using finish_actions_execute [of ?c1 w job S env pcts out job' d2 Z r1] ex rep hand idle by (simp add: fun_upd_idem)
    finally show ?thesis unfolding st by (rule realises_then_deliver) (rule idle(1))
  qed
qed

lemma process_failing_realised:
  assumes idle: "todo c = []" "hand c w = None" "running (core c) w = None"
  shows "realises S Z c (snd (snd (process_one_failing S Z net w env (h, sys_db (core c), store c))))"
proof (cases "dequeue Z (store c)")
  case (Pair popped r1)
  note pop = pop_run [OF idle(2,3) Pair, of S]
  have hand: "(hand c)(w := None) = hand c" "(running (core c))(w := None) = running (core c)"
    using idle by (simp_all add: fun_upd_idem)
  consider "next_reply net = Refused" | "next_reply net = Unanswered" | "next_reply net = Answered" "popped = None"
    | i where "next_reply net = Answered" "popped = Some i" by (cases "next_reply net"; cases popped) auto
  then show ?thesis
  proof cases
    case 1
    then show ?thesis by (simp add: process_one_failing_def realises_refl)
  next
    case 2
    with Pair have st: "snd (snd (process_one_failing S Z net w env (h, sys_db (core c), store c))) = (sys_db (core c), r1)"
      by (simp add: process_one_failing_def)
    show ?thesis unfolding st
      by (rule realisesI [of S Z "[Pop w, Commit (Crash w)]"]) (cases c, use pop hand in \<open>simp add: step.simps\<close>)
  next
    case 3
    with Pair have st: "snd (snd (process_one_failing S Z net w env (h, sys_db (core c), store c))) = (sys_db (core c), r1)"
      by (simp add: process_one_failing_def)
    show ?thesis unfolding st by (rule realisesI [of S Z "[Pop w]"]) (cases c, use pop hand 3 in simp)
  next
    case (4 i)
    then show ?thesis using claim_failing_realised [OF idle, of Z i r1 net S env h] Pair by simp
  qed
qed

lemma feed_failing_eq:
  "snd (feed_failing Z js net (n, r)) = snd (snd (deliver Z (map (\<lambda>j. enqueue_command j True) js) net r))"
proof (induction js arbitrary: net n r)
  case (Cons j js)
  then show ?case by (cases "next_reply net") (simp_all add: case_prod_unfold Let_def)
qed simp

lemma feeder_failing_realised:
  assumes "todo c = []"
  shows "realises S Z c (sys_db (core c), snd (promote_ready_jobs_failing Z net limit t (sys_db (core c)) (store c)))"
  unfolding promote_ready_jobs_failing_def feed_failing_eq
  by (rule realises_then_deliver [of S Z "[Feed limit t]"]) (use assms in simp_all)

text \<open>A candidate of the scheduler.\<close>

definition promote_commands :: "uuid \<Rightarrow> datetime \<Rightarrow> database \<Rightarrow> command list" where
  "promote_commands i t d = RemoveScheduled i #
     (case scalar_one_or_none (fst (update_returning (promote_guard i t) promote_set (jobs d))) of
        None \<Rightarrow> [] | Some j \<Rightarrow> [enqueue_command j False])"

definition promoted_db :: "uuid \<Rightarrow> datetime \<Rightarrow> database \<Rightarrow> database" where
  "promoted_db i t d = fst (snd (promote_one list_zset t i (0, d, empty_redis)))"

lemma promote_failing_Cons:
  "\<exists>n'. promote_failing Z clk (i # ids) net (n, d, r) =
    (let (ok, net, r) = deliver Z (promote_commands i (clk i) d) net r in
     if ok then promote_failing Z clk ids net (n', promoted_db i (clk i) d, r) else (None, promoted_db i (clk i) d, r))"
  by (auto simp: promote_commands_def promoted_db_def promote_one_def case_prod_unfold Let_def simp del: deliver.simps
      split: option.split)

lemma promote_failing_realised:
  "todo c = [] \<Longrightarrow> realises S Z c (snd (promote_failing Z clk ids net (n, sys_db (core c), store c)))"
proof (induction ids arbitrary: c n net)
  case (Cons i ids)
  let ?d = "promoted_db i (clk i) (sys_db (core c))"
  obtain ok net' r where del: "deliver Z (promote_commands i (clk i) (sys_db (core c))) net (store c) = (ok, net', r)"
    by (metis prod.exhaust)
  obtain n' where rest: "promote_failing Z clk (i # ids) net (n, sys_db (core c), store c) =
      (if ok then promote_failing Z clk ids net' (n', ?d, r) else (None, ?d, r))"
    using promote_failing_Cons [of Z clk i ids net n "sys_db (core c)" "store c"] del by auto
  have "execute_all S Z [Commit (Promote i (clk i))] c = (with_state c (?d, store c))\<lparr>todo := promote_commands i (clk i) (sys_db (core c))\<rparr>"
    using Cons.prems by (cases c) (simp add: step.simps promote_commands_def promoted_db_def)
  from realises_then_deliver [OF this Cons.prems, of net] have one: "realises S Z c (?d, r)" by (simp add: del)
  show ?case
  proof (cases ok)
    case True
    have "realises S Z (with_state c (?d, r)) (snd (promote_failing Z clk ids net' (n', ?d, r)))"
      using Cons.IH [of "with_state c (?d, r)" net' n'] Cons.prems by simp
    from realises_trans [OF one this] rest True show ?thesis by (simp del: promote_failing.simps)
  qed (simp add: rest one del: promote_failing.simps)
qed (simp add: realises_refl)

lemma scheduler_failing_realised:
  "todo c = [] \<Longrightarrow>
    realises S Z c (snd (promote_due_scheduled_failing Z net limit moment clk (sys_db (core c)) (store c)))"
  by (simp add: promote_due_scheduled_failing_def promote_failing_realised realises_refl)

lemma perform_failing_realised:
  assumes "at_rest c"
  shows "realises S Z c (snd (perform_failing S Z net op (sys_db (core c), store c)))"
proof -
  from assms have "todo c = []" by (simp add: at_rest_def)
  note realised = submit_failing_realised [OF this] cancel_failing_realised [OF this] retry_failing_realised [OF this]
    feeder_failing_realised [OF this] scheduler_failing_realised [OF this] reaper_realised [OF this] cleanup_realised [OF this]
  have "realises S Z c (snd (snd (process_one_failing S Z net w env (None, sys_db (core c), store c))))" for w env
    using assms by (intro process_failing_realised) (simp_all add: at_rest_def)
  with realised show ?thesis by (cases op) (simp_all add: case_prod_unfold Let_def)
qed

lemma perform_all_failing_realised:
  "at_rest c \<Longrightarrow> realises S Z c (fold (\<lambda>(net, op) st. snd (perform_failing S Z net op st)) ops (sys_db (core c), store c))"
proof (induction ops arbitrary: c)
  case (Cons call ops)
  obtain net op where call: "call = (net, op)" by fastforce
  obtain d r where one: "snd (perform_failing S Z net op (sys_db (core c), store c)) = (d, r)" by fastforce
  have "at_rest (with_state c (d, r))" using Cons.prems by (simp add: at_rest_def)
  from Cons.IH [OF this] realises_trans [OF perform_failing_realised [OF Cons.prems, of S Z net op, unfolded one]] one call
  show ?case by simp
qed (simp add: realises_refl)

section \<open>What is left of an operation that raises\<close>

lemma deliver_all: "fst (deliver Z ks net r) \<Longrightarrow> snd (snd (deliver Z ks net r)) = fold (send Z) ks r"
  by (induction ks arbitrary: net r) (auto split: reply.splits)

text \<open>An operation that returns has had its whole effect, on Redis too.\<close>

lemma submit_job_returns:
  assumes "fst (submit_job_failing S Z net i now data idem d r) \<noteq> Inl RedisError"
  shows "snd (submit_job_failing S Z net i now data idem d r) = snd (submit_job S Z i now data idem d r)"
proof -
  have "snd (submit_new_failing S Z net i now data key d r) = snd (submit_new S Z i now data key d r)"
    if "fst (submit_new_failing S Z net i now data key d r) \<noteq> Inl RedisError" for key
    using that deliver_all [of Z "[dispatch_command (new_job S i now data key)]" net r]
    by (cases "insert_row (new_job S i now data key) (jobs d)")
      (simp_all add: submit_new_failing_eq submit_new_eq Let_def send_dispatch submit_new_failing_def
        commit_logs_after_insert case_prod_unfold split: if_splits db_error.splits del: deliver.simps)
  with assms show ?thesis by (auto simp: submit_job_failing_def submit_job_def split: sum.splits option.splits)
qed

lemma cancel_job_returns:
  "fst (cancel_job_failing Z net i d r) \<noteq> Inl RedisError \<Longrightarrow> snd (cancel_job_failing Z net i d r) = snd (cancel_job Z i d r)"
  using deliver_all [of Z "[RemovePending i, RemoveScheduled i]" net r] send_removes [of Z i r]
  by (auto simp: cancel_job_failing_def cancel_job_def case_prod_unfold Let_def split: sum.splits if_splits simp del: deliver.simps fold_simps)

lemma manual_retry_returns:
  "fst (manual_retry_failing Z net now i d r) \<noteq> Inl RedisError \<Longrightarrow> snd (manual_retry_failing Z net now i d r) = snd (manual_retry now i d r)"
  using deliver_all [of Z "[RemoveDeadLetter _]" net r]
  by (auto simp: manual_retry_failing_def manual_retry_def case_prod_unfold Let_def split: sum.splits if_splits simp del: deliver.simps)

lemma finalize_returns:
  "fst (finalize_failing S Z net now out job st) \<Longrightarrow> snd (finalize_failing S Z net now out job st) = finalize S now out job st"
  using deliver_all [of Z "finish_commands S now out job" net "snd st"] finalize_failing_eq [of S Z net now out job "fst st" "snd st"]
  by (auto simp: case_prod_unfold Let_def prod_eq_iff finalize_redis finish_commands_def simp del: deliver.simps)

lemma process_one_returns:
  "fst (process_one_failing S Z net w env st) \<noteq> None \<Longrightarrow> snd (process_one_failing S Z net w env st) = snd (process_one S Z w env st)"
  using finalize_returns
  by (auto simp: process_one_failing_def process_one_def case_prod_unfold Let_def split: reply.splits option.splits if_splits)

lemma feed_returns:
  "fst (feed_failing Z js net st) \<noteq> None \<Longrightarrow> snd (feed_failing Z js net st) = snd (fold (feed_one Z) js st)"
proof (induction js arbitrary: net st)
  case (Cons j js)
  obtain n r where st: "st = (n, r)" by fastforce
  have "next_reply net = Answered" using Cons.prems st by (cases "next_reply net") (simp_all add: case_prod_unfold Let_def)
  with Cons st show ?case by (simp add: feed_one_def enqueue_command_def case_prod_unfold Let_def)
qed (auto simp: split_paired_all)

lemma promote_returns:
  "fst (promote_failing Z clk ids net st) \<noteq> None \<Longrightarrow>
    snd (promote_failing Z clk ids net st) = snd (fold (\<lambda>i. promote_one Z (clk i) i) ids st)"
proof (induction ids arbitrary: net st)
  case (Cons i ids)
  obtain n d r where st: "st = (n, d, r)" by (metis prod.exhaust)
  let ?hit = "scalar_one_or_none (fst (update_returning (promote_guard i (clk i)) promote_set (jobs d)))"
  show ?case
  proof (cases ?hit)
    case None
    with Cons.prems st have "next_reply net = Answered" by (cases "next_reply net") (simp_all add: case_prod_unfold Let_def)
    with Cons st None show ?thesis by (simp add: promote_one_def case_prod_unfold Let_def)
  next
    case (Some j)
    with Cons.prems st have "next_reply net = Answered" "next_reply (tl net) = Answered"
      by (cases "next_reply net"; cases "next_reply (tl net)"; simp add: case_prod_unfold Let_def)+
    with Cons st Some show ?thesis by (simp add: promote_one_def enqueue_command_def case_prod_unfold Let_def)
  qed
qed (auto simp: split_paired_all)

lemma perform_returns:
  assumes "perform_failing S Z net op st = (True, st')"
  shows "st' = perform S Z op st"
proof -
  obtain d r where st: "st = (d, r)" by fastforce
  show ?thesis
  proof (cases op)
    case (WorkerRound w env)
    with assms st have ret: "fst (process_one_failing S Z net w env (None, d, r)) \<noteq> None" and "st' = snd (snd (process_one_failing S Z net w env (None, d, r)))"
      by (simp_all add: case_prod_unfold Let_def)
    with process_one_returns [OF ret] WorkerRound st show ?thesis by simp
  next
    case (FeederCycle limit t)
    with assms st have ret: "fst (promote_ready_jobs_failing Z net limit t d r) \<noteq> None" and "st' = (d, snd (promote_ready_jobs_failing Z net limit t d r))"
      by (simp_all add: case_prod_unfold Let_def)
    with feed_returns [OF ret [unfolded promote_ready_jobs_failing_def]] FeederCycle st show ?thesis by (simp add: promote_ready_jobs_failing_def promote_ready_jobs_def)
  next
    case (SchedulerCycle limit m clk)
    with assms st have ret: "fst (promote_due_scheduled_failing Z net limit m clk d r) \<noteq> None"
      and "st' = snd (promote_due_scheduled_failing Z net limit m clk d r)"
      by (simp_all add: case_prod_unfold Let_def)
    moreover from ret have ans: "next_reply net = Answered" by (simp add: promote_due_scheduled_failing_def split: if_splits)
    moreover note promote_returns [OF ret [unfolded promote_due_scheduled_failing_def if_P [OF ans]]]
    ultimately show ?thesis using SchedulerCycle st by (simp add: promote_due_scheduled_failing_def promote_due_scheduled_def)
  qed (use assms st in \<open>auto simp: case_prod_unfold Let_def submit_job_returns cancel_job_returns manual_retry_returns\<close>)
qed

text \<open>An operation on the API that raises has stored what it has to store.\<close>

lemma api_database:
  "fst (snd (submit_job_failing S Z net i now data idem d r)) = fst (snd (submit_job S Z i now data idem d r))"
  "fst (snd (cancel_job_failing Z net i d r)) = fst (snd (cancel_job Z i d r))"
  "fst (snd (manual_retry_failing Z net now i d r)) = fst (snd (manual_retry now i d r))"
proof -
  have "fst (snd (submit_new_failing S Z net i now data key d r)) = fst (snd (submit_new S Z i now data key d r))" for key
    by (cases "insert_row (new_job S i now data key) (jobs d)") (simp_all add: submit_new_failing_eq submit_new_eq Let_def)
  then show "fst (snd (submit_job_failing S Z net i now data idem d r)) = fst (snd (submit_job S Z i now data idem d r))"
    by (simp add: submit_job_failing_def submit_job_def split: sum.split option.split)
qed (simp_all add: cancel_job_failing_def cancel_job_def manual_retry_failing_def manual_retry_def case_prod_unfold Let_def
      del: deliver.simps split: sum.split)

lemma worker_database:
  "fst (snd (snd (process_one_failing S Z net w env (h, d, r)))) =
    (if next_reply net = Answered then fst (snd (snd (process_one S Z w env (h, d, r)))) else d)"
  by (cases "next_reply net")
    (simp_all add: process_one_failing_def process_one_def finalize_failing_eq case_prod_unfold Let_def split: option.split)

lemma promoted_db_one: "fst (snd (promote_one Z t i (n, d, r))) = promoted_db i t d"
  by (simp add: promoted_db_def promote_one_def case_prod_unfold Let_def split: option.split)

lemma promote_one_same_db:
  "fst (snd (fold (\<lambda>i. promote_one Z (clk i) i) ids (n, d, r))) = fold (\<lambda>i. promoted_db i (clk i)) ids d"
proof (induction ids arbitrary: n d r)
  case (Cons i ids)
  obtain n' d' r' where "promote_one Z (clk i) i (n, d, r) = (n', d', r')" by (metis prod.exhaust)
  with Cons.IH [of n' d' r'] promoted_db_one [of Z "clk i" i n d r] show ?case by simp
qed simp

lemma promote_failing_database:
  "\<exists>m. fst (snd (promote_failing Z clk ids net (n, d, r))) = fold (\<lambda>i. promoted_db i (clk i)) (take m ids) d"
proof (induction ids arbitrary: n d r net)
  case (Cons i ids)
  obtain ok net' r' where del: "deliver Z (promote_commands i (clk i) d) net r = (ok, net', r')" by (metis prod.exhaust)
  obtain n' where rest: "promote_failing Z clk (i # ids) net (n, d, r) =
      (if ok then promote_failing Z clk ids net' (n', promoted_db i (clk i) d, r') else (None, promoted_db i (clk i) d, r'))"
    using promote_failing_Cons [of Z clk i ids net n d r] del by auto
  show ?case
  proof (cases ok)
    case True
    obtain m where "fst (snd (promote_failing Z clk ids net' (n', promoted_db i (clk i) d, r'))) =
        fold (\<lambda>i. promoted_db i (clk i)) (take m ids) (promoted_db i (clk i) d)"
      using Cons.IH by blast
    with True rest show ?thesis by (intro exI [of _ "Suc m"]) (simp del: promote_failing.simps)
  qed (auto simp: rest intro!: exI [of _ 1] simp del: promote_failing.simps)
qed simp

text \<open>A submission that raises: the row is there.\<close>

lemma submit_raised:
  assumes "submit_job_failing S Z net i now data idem db r = (Inl RedisError, db', r')"
  obtains key where "normalize_idempotency_key idem = Inr key" "submit_lookup key db = None" "can_insert S i data key db"
    "db' = db\<lparr>jobs := jobs db @ [new_job S i now data key], job_logs := job_logs db @ created_log (new_job S i now data key)\<rparr>"
proof -
  obtain key where key: "normalize_idempotency_key idem = Inr key" "submit_lookup key db = None"
    and new: "submit_new_failing S Z net i now data key db r = (Inl RedisError, db', r')"
    using assms by (auto simp: submit_job_failing_def split: sum.splits option.splits)
  have ci: "can_insert S i data key db"
    using new by (cases "can_insert S i data key db") (simp_all add: submit_new_failing_def insert_new_job)
  have "db' = fst (snd (submit_new_failing S Z net i now data key db r))" by (simp add: new)
  also have "\<dots> = db\<lparr>jobs := jobs db @ [new_job S i now data key], job_logs := job_logs db @ created_log (new_job S i now data key)\<rparr>"
    using ci by (simp add: submit_new_failing_eq insert_new_job Let_def)
  finally show thesis using that key ci by blast
qed

lemma create_route_raised:
  assumes "job_create email_str http_url recv t d p s = Inr data"
    and "submit_job_failing S Z net i now data idem db r = (Inl RedisError, db', r')"
  shows "create_job_route_failing S Z net email_str http_url i recv now t d p s idem db r = ((500, InternalServerError), db', r')"
  using assms by (simp add: create_job_route_failing_def)

lemma new_job_waits: "\<forall>u. jc_scheduled_at data = Some u \<longrightarrow> u \<le> t \<Longrightarrow> waits_until t (new_job S i now data key) \<and> \<not> finished (status (new_job S i now data key))"
  by (cases "jc_scheduled_at data") (auto simp: waits_until_def row_simps)

text \<open>
  A cancellation or a retry that is answered 500 has happened: repeating it is refused as a conflict.
  The id that a refused \<^verbatim>\<open>LREM\<close> was to take from the dead letters stays there.
\<close>

lemma failed_cancel_conflicts:
  assumes "cancel_job_route_failing Z net i db r = ((500, b), db', r')"
  shows "\<exists>j. get_row i (jobs db') = Some j \<and> status j = Cancelled"
    "cancel_job_route Z i db' r1 = ((409, Detail ''only pending or scheduled jobs can be cancelled (status=cancelled)''), db', r1)"
proof -
  obtain j where j: "get_row i (jobs db) = Some j" and db': "db' = cancel_commit j db"
    using assms
    by (auto simp: cancel_job_route_failing_def cancel_job_failing_def cancel_check_def not_found_def get_job_def case_prod_unfold Let_def
        simp del: deliver.simps split: option.splits if_splits)
  have row: "get_row i (jobs db') = Some (cancel_values j)"
    unfolding db' cancel_commit_def by (rule cancelling.commit_fresh [OF j])
  then show "\<exists>j. get_row i (jobs db') = Some j \<and> status j = Cancelled" by (simp add: row_simps)
  from row show "cancel_job_route Z i db' r1 = ((409, Detail ''only pending or scheduled jobs can be cancelled (status=cancelled)''), db', r1)"
    by (simp add: cancel_job_route_def cancel_job_def cancel_check_def get_job_def row_simps)
qed

lemma failed_retry_conflicts:
  assumes "retry_job_route_failing Z net now i db r = ((500, b), db', r')"
  shows "\<exists>j. get_row i (jobs db') = Some j \<and> status j = Pending"
    "retry_job_route now' i db' r1 = ((409, Detail ''only failed jobs can be retried (status=pending)''), db', r1)"
    "next_reply net = Refused \<Longrightarrow> jobs_dead_letter r' = jobs_dead_letter r"
proof -
  obtain j where j: "get_row i (jobs db) = Some j" and db': "db' = retry_commit now j db"
    and r': "r' = snd (snd (deliver Z [RemoveDeadLetter (job_id j)] net r))"
    using assms
    by (auto simp: retry_job_route_failing_def manual_retry_failing_def retry_check_def not_found_def get_job_def case_prod_unfold Let_def
        simp del: deliver.simps split: option.splits if_splits)
  have row: "get_row i (jobs db') = Some (retry_values now j)"
    unfolding db' retry_commit_def by (rule retrying.commit_fresh [OF j])
  then show "\<exists>j. get_row i (jobs db') = Some j \<and> status j = Pending" by (simp add: row_simps)
  from row show "retry_job_route now' i db' r1 = ((409, Detail ''only failed jobs can be retried (status=pending)''), db', r1)"
    by (simp add: retry_job_route_def manual_retry_def retry_check_def get_job_def row_simps)
  show "next_reply net = Refused \<Longrightarrow> jobs_dead_letter r' = jobs_dead_letter r" by (simp add: r')
qed

text \<open>
  A push to the dead letters that is refused is never made up for: the job is failed, and the
  maintenance process, which rebuilds the queue, does not touch the list.
\<close>

lemma refused_dead_letter:
  assumes "finalize_failing S Z (Refused # net) now out job (d, r) = (ok, d', r')"
  shows "ok \<longleftrightarrow> status (final_row S now out job) \<noteq> Failed" "r' = r" "d' = fst (finalize S now out job (d, r))"
  using assms by (auto simp: finalize_failing_eq finish_commands_def split: if_splits)

lemma fold_keeps_dead_letters:
  assumes "\<And>x st. jobs_dead_letter (view (f x st)) = jobs_dead_letter (view st)"
  shows "jobs_dead_letter (view (fold f xs st)) = jobs_dead_letter (view st)"
  by (induction xs arbitrary: st) (simp_all add: assms)

lemma maintenance_keeps_dead_letters:
  "jobs_dead_letter (snd (promote_ready_jobs Z limit t d r)) = jobs_dead_letter r"
  "jobs_dead_letter (snd (snd (promote_due_scheduled Z limit moment clk d r))) = jobs_dead_letter r"
proof -
  have "jobs_dead_letter (snd (feed_one Z j st)) = jobs_dead_letter (snd st)" for j and st :: "nat \<times> ('a, 'b) redis"
    by (simp add: feed_one_def case_prod_unfold Let_def)
  from fold_keeps_dead_letters [of snd "feed_one Z", OF this] show "jobs_dead_letter (snd (promote_ready_jobs Z limit t d r)) = jobs_dead_letter r"
    by (simp add: promote_ready_jobs_def)
  have "jobs_dead_letter (snd (snd (promote_one Z (clk i) i st))) = jobs_dead_letter (snd (snd st))" for i and st :: "nat \<times> database \<times> ('a, 'b) redis"
    by (simp add: promote_one_def case_prod_unfold Let_def split: option.split)
  from fold_keeps_dead_letters [of "snd \<circ> snd" "\<lambda>i. promote_one Z (clk i) i", unfolded comp_apply, OF this]
  show "jobs_dead_letter (snd (snd (promote_due_scheduled Z limit moment clk d r))) = jobs_dead_letter r"
    by (simp add: promote_due_scheduled_def)
qed

section \<open>Properties\<close>

text \<open>
  C10. A failing Redis shows nothing new.  Take any sequence of operations (submissions,
  cancellations, retries, worker rounds, cycles of the feeder, the scheduler, the reaper and the
  cleanup), and let any of their calls to Redis raise, executed or not, which ends the operation.
  The database and the Redis they leave are those of one of the interleaved runs, with no process
  in the middle of anything: what holds in all runs of the cluster holds after any outage.
\<close>

theorem redis_failures_are_runs:
  "\<exists>acts. execute_all S Z acts (fresh_cluster r) =
    (fresh_cluster r)\<lparr>core := initial\<lparr>sys_db := fst (fold (\<lambda>(net, op) st. snd (perform_failing S Z net op st)) ops (empty_db, r))\<rparr>,
                     store := snd (fold (\<lambda>(net, op) st. snd (perform_failing S Z net op st)) ops (empty_db, r))\<rparr>"
proof -
  have "at_rest (fresh_cluster r)" by (simp add: at_rest_def fresh_cluster_def initial_def)
  from perform_all_failing_realised [OF this, of S Z ops] show ?thesis
    by (simp add: realises_def) (simp add: fresh_cluster_def initial_def)
qed

text \<open>
  C33. What an exception of Redis leaves behind.  An operation that returns has done all it does with
  a healthy Redis.  One that raises has still written to the database exactly what it writes with a
  healthy Redis, if it is a submission, a cancellation or a retry; a worker's round has, unless its
  pop failed, and then it has written nothing; the feeder never writes; the scheduler has promoted
  the jobs of the candidates it got to.
\<close>

theorem redis_failure_leaves_commits:
  assumes "perform_failing S Z net op (d, r) = (ok, d', r')"
  shows "(ok \<longrightarrow> (d', r') = perform S Z op (d, r)) \<and>
    (case op of
       WorkerRound w env \<Rightarrow> d' = (if next_reply net = Answered then fst (perform S Z op (d, r)) else d)
     | FeederCycle limit t \<Rightarrow> d' = d
     | SchedulerCycle limit moment clk \<Rightarrow>
         \<exists>n. d' = fst (snd (fold (\<lambda>i. promote_one Z (clk i) i) (take n (candidates Z limit moment d r)) (0, d, r)))
     | _ \<Rightarrow> d' = fst (perform S Z op (d, r)))"
proof
  show "ok \<longrightarrow> (d', r') = perform S Z op (d, r)" using perform_returns [of S Z net op "(d, r)" "(d', r')"] assms by auto
  have d': "d' = fst (snd (perform_failing S Z net op (d, r)))" by (simp add: assms)
  show "case op of
       WorkerRound w env \<Rightarrow> d' = (if next_reply net = Answered then fst (perform S Z op (d, r)) else d)
     | FeederCycle limit t \<Rightarrow> d' = d
     | SchedulerCycle limit moment clk \<Rightarrow>
         \<exists>n. d' = fst (snd (fold (\<lambda>i. promote_one Z (clk i) i) (take n (candidates Z limit moment d r)) (0, d, r)))
     | _ \<Rightarrow> d' = fst (perform S Z op (d, r))"
  proof (cases op)
    case (SchedulerCycle limit moment clk)
    show ?thesis
    proof (cases "next_reply net = Answered")
      case True
      obtain m where "fst (snd (promote_failing Z clk (candidates Z limit moment d r) (tl net) (0, d, r))) =
          fold (\<lambda>i. promoted_db i (clk i)) (take m (candidates Z limit moment d r)) d"
        using promote_failing_database by blast
      with True SchedulerCycle d' show ?thesis
        by (auto simp: promote_due_scheduled_failing_def case_prod_unfold Let_def promote_one_same_db intro!: exI [of _ m])
    next
      case False
      with SchedulerCycle d' show ?thesis
        by (auto simp: promote_due_scheduled_failing_def intro!: exI [of _ 0])
    qed
  qed (use d' in \<open>simp_all add: case_prod_unfold Let_def api_database worker_database\<close>)
qed

theorem redis_failure_leaves_commits_witness:
  "fst (snd (perform_failing default_settings list_zset [Refused] (CancelJob 1) (sys_db submitted, empty_redis))) =
    fst (perform default_settings list_zset (CancelJob 1) (sys_db submitted, empty_redis))"
proof -
  obtain ok d r where p: "perform_failing default_settings list_zset [Refused] (CancelJob 1) (sys_db submitted, empty_redis) = (ok, d, r)"
    by (metis prod.exhaust)
  from redis_failure_leaves_commits [OF p] show ?thesis unfolding p by simp
qed

text \<open>
  C34. A submission whose call to Redis raises, so that the client gets a 500, is not lost.  The job
  is stored.  Repeated with the same idempotency key, whatever the body, it is answered with that
  job; repeated without a key, it makes a second one.  And the next cycle of the maintenance process
  at or after the job's time has the job pending and queued, whatever is in Redis.
\<close>

theorem failed_submission_recovered:
  fixes r :: "('z, 'h) redis"
  assumes "job_queue Z" and "db_ok db" and "submit_job_failing S Z net i now data idem db r = (Inl RedisError, db', r')"
  shows "\<exists>key j. normalize_idempotency_key idem = Inr key \<and> j = new_job S i now data key \<and> jobs db' = jobs db @ [j] \<and>
    (\<forall>k i' now' data' idem' (r1 :: ('z, 'h) redis). key = Some k \<and> normalize_idempotency_key idem' = Inr (Some k) \<longrightarrow>
       submit_job S Z i' now' data' idem' db' r1 = (Inr (j, False), db', r1)) \<and>
    (\<forall>i' now' (r1 :: ('z, 'h) redis). key = None \<and> get_row i' (jobs db') = None \<longrightarrow>
       jobs (fst (snd (submit_job S Z i' now' data idem db' r1))) = jobs db @ [j, new_job S i' now' data None]) \<and>
    (\<forall>t limit (r1 :: ('z, 'h) redis) db2 r2. (\<forall>u. jc_scheduled_at data = Some u \<longrightarrow> u \<le> t) \<and> length (jobs db') \<le> limit \<and>
       fold (perform S Z) [ReaperCycle limit t (\<lambda>i. t), SchedulerCycle limit t (\<lambda>i. t), FeederCycle limit t] (db', r1) = (db2, r2) \<longrightarrow>
       (\<exists>j2. get_row i (jobs db2) = Some j2 \<and> status j2 = Pending \<and> pending_score Z r2 i \<noteq> None))"
proof -
  obtain key where key: "normalize_idempotency_key idem = Inr key" "submit_lookup key db = None" "can_insert S i data key db"
    and db': "db' = db\<lparr>jobs := jobs db @ [new_job S i now data key], job_logs := job_logs db @ created_log (new_job S i now data key)\<rparr>"
    using assms(3) by (rule submit_raised)
  let ?j = "new_job S i now data key"
  have jobs: "jobs db' = jobs db @ [?j]" by (simp add: db')
  have ok: "db_ok db'"
    using assms(2) table_ok_insert [of "jobs db" ?j] key(3) by (auto simp: db_ok_def jobs insert_new_job)
  have row: "get_row i (jobs db') = Some ?j"
    using key(3) by (simp add: jobs can_insert_def table_simps row_simps)
  have same: "submit_job S Z i' now' data' idem' db' r1 = (Inr (?j, False), db', r1)"
    if "key = Some k" "normalize_idempotency_key idem' = Inr (Some k)" for k i' now' data' idem' and r1 :: "('z, 'h) redis"
    using that key(2) find_key_append [of "jobs db" k ?j] by (simp add: submit_job_def submit_lookup_def jobs row_simps)
  have second: "jobs (fst (snd (submit_job S Z i' now' data idem db' r1))) = jobs db @ [?j, new_job S i' now' data None]"
    if "key = None" "get_row i' (jobs db') = None" for i' now' and r1 :: "('z, 'h) redis"
  proof -
    have "submit_lookup key db' = None" "can_insert S i' data None db'"
      using that key(3) by (simp_all add: submit_lookup_def can_insert_def)
    with that(1) key(1) have "jobs (fst (snd (submit_job S Z i' now' data idem db' r1))) = jobs db' @ [new_job S i' now' data None]"
      by (simp add: submit_job_def submit_new_eq insert_new_job Let_def)
    then show ?thesis by (simp add: jobs)
  qed
  have rescued: "\<exists>j2. get_row i (jobs db2) = Some j2 \<and> status j2 = Pending \<and> pending_score Z r2 i \<noteq> None"
    if "\<forall>u. jc_scheduled_at data = Some u \<longrightarrow> u \<le> t" "length (jobs db') \<le> limit" "fold (perform S Z) (rescue limit t) (db', r1) = (db2, r2)"
    for t limit r1 db2 and r2 :: "('z, 'h) redis"
  proof -
    note R = rescue_rows [OF assms(1) ok that(2,3)]
    note w = new_job_waits [OF that(1), of S i now key]
    have row2: "get_row i (jobs db2) = Some (rescued t ?j)" using R(3) row by simp
    have "ready t (rescued t ?j)" "status (rescued t ?j) = Pending" using rescued_ready [of t ?j] rescued_pending [of t ?j] w by simp_all
    with R(4) [OF _ row2] row2 show ?thesis by simp
  qed
  show ?thesis
  proof (rule exI [of _ key], rule exI [of _ ?j], intro conjI allI impI, goal_cases)
    case (4 k i' now' data' idem' r1)
    then show ?case by (elim conjE) (rule same)
  next
    case (5 i' now' r1)
    then show ?case by (elim conjE) (rule second)
  next
    case (6 t limit r1 db2 r2)
    then show ?case by (elim conjE) (rule rescued)
  qed (use key(1) jobs in simp_all)
qed

theorem failed_submission_recovered_witness:
  "\<exists>j db'. submit_job_failing default_settings list_zset [Unanswered] 7 1000 example_data (Some ''k'') empty_db empty_redis =
      (Inl RedisError, db', submit_dispatch list_zset j empty_redis) \<and>
    submit_job default_settings list_zset 8 2000 example_data (Some '' k'') db' empty_redis = (Inr (j, False), db', empty_redis)"
proof -
  let ?j = "new_job default_settings 7 1000 example_data (Some ''k'')"
  have n: "normalize_idempotency_key (Some ''k'') = Inr (Some ''k'')"
    "normalize_idempotency_key (Some '' k'') = Inr (Some ''k'')" by code_simp+
  have ci: "can_insert default_settings 7 example_data (Some ''k'') empty_db"
    by (simp add: can_insert_def example_data_def empty_db_def get_row_def submit_lookup_def find_job_by_idempotency_key_def)
  then have ins: "insert_row ?j (jobs empty_db) = Inr (jobs empty_db @ [?j])" by (simp add: insert_new_job)
  from ci have "submit_lookup (Some ''k'') empty_db = None" by (simp add: can_insert_def)
  with n(1) ins obtain db' where s: "submit_job_failing default_settings list_zset [Unanswered] 7 1000 example_data (Some ''k'') empty_db empty_redis =
      (Inl RedisError, db', submit_dispatch list_zset ?j empty_redis)"
    by (simp add: submit_job_failing_def submit_new_failing_def Let_def send_dispatch commit_logs_after_insert [OF ins])
  obtain key j where kj: "normalize_idempotency_key (Some ''k'') = Inr key" "j = new_job default_settings 7 1000 example_data key"
    and again: "\<forall>k i' now' data' idem' (r1 :: list_redis). key = Some k \<and> normalize_idempotency_key idem' = Inr (Some k) \<longrightarrow>
       submit_job default_settings list_zset i' now' data' idem' db' r1 = (Inr (j, False), db', r1)"
    using failed_submission_recovered [OF list_queue db_ok_empty s] by (elim exE conjE) (rule that)
  from kj n(1) have j: "key = Some ''k''" "j = ?j" by simp_all
  have "submit_job default_settings list_zset 8 2000 example_data (Some '' k'') db' empty_redis = (Inr (?j, False), db', empty_redis)"
    using again [rule_format, of "''k''" "Some '' k''" 8 2000 example_data empty_redis] j n(2) by simp
  with s show ?thesis by blast
qed

end
