(* ===== verification/Races.thy ===== *)
theory Races
  imports Orderly
begin

text \<open>
  What the program does when a run is not orderly or not strict.  Each theorem is an interleaving
  the code allows; together they show why the hypotheses of the theorems of \<open>Orderly\<close> are there.
\<close>

text \<open>A claim in any state with the job due and the worker free.\<close>

lemma claim_step:
  assumes ok: "db_ok (sys_db s)" and row: "get_row i (jobs (sys_db s)) = Some j" "claim_guard i t j" and free: "running s w = None"
    and l_def: "l = claim_set w (t + seconds (worker_lease_seconds S)) t j"
  shows "running (step S (ClaimBy w i t t) s) = (running s)(w \<mapsto> l)"
    "get_row i (jobs (sys_db (step S (ClaimBy w i t t) s))) = Some l"
    "cancelling (step S (ClaimBy w i t t) s) = cancelling s"
    "retrying (step S (ClaimBy w i t t) s) = retrying s"
proof -
  have c: "fst (claim_job t t i w (worker_lease_seconds S) (sys_db s)) = Some l"
    using row by (simp add: claim_job_eq [OF db_ok_distinct [OF ok]] l_def)
  then obtain d where d: "claim_job t t i w (worker_lease_seconds S) (sys_db s) = (Some l, d)"
    by (cases "claim_job t t i w (worker_lease_seconds S) (sys_db s)") simp
  show "running (step S (ClaimBy w i t t) s) = (running s)(w \<mapsto> l)"
    "cancelling (step S (ClaimBy w i t t) s) = cancelling s"
    "retrying (step S (ClaimBy w i t t) s) = retrying s"
    by (simp_all add: step.simps free d)
  show "get_row i (jobs (sys_db (step S (ClaimBy w i t t) s))) = Some l"
    using step_row_kept [OF ok row(1), of S "ClaimBy w i t t"] row(2) free by (simp add: l_def)
qed

lemma step_ok:
  "db_ok (sys_db s) \<and> snapshots_ok s \<Longrightarrow> db_ok (sys_db (step S ev s)) \<and> snapshots_ok (step S ev s)"
  using step_db_ok step_snapshots_ok by blast

section \<open>A cancelled job is executed\<close>

text \<open>
  C28. Finding: a cancel request reads a pending job; a worker claims it; the request then writes.
  The request is answered with success and the row says \<open>Cancelled\<close>, while the worker is executing
  the job; and when the worker is done, the cancelled job becomes completed.
\<close>

theorem cancelled_job_executed:
  assumes "reachable S s" and "get_row i (jobs (sys_db s)) = Some j" and "claim_guard i t j"
    and "running s w = None"
  defines "s3 \<equiv> step S (CancelWrite j) (step S (ClaimBy w i t t) (step S (CancelRead i) s))"
  shows "\<exists>l c. get_row i (jobs (sys_db s3)) = Some c \<and> status c = Cancelled \<and> running s3 w = Some l \<and> job_id l = i \<and>
    map_option status (get_row i (jobs (sys_db (step S (FinishBy w now (Returned d)) s3)))) = Some Completed"
proof -
  define s1 where "s1 = step S (CancelRead i) s"
  define s2 where "s2 = step S (ClaimBy w i t t) s1"
  define l where "l = claim_set w (t + seconds (worker_lease_seconds S)) t j"
  have s3: "s3 = step S (CancelWrite j) s2" by (simp add: s3_def s2_def s1_def)
  have ok: "db_ok (sys_db s) \<and> snapshots_ok s" by (rule reachable_ok [OF assms(1)])
  have ok1: "db_ok (sys_db s1) \<and> snapshots_ok s1" unfolding s1_def by (rule step_ok [OF ok])
  have ok2: "db_ok (sys_db s2) \<and> snapshots_ok s2" unfolding s2_def by (rule step_ok [OF ok1])
  have ok3: "db_ok (sys_db s3) \<and> snapshots_ok s3" unfolding s3 by (rule step_ok [OF ok2])
  have pend: "status j = Pending" using assms(3) by (simp add: claim_guard_def)
  have r1: "get_row i (jobs (sys_db s1)) = Some j" "running s1 w = None"
    using step_row_kept [of s i j S "CancelRead i"] ok assms(2,4) by (simp_all add: s1_def step_running)
  have "cancel_check i (get_job (sys_db s) i) = Inr j"
    using assms(2) pend by (simp add: cancel_check_Inr get_job_def)
  then have c1: "j \<in> set (cancelling s1)" by (simp add: s1_def step.simps)
  have r2: "running s2 w = Some l" "get_row i (jobs (sys_db s2)) = Some l" "cancelling s2 = cancelling s1"
    using claim_step [of s1 i j t w l S] ok1 r1 assms(3) by (simp_all add: s2_def l_def)
  have id: "job_id j = i" "job_id l = i" using get_row_Some [OF assms(2)] by (simp_all add: l_def row_simps)
  define c where "c = orm_row j (cancel_values j) l"
  have r3: "get_row i (jobs (sys_db s3)) = Some c"
    using step_row_kept [of s2 i l S "CancelWrite j"] ok2 r2 c1 id by (simp add: s3 c_def)
  have run3: "running s3 w = Some l" using r2 by (simp add: s3 step_running)
  have "status c = Cancelled" using pend by (simp add: c_def row_simps merge_col_def)
  moreover have "get_row i (jobs (sys_db (step S (FinishBy w now (Returned d)) s3))) =
      Some (orm_row l (final_row S now (Returned d) l) c)"
    using step_row_kept [of s3 i c S "FinishBy w now (Returned d)"] ok3 r3 run3 id
    by (simp add: c_def row_simps)
  moreover have "status (orm_row l (final_row S now (Returned d) l) c) = Completed"
    by (simp add: row_simps merge_col_def final_row_def l_def)
  ultimately show ?thesis using r3 run3 id by auto
qed

theorem cancelled_job_executed_witness:
  "\<exists>(s :: system) c l. get_row 1 (jobs (sys_db s)) = Some c \<and> status c = Cancelled \<and> running s ''w1'' = Some l \<and> job_id l = 1"
proof -
  have "reachable default_settings submitted" by (rule run_of_reachable [OF submitted_row(5)])
  have "running submitted ''w1'' = None" by (simp add: submitted_row(2))
  note race = cancelled_job_executed [OF \<open>reachable _ _\<close> submitted_row(1) submitted_claimable this, of 0 "[]"]
  define s where "s = step default_settings (CancelWrite (new_job default_settings 1 50 example_data None))
    (step default_settings (ClaimBy ''w1'' 1 100 100) (step default_settings (CancelRead 1) submitted))"
  from race [folded s_def] show ?thesis by blast
qed

section \<open>A stale worker decides the fate of another worker's job\<close>

text \<open>
  C29. Finding: no fencing.  A worker whose lease has ended loses its job to the reaper, a second
  worker claims it, and then the first one records its outcome: the update is addressed by the
  job's id alone, so the row the second worker is executing becomes completed by the first (or
  goes back to the queue, if the first failed and attempts remained).
\<close>

theorem stale_worker_overwrites:
  assumes "reachable S s" and "running s w1 = Some l1" and "get_row (job_id l1) (jobs (sys_db s)) = Some j"
    and "expired t j" and "running s w2 = None"
  defines "s2 \<equiv> step S (ClaimBy w2 (job_id l1) t t) (step S (Reap (job_id l1) t) s)"
  shows "\<exists>l2 r. running s2 w2 = Some l2 \<and> job_id l2 = job_id l1 \<and>
    get_row (job_id l1) (jobs (sys_db s2)) = Some r \<and> status r = Processing \<and> worker_id r = Some w2 \<and>
    map_option status (get_row (job_id l1) (jobs (sys_db (step S (FinishBy w1 now out) s2)))) =
      Some (status (final_row S now out l1))"
proof -
  let ?i = "job_id l1"
  define s1 where "s1 = step S (Reap ?i t) s"
  define l2 where "l2 = claim_set w2 (t + seconds (worker_lease_seconds S)) t (reap_set j)"
  have s2: "s2 = step S (ClaimBy w2 ?i t t) s1" by (simp add: s2_def s1_def)
  have ok: "db_ok (sys_db s) \<and> snapshots_ok s" by (rule reachable_ok [OF assms(1)])
  have ok1: "db_ok (sys_db s1) \<and> snapshots_ok s1" unfolding s1_def by (rule step_ok [OF ok])
  have ok2: "db_ok (sys_db s2) \<and> snapshots_ok s2" unfolding s2 by (rule step_ok [OF ok1])
  have id: "job_id j = ?i" using get_row_Some [OF assms(3)] by simp
  have ne: "w1 \<noteq> w2" using assms(2,5) by auto
  have r1: "get_row ?i (jobs (sys_db s1)) = Some (reap_set j)" "running s1 = running s"
    using step_row_kept [of s ?i j S "Reap ?i t"] ok assms(3,4) id
    by (simp_all add: s1_def reap_guard_def step_running fun_eq_iff)
  have "claim_guard ?i t (reap_set j)" using id by (simp add: claim_guard_def row_simps)
  then have r2: "running s2 = (running s)(w2 \<mapsto> l2)" "get_row ?i (jobs (sys_db s2)) = Some l2"
    using claim_step [of s1 ?i "reap_set j" t w2 l2 S] ok1 r1 assms(5) by (simp_all add: s2 l2_def)
  have id2: "job_id l2 = ?i" using id by (simp add: l2_def row_simps)
  have st: "status l1 = Processing" using snapshots_okD(1) [of s w1 l1] ok assms(2) by (simp add: worker_snapshot_def)
  have "get_row ?i (jobs (sys_db (step S (FinishBy w1 now out) s2))) = Some (orm_row l1 (final_row S now out l1) l2)"
    using step_row_kept [of s2 ?i l2 S "FinishBy w1 now out"] ok2 r2 ne assms(2) id2 by simp
  moreover have "status (orm_row l1 (final_row S now out l1) l2) = status (final_row S now out l1)"
    by (simp add: row_simps merge_col_def st l2_def)
  ultimately show ?thesis using r2 id2 by (simp add: l2_def row_simps)
qed

theorem stale_worker_overwrites_witness:
  "\<exists>(s :: system) l2. running s ''w2'' = Some l2 \<and> job_id l2 = 1 \<and>
    map_option status (get_row 1 (jobs (sys_db (step default_settings (FinishBy ''w1'' 70000000 (Returned [])) s)))) = Some Completed"
proof -
  let ?l = "claim_set ''w1'' (100 + seconds 60) 100 (new_job default_settings 1 50 example_data None)"
  have "reachable default_settings claimed" by (rule run_of_reachable [OF claimed_row(1)])
  moreover have "get_row (job_id ?l) (jobs (sys_db claimed)) = Some ?l" using claimed_row(2) by (simp add: row_simps)
  moreover have "expired 70000000 ?l" by (simp add: expired_def row_simps)
  moreover have "running claimed ''w2'' = None"
    using submitted_row(2) by (simp add: claimed_def step_running)
  ultimately show ?thesis
    using stale_worker_overwrites [OF _ claimed_row(3), of default_settings ?l 70000000 "''w2''" 70000000 "Returned []"]
    by (auto simp: row_simps final_row_def)
qed

text \<open>
  Finding: with two workers on one job (the state \<open>s2\<close> above), the second completes it, and then the
  first, a batch still going, reports its progress: the completed row goes back below 100 per cent.
\<close>

lemma late_progress_report:
  assumes "reachable S s" and "running s w1 = Some l1" and "running s w2 = Some l2" and "job_id l2 = job_id l1" and "w1 \<noteq> w2"
    and "get_row (job_id l1) (jobs (sys_db s)) = Some r" and "0 \<le> pct" "pct < 100" "progress_pct l1 \<noteq> pct"
  shows "\<exists>j. get_row (job_id l1) (jobs (sys_db (step S (ProgressBy w1 pct) (step S (FinishBy w2 now (Returned d)) s)))) = Some j \<and>
    status j = Completed \<and> progress_pct j = pct"
proof -
  let ?s1 = "step S (FinishBy w2 now (Returned d)) s" and ?l = "progress_values pct l1"
  define j where "j = orm_row l2 (final_row S now (Returned d) l2) r"
  have ok: "db_ok (sys_db s) \<and> snapshots_ok s" by (rule reachable_ok [OF assms(1)])
  have ok1: "db_ok (sys_db ?s1) \<and> snapshots_ok ?s1" by (rule step_ok [OF ok])
  have id: "job_id r = job_id l1" using get_row_Some [OF assms(6)] by simp
  then have r1: "get_row (job_id l1) (jobs (sys_db ?s1)) = Some j" "running ?s1 w1 = Some l1" "job_id j = job_id l1"
    using step_row_kept [of s "job_id l1" r S "FinishBy w2 now (Returned d)"] ok assms(2-6)
    by (simp_all add: step_running j_def row_simps)
  have st: "status l2 = Processing" using snapshots_okD(1) [of s w2 l2] ok assms(3) by (simp add: worker_snapshot_def)
  have "status j = Completed" by (simp add: j_def st row_simps merge_col_def final_row_def)
  moreover have "get_row (job_id l1) (jobs (sys_db (step S (ProgressBy w1 pct) ?s1))) = Some (orm_row l1 ?l j)"
    using step_row_kept [of ?s1 "job_id l1" j S "ProgressBy w1 pct"] ok1 r1 by simp
  ultimately show ?thesis using assms(7-9) by (simp add: row_simps merge_col_def)
qed

section \<open>A job that kills its workers is never given up\<close>

text \<open>
  C30. Finding: the reaper does not look at the attempt limit.  A job whose every worker crashes is
  claimed, crashed on and reaped again without end: for every \<open>n\<close> there is an orderly run under the
  default settings (limit 3) in which it is pending with \<open>n\<close> attempts behind it.
\<close>

theorem crashing_job_never_fails:
  "\<exists>evs s j. run_of default_settings strict evs s \<and> get_row 1 (jobs (sys_db s)) = Some j \<and>
    status j = Pending \<and> attempt_count j = int n \<and> max_attempts j = 3"
proof -
  have "\<exists>evs s j. run_of default_settings strict evs s \<and> get_row 1 (jobs (sys_db s)) = Some j \<and>
    status j = Pending \<and> next_run_at j = None \<and> attempt_count j = int n \<and> max_attempts j = 3 \<and> running s = Map.empty"
  proof (induction n)
    case 0
    show ?case
      by (intro exI conjI, rule submitted_row(5), rule submitted_row(1))
        (simp_all add: row_simps example_data_def submitted_row(2))
  next
    case (Suc n)
    then obtain evs s j where run: "run_of default_settings strict evs s" and j: "get_row 1 (jobs (sys_db s)) = Some j"
      "status j = Pending" "next_run_at j = None" "attempt_count j = int n" "max_attempts j = 3" "running s = Map.empty"
      by blast
    let ?S = default_settings
    let ?l = "claim_set ''w'' (100 + seconds 60) 100 j"
    define s1 where "s1 = step ?S (ClaimBy ''w'' 1 100 100) s"
    define s2 where "s2 = step ?S (Crash ''w'') s1"
    define s3 where "s3 = step ?S (Reap 1 70000000) s2"
    have ok: "db_ok (sys_db s) \<and> snapshots_ok s" by (rule reachable_ok [OF run_of_reachable [OF run]])
    have ok1: "db_ok (sys_db s1) \<and> snapshots_ok s1" unfolding s1_def by (rule step_ok [OF ok])
    have ok2: "db_ok (sys_db s2) \<and> snapshots_ok s2" unfolding s2_def by (rule step_ok [OF ok1])
    have "claim_guard 1 100 j" using j(2,3) get_row_Some [OF j(1)] by (simp add: claim_guard_def)
    then have r1: "get_row 1 (jobs (sys_db s1)) = Some ?l" "running s1 = [''w'' \<mapsto> ?l]"
      using claim_step [of s 1 j 100 "''w''" ?l ?S] ok j by (simp_all add: s1_def)
    have r2: "get_row 1 (jobs (sys_db s2)) = Some ?l" "running s2 = Map.empty"
      using step_row_kept [of s1 1 ?l ?S "Crash ''w''"] ok1 r1 by (simp_all add: s2_def step_running fun_eq_iff)
    have "reap_guard 1 70000000 ?l"
      using get_row_Some [OF j(1)] by (simp add: reap_guard_def expired_def row_simps)
    then have r3: "get_row 1 (jobs (sys_db s3)) = Some (reap_set ?l)" "running s3 = Map.empty"
      using step_row_kept [of s2 1 ?l ?S "Reap 1 70000000"] ok2 r2 by (simp_all add: s3_def step_running fun_eq_iff)
    have "run_of ?S strict (((evs @ [ClaimBy ''w'' 1 100 100]) @ [Crash ''w'']) @ [Reap 1 70000000]) s3"
      unfolding s3_def s2_def s1_def
      by (intro run_of.next_event run) (use r2 in \<open>simp_all add: strict_def orderly_def s2_def s1_def\<close>)
    then show ?case using r3 j by (intro exI conjI) (assumption | simp add: row_simps)+
  qed
  then show ?thesis by blast
qed

section \<open>Two manual retries of one failure\<close>

text \<open>
  Finding: two retry requests read the same failed job; the first writes, a worker claims the
  job, and then the second writes: the row in execution goes back to pending, a second worker
  claims it, and both are executing it, with all leases in time.
\<close>

theorem double_retry_two_workers:
  assumes "reachable S s" and "get_row i (jobs (sys_db s)) = Some j" and "status j = Failed"
    and "running s w1 = None" and "running s w2 = None" and "w1 \<noteq> w2" and "t0 \<le> t"
  defines "s3 \<equiv> step S (RetryWrite j t0) (step S (RetryRead i) (step S (RetryRead i) s))"
  defines "s6 \<equiv> step S (ClaimBy w2 i t t) (step S (RetryWrite j t0) (step S (ClaimBy w1 i t t) s3))"
  shows "\<exists>l1 l2. running s6 w1 = Some l1 \<and> running s6 w2 = Some l2 \<and> job_id l1 = i \<and> job_id l2 = i"
proof -
  define s1 where "s1 = step S (RetryRead i) s"
  define s2 where "s2 = step S (RetryRead i) s1"
  define s4 where "s4 = step S (ClaimBy w1 i t t) s3"
  define s5 where "s5 = step S (RetryWrite j t0) s4"
  define new where "new = retry_values t0 j"
  define l1 where "l1 = claim_set w1 (t + seconds (worker_lease_seconds S)) t new"
  define j5 where "j5 = orm_row j new l1"
  have s3: "s3 = step S (RetryWrite j t0) s2" and s6: "s6 = step S (ClaimBy w2 i t t) s5"
    by (simp_all add: s3_def s2_def s1_def s6_def s5_def s4_def)
  have ok: "db_ok (sys_db s) \<and> snapshots_ok s" by (rule reachable_ok [OF assms(1)])
  have ok1: "db_ok (sys_db s1) \<and> snapshots_ok s1" unfolding s1_def by (rule step_ok [OF ok])
  have ok2: "db_ok (sys_db s2) \<and> snapshots_ok s2" unfolding s2_def by (rule step_ok [OF ok1])
  have ok3: "db_ok (sys_db s3) \<and> snapshots_ok s3" unfolding s3 by (rule step_ok [OF ok2])
  have ok4: "db_ok (sys_db s4) \<and> snapshots_ok s4" unfolding s4_def by (rule step_ok [OF ok3])
  have ok5: "db_ok (sys_db s5) \<and> snapshots_ok s5" unfolding s5_def by (rule step_ok [OF ok4])
  have id: "job_id j = i" "job_id new = i" "job_id l1 = i" "job_id j5 = i"
    using get_row_Some [OF assms(2)] by (simp_all add: new_def l1_def j5_def row_simps)
  have r1: "get_row i (jobs (sys_db s1)) = Some j" "running s1 = running s"
    using step_row_kept [of s i j S "RetryRead i"] ok assms(2) by (simp_all add: s1_def step_running fun_eq_iff)
  have r2: "get_row i (jobs (sys_db s2)) = Some j" "running s2 = running s"
    using step_row_kept [of s1 i j S "RetryRead i"] ok1 r1 by (simp_all add: s2_def step_running fun_eq_iff)
  have "retry_check i (Some j) = Inr j" using assms(3) by (simp add: retry_check_Inr)
  then have q: "retrying s2 = j # j # retrying s"
    using assms(2) r1(1) unfolding s2_def s1_def by (simp add: step.simps get_job_def)
  have r3: "get_row i (jobs (sys_db s3)) = Some new" "running s3 = running s" "retrying s3 = j # retrying s"
    using step_row_kept [of s2 i j S "RetryWrite j t0"] ok2 r2 q id
    by (simp_all add: s3 step_running fun_eq_iff new_def orm_row_same) (simp add: step.simps q)
  have "claim_guard i t new" using assms(7) id by (simp add: claim_guard_def new_def row_simps)
  then have r4: "running s4 = (running s)(w1 \<mapsto> l1)" "get_row i (jobs (sys_db s4)) = Some l1" "retrying s4 = j # retrying s"
    using claim_step [of s3 i new t w1 l1 S] ok3 r3 assms(4) by (simp_all add: s4_def l1_def)
  have r5: "get_row i (jobs (sys_db s5)) = Some j5" "running s5 = running s4"
    using step_row_kept [of s4 i l1 S "RetryWrite j t0"] ok4 r4 id
    by (simp_all add: s5_def step_running fun_eq_iff j5_def new_def)
  have "status j5 = Pending" by (simp add: j5_def new_def row_simps merge_col_def assms(3))
  moreover have "next_run_at j5 = Some t0 \<or> next_run_at j5 = next_run_at new"
    by (simp add: j5_def l1_def new_def row_simps merge_col_def)
  ultimately have "claim_guard i t j5" using assms(7) id by (auto simp: claim_guard_def new_def row_simps)
  then have "running s6 = (running s5)(w2 \<mapsto> claim_set w2 (t + seconds (worker_lease_seconds S)) t j5)"
    using claim_step(1) [of s5 i j5 t w2 _ S, OF _ _ _ _ refl] ok5 r5 r4(1) assms(5,6) by (simp add: s6)
  then show ?thesis using r4(1) r5(2) assms(6) id by (simp add: row_simps)
qed

theorem double_retry_two_workers_witness:
  "\<exists>(s :: system) l1 l2. running s ''w1'' = Some l1 \<and> running s ''w2'' = Some l2 \<and> job_id l1 = 1 \<and> job_id l2 = (1 :: uuid)"
proof -
  let ?out = "Raised (UnknownJobTypeError ''gone'')"
  let ?l = "claim_set ''w1'' (100 + seconds 60) 100 (new_job default_settings 1 50 example_data None)"
  define s where "s = step default_settings (FinishBy ''w1'' 200 ?out) claimed"
  have r: "reachable default_settings claimed" by (rule run_of_reachable [OF claimed_row(1)])
  then have "reachable default_settings s" unfolding s_def by (rule reachable.next_event)
  moreover have "get_row 1 (jobs (sys_db s)) = Some (final_row default_settings 200 ?out ?l)"
    using step_row_kept [OF conjunct1 [OF reachable_ok [OF r]] claimed_row(2), of default_settings "FinishBy ''w1'' 200 ?out"]
    unfolding s_def by (simp only: row_effect.simps claimed_row(3) option.case if_True simp_thms orm_row_same [OF finalizing.new_id])
  moreover have "status (final_row default_settings 200 ?out ?l) = Failed"
    by (simp add: final_row_def failure_of_def row_simps retries_def)
  moreover have "running s ''w1'' = None" "running s ''w2'' = None"
    using submitted_row(2) by (simp_all add: s_def claimed_def step_running)
  moreover have "''w1'' \<noteq> ''w2''" "(300 :: datetime) \<le> 400" by simp_all
  ultimately show ?thesis by (blast dest: double_retry_two_workers)
qed

end
