(* ===== verification/Timed.thy ===== *)
theory Timed
  imports Orderly
begin

text \<open>
  Runs of \<open>System\<close> with a clock.  \<open>Orderly\<close> assumes that the reaper takes no job from a worker that
  still runs it; here that is derived from what operators can configure and measure: the clocks
  of workers and database are within \<open>skew\<close> of each other, and a worker that executes a job renews
  its lease, finishes or dies within \<open>bound\<close> of its last claim or renewal.  All times are in
  microseconds.  (With the default settings a job is cut off after 30 seconds and renewed every 5;
  the lease is 60 seconds.)
\<close>

section \<open>Timed runs\<close>

text \<open>The clock an event reads is off the true time \<open>t\<close> by at most \<open>skew\<close>.\<close>

fun clocked :: "int \<Rightarrow> datetime \<Rightarrow> event \<Rightarrow> bool" where
  "clocked skew t (ClaimBy w i now db_now) = (\<bar>now - t\<bar> \<le> skew)"
| "clocked skew t (RenewBy w i now) = (\<bar>now - t\<bar> \<le> skew)"
| "clocked skew t (Reap i db_now) = (\<bar>db_now - t\<bar> \<le> skew)"
| "clocked skew t ev = True"

text \<open>When each worker last claimed, or tried to renew, the job it executes.\<close>

fun last_beat :: "system \<Rightarrow> event \<Rightarrow> datetime \<Rightarrow> (string \<Rightarrow> datetime) \<Rightarrow> string \<Rightarrow> datetime" where
  "last_beat s (ClaimBy w i now db_now) t b = (if running s w = None then b(w := t) else b)"
| "last_beat s (RenewBy w i now) t b =
     (case running s w of None \<Rightarrow> b | Some l \<Rightarrow> if job_id l = i then b(w := t) else b)"
| "last_beat s ev t b = b"

definition prompt :: "int \<Rightarrow> system \<Rightarrow> (string \<Rightarrow> datetime) \<Rightarrow> datetime \<Rightarrow> bool" where
  "prompt bound s b t \<longleftrightarrow> (\<forall>w l. running s w = Some l \<longrightarrow> t \<le> b w + bound)"

inductive timed_run ::
    "settings \<Rightarrow> int \<Rightarrow> int \<Rightarrow> event list \<Rightarrow> datetime \<Rightarrow> (string \<Rightarrow> datetime) \<Rightarrow> system \<Rightarrow> bool" for S bound skew where
  start: "timed_run S bound skew [] t b initial"
| next_event: "timed_run S bound skew evs t b s \<Longrightarrow> t \<le> t' \<Longrightarrow> clocked skew t' ev \<Longrightarrow> prompt bound s b t' \<Longrightarrow>
    timed_run S bound skew (evs @ [ev]) t' (last_beat s ev t' b) (step S ev s)"

lemma timed_run_state: "timed_run S bound skew evs t b s \<Longrightarrow> s = fold (step S) evs initial"
  by (induction rule: timed_run.induct) simp_all

text \<open>
  The part of \<open>orderly\<close> that no clock can give: when a manual retry writes, the row is still failed and
  nobody has raised its limit since the request read it.
\<close>

definition retry_in_time :: "system \<Rightarrow> event \<Rightarrow> bool" where
  "retry_in_time s ev \<longleftrightarrow>
     (case ev of
        RetryWrite l now \<Rightarrow> \<forall>j. get_row (job_id l) (jobs (sys_db s)) = Some j \<longrightarrow>
          status j = Failed \<and> max_attempts j = max_attempts l
      | _ \<Rightarrow> True)"

fun retries_in_time :: "settings \<Rightarrow> system \<Rightarrow> event list \<Rightarrow> bool" where
  "retries_in_time S s [] = True"
| "retries_in_time S s (ev # evs) = (retry_in_time s ev \<and> retries_in_time S (step S ev s) evs)"

lemma retries_in_time_snoc:
  "retries_in_time S s (evs @ [ev]) \<longleftrightarrow> retries_in_time S s evs \<and> retry_in_time (fold (step S) evs s) ev"
  by (induction evs arbitrary: s) auto

section \<open>Leases outlast the work\<close>

definition leases_ok :: "settings \<Rightarrow> int \<Rightarrow> (string \<Rightarrow> datetime) \<Rightarrow> system \<Rightarrow> bool" where
  "leases_ok S skew b s \<longleftrightarrow>
     (\<forall>w l j. running s w = Some l \<and> get_row (job_id l) (jobs (sys_db s)) = Some j \<and> status j = Processing \<longrightarrow>
        (\<exists>u. leased_until j = Some u \<and> b w + seconds (worker_lease_seconds S) - skew \<le> u))"

lemma leases_okD:
  "leases_ok S skew b s \<Longrightarrow> running s w = Some l \<Longrightarrow> get_row (job_id l) (jobs (sys_db s)) = Some j \<Longrightarrow>
    status j = Processing \<Longrightarrow> \<exists>u. leased_until j = Some u \<and> b w + seconds (worker_lease_seconds S) - skew \<le> u"
  unfolding leases_ok_def by blast

text \<open>So no reap hits a job in execution.\<close>

lemma timed_orderly:
  assumes "leases_ok S skew b s" "prompt bound s b t" "clocked skew t ev" "retry_in_time s ev"
    and "bound + 2 * skew \<le> seconds (worker_lease_seconds S)"
  shows "orderly s ev"
proof (cases ev)
  case (Reap i db_now)
  have "job_id l \<noteq> i" if row: "get_row i (jobs (sys_db s)) = Some j" and ex: "expired db_now j" and run: "running s w = Some l" for j w l
  proof
    assume "job_id l = i"
    with leases_okD [OF assms(1) run, of j] row ex
    obtain u where "leased_until j = Some u" "b w + seconds (worker_lease_seconds S) - skew \<le> u"
      by (auto simp: expired_def)
    moreover have "t \<le> b w + bound" using assms(2) run by (simp add: prompt_def)
    moreover have "db_now \<le> t + skew" using assms(3) Reap by simp
    ultimately show False using ex assms(5) by (simp add: expired_def)
  qed
  with Reap show ?thesis unfolding orderly_def by auto
qed (use assms(4) in \<open>auto simp: orderly_def retry_in_time_def\<close>)

text \<open>What an orderly event leaves of the lease of a held row.\<close>

lemma renewed_lease:
  assumes "clocked skew t (RenewBy w' i now)" "running s w = Some l" "job_id j = job_id l" "held_row w l j"
    and lease: "status j = Processing \<Longrightarrow> \<exists>u. leased_until j = Some u \<and> b w + seconds (worker_lease_seconds S) - skew \<le> u"
    and after: "status (row_effect S s (RenewBy w' i now) j) = Processing"
  shows "\<exists>u. leased_until (row_effect S s (RenewBy w' i now) j) = Some u \<and>
    last_beat s (RenewBy w' i now) t b w + seconds (worker_lease_seconds S) - skew \<le> u"
proof (cases "renew_guard i w' j")
  case True
  then have "w' = w" "i = job_id l" using assms(3,4) by (auto simp: renew_guard_def held_row_def)
  with True assms(1,2) show ?thesis by (simp add: row_simps)
next
  case False
  with after have "status j = Processing" by simp
  with False assms(3,4) have "w' \<noteq> w \<or> i \<noteq> job_id l" by (auto simp: renew_guard_def held_row_def)
  then have "last_beat s (RenewBy w' i now) t b w = b w" using assms(2) by (auto split: option.split)
  with lease False \<open>status j = Processing\<close> show ?thesis by simp
qed

lemma row_effect_lease:
  assumes snap: "snapshots_ok s" and hold: "holders_ok s" and ord: "orderly s ev" and clk: "clocked skew t ev"
    and run: "running s w = Some l" "running (step S ev s) w = Some l'"
    and row: "get_row (job_id l) (jobs (sys_db s)) = Some j" and held: "held_row w l j"
    and lease: "status j = Processing \<Longrightarrow> \<exists>u. leased_until j = Some u \<and> b w + seconds (worker_lease_seconds S) - skew \<le> u"
    and after: "status (row_effect S s ev j) = Processing"
  shows "\<exists>u. leased_until (row_effect S s ev j) = Some u \<and>
    last_beat s ev t b w + seconds (worker_lease_seconds S) - skew \<le> u"
proof -
  have id: "job_id j = job_id l" using get_row_Some [OF row] by simp
  have same: ?thesis if "row_effect S s ev j = j" "last_beat s ev t b w = b w"
    using lease after that by simp
  show ?thesis
  proof (cases ev)
    case (ClaimBy w' i now db_now)
    have "\<not> claim_guard i db_now j" using held by (auto simp: held_row_def claim_guard_def)
    then show ?thesis using ClaimBy run(1) by (intro same) auto
  next
    case (ProgressBy w' pct)
    with lease after show ?thesis by (auto simp: row_simps merge_col_def split: option.splits if_splits)
  next
    case (FinishBy w' now out)
    with run have "w' \<noteq> w" by (auto simp: step_running)
    then have "job_id l'' \<noteq> job_id j" if "running s w' = Some l''" for l''
      using one_holder [OF hold that run(1)] id by auto
    with FinishBy show ?thesis by (intro same) (auto split: option.split)
  next
    case (RenewBy w' i now)
    have "\<exists>u. leased_until (row_effect S s (RenewBy w' i now) j) = Some u \<and>
        last_beat s (RenewBy w' i now) t b w + seconds (worker_lease_seconds S) - skew \<le> u"
      by (rule renewed_lease [OF clk [unfolded RenewBy] run(1) id held]) (use lease after RenewBy in auto)
    with RenewBy show ?thesis by simp
  next
    case (Reap i db_now)
    with ord run(1) row id have "\<not> reap_guard i db_now j" by (auto simp: orderly_def reap_guard_def)
    with Reap show ?thesis by (intro same) auto
  next
    case (Promote i db_now)
    have "\<not> promote_guard i db_now j" using held by (auto simp: held_row_def promote_guard_def due_def)
    with Promote show ?thesis by (intro same) auto
  next
    case (Cleanup t')
    with lease after show ?thesis by (auto simp: cleanup_set_def split: if_splits)
  next
    case (CancelWrite c)
    with after snapshots_okD(2) [OF snap, of c] have "\<not> (c \<in> set (cancelling s) \<and> job_id j = job_id c)"
      by (auto simp: row_simps merge_col_def cancel_snapshot_def split: if_splits)
    with CancelWrite show ?thesis by (intro same) auto
  next
    case (RetryWrite c now)
    with ord row held id have "job_id j \<noteq> job_id c" by (auto simp: orderly_def held_row_def)
    with RetryWrite show ?thesis by (intro same) auto
  qed (use same in auto)
qed

lemma step_leases_ok:
  assumes ok: "db_ok (sys_db s)" and snap: "snapshots_ok s" and hold: "holders_ok s"
    and leases: "leases_ok S skew b s" and ord: "orderly s ev" and clk: "clocked skew t ev"
  shows "leases_ok S skew (last_beat s ev t b) (step S ev s)"
  unfolding leases_ok_def
proof (intro allI impI, elim conjE)
  fix w l' j'
  assume run': "running (step S ev s) w = Some l'" and row': "get_row (job_id l') (jobs (sys_db (step S ev s))) = Some j'"
    and proc: "status j' = Processing"
  show "\<exists>u. leased_until j' = Some u \<and> last_beat s ev t b w + seconds (worker_lease_seconds S) - skew \<le> u"
  proof (cases "running s w")
    case None
    with run' obtain i now db_now where ev: "ev = ClaimBy w i now db_now"
      and c: "fst (claim_job now db_now i w (worker_lease_seconds S) (sys_db s)) = Some l'"
      by (auto simp: step_running split: event.splits if_splits)
    then obtain d where d: "claim_job now db_now i w (worker_lease_seconds S) (sys_db s) = (Some l', d)"
      by (cases "claim_job now db_now i w (worker_lease_seconds S) (sys_db s)") simp
    obtain j where l': "l' = claim_set w (now + seconds (worker_lease_seconds S)) db_now j" "get_row i (jobs d) = Some l'"
      by (rule claim_job_Some [OF ok d]) (rule that)
    with ev None d row' get_row_Some [OF l'(2)] have "j' = l'" by (simp add: step.simps)
    with l'(1) ev None clk show ?thesis by (simp add: row_simps)
  next
    case (Some l)
    obtain j where j: "get_row (job_id l) (jobs (sys_db s)) = Some j" "held_row w l j"
      by (rule holders_okD [OF hold Some])
    have id: "job_id l' = job_id l" using run' Some by (auto simp: step_running row_simps split: event.splits if_splits)
    with row' step_row_kept [OF ok j(1), of S ev] have "j' = row_effect S s ev j" by simp
    moreover have "status j = Processing \<Longrightarrow> \<exists>u. leased_until j = Some u \<and> b w + seconds (worker_lease_seconds S) - skew \<le> u"
      by (rule leases_okD [OF leases Some j(1)])
    ultimately show ?thesis using row_effect_lease [OF snap hold ord clk Some run' j] proc by blast
  qed
qed

lemma timed_run_ok:
  assumes "timed_run S bound skew evs t b s" "bound + 2 * skew \<le> seconds (worker_lease_seconds S)"
    and "retries_in_time S initial evs"
  shows "run_of S orderly evs s \<and> leases_ok S skew b s"
  using assms(1,3)
proof (induction rule: timed_run.induct)
  case (start t b)
  then show ?case by (simp add: run_of.start leases_ok_def) (simp add: initial_def)
next
  case (next_event evs t b s t' ev)
  have retry: "retries_in_time S initial evs" "retry_in_time s ev"
    using next_event.prems timed_run_state [OF next_event.hyps(1)] by (simp_all add: retries_in_time_snoc)
  note IH = next_event.IH [OF retry(1)]
  have ok: "db_ok (sys_db s)" "snapshots_ok s" "holders_ok s" using orderly_run_ok IH by auto
  have ord: "orderly s ev" by (rule timed_orderly [OF conjunct2 [OF IH] next_event.hyps(4,3) retry(2) assms(2)])
  with ok IH step_leases_ok [OF ok _ ord next_event.hyps(3)] show ?case
    by (simp add: run_of.next_event)
qed

section \<open>Properties\<close>

text \<open>
  C12. Leases that outlast the work exclude other workers, with no assumption on the reaper: when all
  clocks are within \<open>skew\<close> and every executing worker renews, finishes or dies within \<open>bound\<close>, where
  \<open>bound + 2 skew\<close> fits the lease, and no manual retry writes over a row that has changed since it was
  read (\<open>retries_in_time\<close>; the code does not ensure this, and \<open>double_retry_two_workers\<close> shows that
  without it two workers can meet), then at any time no two workers execute one job, the row names its
  worker, and while the row is in processing its lease ends no earlier than one lease length (less
  the skew) after the last claim or renewal.
\<close>

theorem prompt_workers_never_reaped:
  assumes "timed_run S bound skew evs t b s" and "bound + 2 * skew \<le> seconds (worker_lease_seconds S)"
    and "retries_in_time S initial evs" and "running s w = Some l"
  shows "(\<forall>w' l'. running s w' = Some l' \<longrightarrow> job_id l' = job_id l \<longrightarrow> w' = w) \<and>
    (\<exists>j. get_row (job_id l) (jobs (sys_db s)) = Some j \<and> worker_id j = Some w \<and>
      (status j = Processing \<and> (\<exists>u. leased_until j = Some u \<and> b w + seconds (worker_lease_seconds S) - skew \<le> u) \<or>
       status j = Cancelled))"
proof -
  have ok: "run_of S orderly evs s" "leases_ok S skew b s" using timed_run_ok [OF assms(1-3)] by auto
  have hold: "holders_ok s" using orderly_run_ok [OF ok(1)] by simp
  obtain j where j: "get_row (job_id l) (jobs (sys_db s)) = Some j" "held_row w l j"
    by (rule holders_okD [OF hold assms(4)])
  have "w' = w" if "running s w' = Some l'" "job_id l' = job_id l" for w' l'
    by (rule one_holder [OF hold that(1) assms(4) that(2)])
  with j leases_okD [OF ok(2) assms(4) j(1)] show ?thesis unfolding held_row_def by auto
qed

theorem prompt_workers_never_reaped_witness:
  "\<exists>j u. get_row 1 (jobs (sys_db claimed)) = Some j \<and> leased_until j = Some u \<and> 100 + seconds 60 \<le> u"
proof -
  let ?S = default_settings
  have "timed_run ?S (seconds 35) 0 ([] @ [Submit 1 50 example_data None]) 50 (last_beat initial (Submit 1 50 example_data None) 50 (\<lambda>_. 0)) submitted"
    unfolding submitted_def
    by (rule timed_run.next_event [OF timed_run.start [where t = 0]]) (simp_all add: prompt_def initial_def)
  from timed_run.next_event [OF this, of 100 "ClaimBy ''w1'' 1 100 100"]
  have "timed_run ?S (seconds 35) 0 example_run 100 (last_beat submitted (ClaimBy ''w1'' 1 100 100) 100 (\<lambda>_. 0)) claimed"
    by (simp add: prompt_def submitted_row(2) example_run_def claimed_def)
  moreover have "retries_in_time ?S initial example_run" by (simp add: example_run_def retry_in_time_def)
  ultimately show ?thesis
    using prompt_workers_never_reaped [OF _ _ _ claimed_row(3)] by (fastforce simp: row_simps submitted_row(2) claimed_row(2))
qed

end
