(* ===== verification/Audit_Trail.thy ===== *)
theory Audit_Trail
  imports Cluster
begin

text \<open>
  The table \<^verbatim>\<open>job_logs\<close> as an audit trail: which rows the events of \<open>System\<close> append to it, and
  what the trail tells about a job in any reachable state.
\<close>

section \<open>The log rows of an event\<close>

definition final_log :: "settings \<Rightarrow> datetime \<Rightarrow> run_outcome \<Rightarrow> job \<Rightarrow> job_log list" where
  "final_log S now out j =
     (case out of
        Returned d \<Rightarrow> append_job_log [] (job_id j) ''job completed'' Info
          (Some (JObj [(''status'', JStr (status_value Completed))]))
      | _ \<Rightarrow> failure_log S now (fst (failure_of S out)) (snd (failure_of S out)) j)"

fun staged :: "settings \<Rightarrow> system \<Rightarrow> event \<Rightarrow> job_log list" where
  "staged S s (Submit i now data key) =
     (if can_insert S i data key (sys_db s) then created_log (new_job S i now data key) else [])"
| "staged S s (StartBy w) =
     (case running s w of None \<Rightarrow> [] | Some l \<Rightarrow> job_logs (start_commit w l empty_db))"
| "staged S s (FinishBy w now out) =
     (case running s w of None \<Rightarrow> [] | Some l \<Rightarrow> final_log S now out l)"
| "staged S s (CancelWrite l) = (if l \<in> set (cancelling s) then job_logs (cancel_commit l empty_db) else [])"
| "staged S s (RetryWrite l now) = (if l \<in> set (retrying s) then job_logs (retry_commit now l empty_db) else [])"
| "staged S s ev = []"

lemma finalize_logs:
  "job_logs (fst (finalize S now out l st)) = job_logs (fst st) @ final_log S now out l"
  by (cases out) (simp_all add: finalize_eq final_log_def complete_job_def row_simps table_simps)

lemma claim_job_logs: "job_logs (snd (claim_job now t i w lease d)) = job_logs d"
  by (simp add: claim_job_def Let_def case_prod_unfold split: option.split)

lemma renew_job_logs: "job_logs (snd (renew_job_lease now i w lease d)) = job_logs d"
  by (simp add: renew_job_lease_def Let_def case_prod_unfold split: option.split)

lemma reap_one_logs: "job_logs (snd (reap_one t i (n, d))) = job_logs d"
  by (simp add: reap_one_def Let_def case_prod_unfold split: option.split)

lemma promote_one_logs: "job_logs (fst (snd (promote_one Z t i (n, d, r)))) = job_logs d"
  by (simp add: promote_one_def Let_def case_prod_unfold split: option.split)

lemma cleanup_logs: "job_logs (snd (cleanup_expired_idempotency_keys t d)) = job_logs d"
  by (simp add: cleanup_expired_idempotency_keys_def Let_def case_prod_unfold)

lemma step_logs: "job_logs (sys_db (step S ev s)) = job_logs (sys_db s) @ staged S s ev"
proof (cases ev)
  case (Submit i now data key)
  show ?thesis
  proof (cases "can_insert S i data key (sys_db s)")
    case True
    then have ins: "insert_row (new_job S i now data key) (jobs (sys_db s)) = Inr (jobs (sys_db s) @ [new_job S i now data key])"
      by (simp add: insert_new_job)
    with Submit True commit_logs_after_insert [OF ins] show ?thesis by (simp add: step.simps)
  qed (use Submit in \<open>simp add: step.simps insert_new_job\<close>)
next
  case (ClaimBy w i now t)
  then show ?thesis
    using claim_job_logs [of now t i w "worker_lease_seconds S" "sys_db s"]
    by (cases "claim_job now t i w (worker_lease_seconds S) (sys_db s)") (auto simp: step.simps split: option.split)
qed (auto simp: step.simps finalize_logs renew_job_logs reap_one_logs promote_one_logs cleanup_logs
    start_commit_def cancel_commit_def retry_commit_def table_simps report_progress_pair empty_db_def
    split: option.split sum.split)

section \<open>Counting\<close>

definition trail :: "database \<Rightarrow> uuid \<Rightarrow> string \<Rightarrow> job_log list" where
  "trail d k msg = filter (\<lambda>l. log_job_id l = k \<and> log_message l = msg) (job_logs d)"

lemma trail_step:
  "trail (sys_db (step S ev s)) k msg =
    trail (sys_db s) k msg @ filter (\<lambda>l. log_job_id l = k \<and> log_message l = msg) (staged S s ev)"
  by (simp add: trail_def step_logs)

lemmas staged_defs = created_log_def start_commit_def cancel_commit_def retry_commit_def final_log_def failure_log_def
  append_job_log_def empty_db_def table_simps

lemma final_log_message:
  "l \<in> set (final_log S now out j) \<Longrightarrow>
    log_job_id l = job_id j \<and> log_message l \<in> {''job completed'', ''retry scheduled'', ''job failed permanently''}"
  by (cases out) (auto simp: staged_defs split: if_splits)

lemma staged_created:
  "filter (\<lambda>l. log_job_id l = k \<and> log_message l = ''job created'') (staged S s ev) =
    (case fresh_row S s ev k of None \<Rightarrow> [] | Some j \<Rightarrow> created_log j)"
proof (cases ev)
  case (FinishBy w now out)
  then show ?thesis
    by (auto simp: fresh_row_def filter_empty_conv dest!: final_log_message split: option.split)
qed (auto simp: staged_defs fresh_row_def row_simps split: option.splits)

text \<open>A row that reaches a final status does so in the transaction that logs it.\<close>

fun final_message :: "JobStatus \<Rightarrow> string option" where
  "final_message Completed = Some ''job completed''"
| "final_message Failed = Some ''job failed permanently''"
| "final_message Cancelled = Some ''job cancelled''"
| "final_message st = None"

lemma final_status_staged:
  assumes snap: "snapshots_ok s" and id: "job_id j = k"
    and changed: "status (row_effect S s ev j) \<noteq> status j" and msg: "final_message (status (row_effect S s ev j)) = Some m"
  shows "filter (\<lambda>l. log_job_id l = k \<and> log_message l = m) (staged S s ev) \<noteq> []"
proof (cases ev)
  case (FinishBy w now out)
  with changed obtain l where l: "running s w = Some l" "job_id l = k" by (auto simp: id split: option.splits if_splits)
  have "status (row_effect S s ev j) = status (final_row S now out l)"
    using FinishBy l id changed by (auto simp: row_simps merge_col_def)
  with FinishBy l msg show ?thesis
    by (cases out) (auto simp: final_row_def row_simps staged_defs split: if_splits)
next
  case (CancelWrite l)
  with changed msg id snapshots_okD(2) [OF snap, of l] show ?thesis
    by (auto simp: row_simps merge_col_def staged_defs split: if_splits)
next
  case (RetryWrite l now)
  with changed msg id show ?thesis by (auto simp: row_simps merge_col_def split: if_splits)
qed (use changed msg in \<open>auto simp: row_simps cleanup_set_def merge_col_def split: if_splits option.splits\<close>)

text \<open>A manual retry raises the limit by one and says so; nothing else raises it.\<close>

abbreviation retry_requests :: "database \<Rightarrow> uuid \<Rightarrow> int" where
  "retry_requests d k \<equiv> int (length (trail d k ''manual retry requested''))"

definition limit_ok :: "settings \<Rightarrow> database \<Rightarrow> job \<Rightarrow> bool" where
  "limit_ok S d j \<longleftrightarrow> max_attempts j \<le> default_max_attempts S + retry_requests d (job_id j)"

lemma retry_requests_grow: "retry_requests (sys_db s) k \<le> retry_requests (sys_db (step S ev s)) k"
  by (simp add: trail_step)

lemma limit_ok_step: "limit_ok S (sys_db s) j \<Longrightarrow> limit_ok S (sys_db (step S ev s)) j"
  using retry_requests_grow [of s "job_id j" S ev] unfolding limit_ok_def by linarith

lemma row_effect_limit:
  assumes "limit_ok S (sys_db s) j" "\<And>l. l \<in> set (retrying s) \<Longrightarrow> limit_ok S (sys_db s) l"
  shows "limit_ok S (sys_db (step S ev s)) (row_effect S s ev j)"
proof (cases "\<exists>l now. ev = RetryWrite l now \<and> l \<in> set (retrying s) \<and> job_id j = job_id l")
  case True
  then obtain l now where l: "ev = RetryWrite l now" "l \<in> set (retrying s)" "job_id j = job_id l" by blast
  then have "retry_requests (sys_db (step S ev s)) (job_id l) = retry_requests (sys_db s) (job_id l) + 1"
    by (simp add: trail_step staged_defs)
  with l assms(2) [OF l(2)] show ?thesis by (simp add: limit_ok_def row_simps merge_col_def)
next
  case False
  have "max_attempts (row_effect S s ev j) = max_attempts j"
  proof (cases ev)
    case (RetryWrite l now)
    with False show ?thesis by auto
  qed (auto simp: row_simps merge_col_def cleanup_set_def promote_set_def final_row_def split: option.split run_outcome.split)
  with limit_ok_step [OF assms(1), of ev] show ?thesis by (simp add: limit_ok_def)
qed

text \<open>Every log row belongs to a job: the foreign key no commit checks in the model always holds.\<close>

lemma staged_known:
  assumes ok: "db_ok (sys_db s)" and known: "snapshots_known s" and l: "l \<in> set (staged S s ev)"
  shows "get_row (log_job_id l) (jobs (sys_db (step S ev s))) \<noteq> None"
proof -
  note kept = extends_known [OF step_extends [OF ok]]
  show ?thesis
  proof (cases ev)
    case (Submit i now data key)
    with l have c: "can_insert S i data key (sys_db s)" "log_job_id l = i"
      by (auto simp: row_simps dest: created_log_ids split: if_splits)
    then have "get_row i (jobs (sys_db s)) = None" by (simp add: can_insert_def)
    with Submit c show ?thesis by (simp add: step_row [OF ok] fresh_row_def)
  next
    case (FinishBy w now out)
    with l obtain j where "running s w = Some j" "l \<in> set (final_log S now out j)"
      by (cases "running s w") auto
    moreover from this(2) have "log_job_id l = job_id j" using final_log_message by blast
    ultimately show ?thesis using known kept by (auto simp: snapshots_known_def ran_def)
  next
    case (StartBy w)
    with l obtain j where "running s w = Some j" "log_job_id l = job_id j"
      by (cases "running s w") (auto simp: staged_defs)
    then show ?thesis using known kept by (auto simp: snapshots_known_def ran_def)
  qed (use l known kept in \<open>auto simp: staged_defs snapshots_known_def ran_def split: option.splits if_splits\<close>)
qed

lemma reachable_known: "reachable S s \<Longrightarrow> snapshots_known s"
proof (induction rule: reachable.induct)
  case start
  then show ?case by (simp add: snapshots_known_def initial_def)
next
  case (next_event s ev)
  then show ?case using reachable_ok step_snapshots_known by blast
qed

lemma reachable_logs_known:
  "reachable S s \<Longrightarrow> l \<in> set (job_logs (sys_db s)) \<Longrightarrow> get_row (log_job_id l) (jobs (sys_db s)) \<noteq> None"
proof (induction rule: reachable.induct)
  case start
  then show ?case by (simp add: initial_def empty_db_def)
next
  case (next_event s ev)
  have ok: "db_ok (sys_db s)" using reachable_ok [OF next_event.hyps] by simp
  show ?case
  proof (cases "l \<in> set (job_logs (sys_db s))")
    case True
    with next_event.IH extends_known [OF step_extends [OF ok]] show ?thesis by blast
  next
    case False
    with next_event.prems have "l \<in> set (staged S s ev)" by (simp add: step_logs)
    then show ?thesis by (rule staged_known [OF ok reachable_known [OF next_event.hyps]])
  qed
qed

section \<open>The invariant\<close>

definition audited :: "settings \<Rightarrow> system \<Rightarrow> bool" where
  "audited S s \<longleftrightarrow>
     (\<forall>k. trail (sys_db s) k ''job created'' = [] \<longleftrightarrow> get_row k (jobs (sys_db s)) = None) \<and>
     (\<forall>k. length (trail (sys_db s) k ''job created'') \<le> 1) \<and>
     (\<forall>k j m. get_row k (jobs (sys_db s)) = Some j \<and> final_message (status j) = Some m \<longrightarrow> trail (sys_db s) k m \<noteq> []) \<and>
     (\<forall>k j. get_row k (jobs (sys_db s)) = Some j \<longrightarrow> limit_ok S (sys_db s) j) \<and>
     (\<forall>l \<in> set (retrying s). limit_ok S (sys_db s) l)"

lemma step_retrying:
  "l \<in> set (retrying (step S ev s)) \<Longrightarrow> l \<in> set (retrying s) \<or> (\<exists>i. get_row i (jobs (sys_db s)) = Some l)"
  by (cases ev)
    (auto simp: step.simps retry_check_Inr get_job_def report_progress_pair
      split: sum.splits option.splits prod.splits if_splits dest: notin_set_remove1)

lemma step_audited:
  assumes ok: "db_ok (sys_db s)" and snap: "snapshots_ok s" and aud: "audited S s"
  shows "audited S (step S ev s)"
proof -
  let ?d = "sys_db s" and ?d' = "sys_db (step S ev s)"
  have rows: "get_row k (jobs ?d') = (case get_row k (jobs ?d) of Some j \<Rightarrow> Some (row_effect S s ev j) | None \<Rightarrow> fresh_row S s ev k)" for k
    by (rule step_row [OF ok])
  have created: "trail ?d' k ''job created'' =
      trail ?d k ''job created'' @ (case fresh_row S s ev k of None \<Rightarrow> [] | Some j \<Rightarrow> created_log j)" for k
    by (simp only: trail_step staged_created)
  have fresh: "fresh_row S s ev k = None" if "get_row k (jobs ?d) \<noteq> None" for k
    using that by (auto simp: fresh_row_def can_insert_def split: event.split)
  have one: "length (created_log j) = 1" for j by (simp add: created_log_def append_job_log_def)
  have "(trail ?d' k ''job created'' = [] \<longleftrightarrow> get_row k (jobs ?d') = None) \<and> length (trail ?d' k ''job created'') \<le> 1" for k
    using aud fresh [of k] one unfolding created rows audited_def
    by (cases "get_row k (jobs ?d)"; cases "fresh_row S s ev k") (auto simp: created_log_def append_job_log_def)
  moreover have "trail ?d' k m \<noteq> []" if row: "get_row k (jobs ?d') = Some j'" and m: "final_message (status j') = Some m" for k j' m
    using ok row
  proof (cases rule: step_row_cases)
    case (old j)
    show ?thesis
    proof (cases "status j' = status j")
      case True
      with old(1) m aud show ?thesis unfolding audited_def by (auto simp: trail_step)
    next
      case False
      with final_status_staged [OF snap, of j k S ev m] old m get_row_Some [OF old(1)] show ?thesis
        by (simp add: trail_step)
    qed
  next
    case (new i now data key)
    with m show ?thesis by (simp add: row_simps split: if_splits)
  qed
  moreover have "limit_ok S ?d' j'" if row: "get_row k (jobs ?d') = Some j'" for k j'
    using ok row
  proof (cases rule: step_row_cases)
    case (old j)
    with aud row_effect_limit [of S s j ev] show ?thesis unfolding audited_def by blast
  next
    case (new i now data key)
    then show ?thesis by (simp add: limit_ok_def row_simps)
  qed
  moreover have "limit_ok S ?d' l" if "l \<in> set (retrying (step S ev s))" for l
    using step_retrying [OF that] aud limit_ok_step unfolding audited_def by blast
  ultimately show ?thesis unfolding audited_def by blast
qed

lemma reachable_audited: "reachable S s \<Longrightarrow> audited S s"
proof (induction rule: reachable.induct)
  case start
  then show ?case by (simp add: audited_def initial_def empty_db_def get_row_def trail_def)
next
  case (next_event s ev)
  then show ?case using reachable_ok step_audited by blast
qed

section \<open>Property\<close>

text \<open>
  C4. The audit trail explains the table, in every interleaving with crashes anywhere: a job has
  exactly one "job created" row, every log row belongs to a job; a job that is completed, failed or cancelled
  has the log row that says so; and its attempt limit is at most the default plus the number of
  its logged manual retries.
\<close>

theorem audit_trail_explains_rows:
  assumes "reachable S s"
  shows "length (trail (sys_db s) k ''job created'') = (if get_row k (jobs (sys_db s)) = None then 0 else 1) \<and>
    (\<forall>l \<in> set (job_logs (sys_db s)). get_row (log_job_id l) (jobs (sys_db s)) \<noteq> None) \<and>
    (\<forall>j. get_row k (jobs (sys_db s)) = Some j \<longrightarrow>
      (status j = Completed \<longrightarrow> trail (sys_db s) k ''job completed'' \<noteq> []) \<and>
      (status j = Failed \<longrightarrow> trail (sys_db s) k ''job failed permanently'' \<noteq> []) \<and>
      (status j = Cancelled \<longrightarrow> trail (sys_db s) k ''job cancelled'' \<noteq> []) \<and>
      max_attempts j \<le> default_max_attempts S + int (length (trail (sys_db s) k ''manual retry requested'')))"
proof -
  have aud: "audited S s" by (rule reachable_audited [OF assms])
  then have created: "trail (sys_db s) k ''job created'' = [] \<longleftrightarrow> get_row k (jobs (sys_db s)) = None"
    "length (trail (sys_db s) k ''job created'') \<le> 1"
    unfolding audited_def by blast+
  have final: "trail (sys_db s) k m \<noteq> []" if "get_row k (jobs (sys_db s)) = Some j" "final_message (status j) = Some m" for j m
    using aud that unfolding audited_def by blast
  have "limit_ok S (sys_db s) j" if "get_row k (jobs (sys_db s)) = Some j" for j
    using aud that unfolding audited_def by blast
  moreover have "job_id j = k" if "get_row k (jobs (sys_db s)) = Some j" for j using get_row_Some [OF that] by simp
  ultimately show ?thesis
    using created final reachable_logs_known [OF assms] by (cases "trail (sys_db s) k ''job created''") (auto simp: limit_ok_def)
qed

theorem audit_trail_explains_rows_witness:
  "length (trail (sys_db claimed) 1 ''job created'') = 1 \<and> trail (sys_db claimed) 2 ''job created'' = []"
proof -
  have r: "reachable default_settings claimed" by (rule run_of_reachable [OF claimed_row(1)])
  have "get_row 2 (jobs (sys_db claimed)) = None" by (rule claimed_others) simp
  with audit_trail_explains_rows [OF r, of 1] audit_trail_explains_rows [OF r, of 2] claimed_row(2)
  show ?thesis by simp
qed

end
