(* ===== verification/Storable.thy ===== *)
theory Storable
  imports Audit_Trail
begin

text \<open>
  What the program writes into the columns of PostgreSQL, the columns can take.  The only texts a
  client chooses are those of the payload; the \<open>INSERT\<close> of a payload with U+0000 is refused, and what
  the handlers make of the others, results and error messages, has no U+0000 either.  So the commits
  of the workers, which the model lets succeed, do.
\<close>

section \<open>Texts without U+0000\<close>

definition nul_free :: "string \<Rightarrow> bool" where
  "nul_free s \<longleftrightarrow> CHR 0x00 \<notin> set s"

lemma nul_free_simps [simp]:
  "nul_free []" "nul_free (c # s) \<longleftrightarrow> c \<noteq> CHR 0x00 \<and> nul_free s" "nul_free (s @ t) \<longleftrightarrow> nul_free s \<and> nul_free t"
  "nul_free (rev s) \<longleftrightarrow> nul_free s" "nul_free (concat ss) \<longleftrightarrow> list_all nul_free ss"
  by (auto simp: nul_free_def list_all_iff)

lemma nul_free_subset: "set t \<subseteq> set s \<Longrightarrow> nul_free s \<Longrightarrow> nul_free t"
  by (auto simp: nul_free_def)

lemma nul_free_parts:
  "nul_free s \<Longrightarrow> nul_free (take n s)" "nul_free s \<Longrightarrow> nul_free (drop n s)"
  "nul_free s \<Longrightarrow> nul_free (dropWhile P s)" "nul_free s \<Longrightarrow> nul_free (takeWhile P s)"
  by (auto elim!: nul_free_subset [rotated] dest: in_set_takeD in_set_dropD set_dropWhileD set_takeWhileD)

lemma storable_forms [simp]:
  "storable (JStr s) \<longleftrightarrow> nul_free s" "storable (JInt n)" "storable (JBool b)" "storable JNull"
  "storable (JObj kvs) \<longleftrightarrow> list_all (\<lambda>(k, v). nul_free k \<and> storable v) kvs"
  by (simp_all add: nul_free_def)

declare storable.simps [simp del]

lemma digit_not_nul:
  assumes "d < 10"
  shows "(char_of (48 + nat d) :: char) \<noteq> CHR 0x00"
proof (cases "0 \<le> d")
  case True
  have "\<forall>e \<in> set [0..9]. (char_of (48 + nat e) :: char) \<noteq> CHR 0x00" by code_simp
  with True assms show ?thesis by auto
next
  case False
  then have "nat d = 0" by simp
  moreover have "(char_of (48 + (0 :: nat)) :: char) \<noteq> CHR 0x00" by code_simp
  ultimately show ?thesis by (simp only: not_False_eq_True)
qed

lemma nul_free_dec: "nul_free (dec_nat n)"
proof (induction n rule: dec_nat.induct)
  case (1 n)
  have "(char_of (48 + nat (n mod 10)) :: char) \<noteq> CHR 0x00" by (rule digit_not_nul) simp
  with 1 digit_not_nul [of n] show ?case by (subst dec_nat.simps) simp
qed

lemma nul_free_int: "nul_free (py_str_int n)"
  by (simp add: py_str_int_def nul_free_dec)

lemma nul_free_dotted: "nul_free i \<Longrightarrow> nul_free f \<Longrightarrow> nul_free (dotted i f)"
  by (simp add: dotted_def rstrip0_def Let_def nul_free_parts)

lemma hex_digit_not_nul: "0 \<le> d \<Longrightarrow> d < 16 \<Longrightarrow> hex_digit d \<noteq> CHR 0x00"
proof -
  have "\<forall>e \<in> set [0..15]. hex_digit e \<noteq> CHR 0x00" by code_simp
  then show "0 \<le> d \<Longrightarrow> d < 16 \<Longrightarrow> hex_digit d \<noteq> CHR 0x00" by auto
qed

text \<open>\<^verbatim>\<open>repr\<close> escapes it, whatever the text.\<close>

lemma nul_free_repr_char: "q \<noteq> CHR 0x00 \<Longrightarrow> nul_free (repr_char q c)"
proof -
  assume q: "q \<noteq> CHR 0x00"
  have c: "int (of_char c) = of_char c" by (rule of_nat_of_char)
  have "0 \<le> (of_char c :: int)" unfolding c [symmetric] by simp
  moreover have "(of_char c :: int) < 256" unfolding c [symmetric] using nat_of_char_less_256 [of c] by linarith
  ultimately have "hex_digit (of_char c div 16) \<noteq> CHR 0x00" "hex_digit (of_char c mod 16) \<noteq> CHR 0x00"
    by (intro hex_digit_not_nul; simp)+
  moreover have "\<not> is_printable (CHR 0x00)" by (simp add: is_printable_def)
  ultimately show ?thesis using q by (auto simp: repr_char_def)
qed

lemma nul_free_repr: "nul_free (py_repr s)"
  by (simp add: py_repr_def Let_def list_all_iff nul_free_repr_char)

lemma nul_free_fmt: "nul_free (fmt_g x)"
proof -
  have "nul_free (replicate n (CHR ''0''))" for n by (induction n) simp_all
  then show ?thesis
    by (auto simp: fmt_g_def Let_def case_prod_unfold nul_free_dec nul_free_parts intro!: nul_free_dotted)
qed

lemma nul_free_strip: "nul_free s \<Longrightarrow> nul_free (strip s)"
  by (simp add: strip_def nul_free_parts)

section \<open>What the worker writes at the end\<close>

definition storable_row :: "job \<Rightarrow> bool" where
  "storable_row j \<longleftrightarrow> storable (JObj (payload j)) \<and>
     (case result j of None \<Rightarrow> True | Some v \<Rightarrow> storable v) \<and>
     (case error_message j of None \<Rightarrow> True | Some m \<Rightarrow> nul_free m)"

lemma storable_rowD:
  "storable_row j \<Longrightarrow> storable (JObj (payload j))" "storable_row j \<Longrightarrow> result j = Some v \<Longrightarrow> storable v"
  "storable_row j \<Longrightarrow> error_message j = Some m \<Longrightarrow> storable (JStr m)"
  by (simp_all add: storable_row_def)

lemma new_job_storable: "storable (JObj (jc_payload data)) \<Longrightarrow> storable_row (new_job S i now data key)"
  by (simp add: storable_row_def new_job_def Let_def)

text \<open>The job as its handler gets it: a validated payload that could be stored.\<close>

definition shaped :: "job \<Rightarrow> bool" where
  "shaped j \<longleftrightarrow> payload_shape (job_type j) (payload j) \<and> storable (JObj (payload j))"

lemma handler_storable:
  assumes "shaped j" "nul_free hex12" "get_handler (job_type_value (job_type j)) = Inr h"
  shows "snd (run_handler S hex12 rng h j) = Inr d \<Longrightarrow> storable (JObj d)"
    "snd (run_handler S hex12 rng h j) = Inl e \<Longrightarrow> nul_free (exn_text e)"
proof -
  note run_defs = email_run_def webhook_run_def report_run_def batch_run_def dict_get_def dict_get_default_def
    payload_shape_def shaped_def quoted_def
  show "snd (run_handler S hex12 rng h j) = Inr d \<Longrightarrow> storable (JObj d)"
    using assms by (cases "job_type j") (auto simp: run_defs Let_def nul_free_def split: if_splits)
  show "snd (run_handler S hex12 rng h j) = Inl e \<Longrightarrow> nul_free (exn_text e)"
    using assms by (cases "job_type j") (auto simp: run_defs Let_def nul_free_repr split: if_splits)
qed

lemma execute_storable:
  assumes "shaped j" "nul_free (run_hex12 env)" "execute S env j = (pcts, out)"
  shows "case out of Returned d \<Rightarrow> storable (JObj d) | TimedOut \<Rightarrow> True | Raised e \<Rightarrow> nul_free (exn_text e)"
proof -
  obtain h where "get_handler (job_type_value (job_type j)) = Inr h" and run: "execute S env j =
    (let (acts, res) = run_handler S (run_hex12 env) (run_rng env) h j;
         (pcts, finished) = run_until (job_timeout_seconds S) (run_delay env) 0 0 acts
     in (pcts, if \<not> finished then TimedOut else case res of Inr d \<Rightarrow> Returned d | Inl e \<Rightarrow> Raised e))"
    by (rule execute_registered)
  from handler_storable [OF assms(1,2) this(1), of S "run_rng env"] run assms(3) show ?thesis
    by (auto simp: case_prod_unfold Let_def split: if_splits sum.splits)
qed

lemma failure_message:
  assumes "shaped j" "nul_free (run_hex12 env)" "execute S env j = (pcts, out)"
  shows "nul_free (fst (failure_of S out))"
proof (cases out)
  case (Raised e)
  with assms(3) obtain m where "e = HandlerError m" by (auto elim: execute_raises)
  with execute_storable [OF assms] Raised show ?thesis
    by (simp add: failure_of_def safe_error_message_def Let_def nul_free_strip nul_free_parts nul_free_fmt)
qed (simp_all add: failure_of_def nul_free_fmt)

text \<open>The outcome of a run, once it is known to be storable.\<close>

definition storable_outcome :: "settings \<Rightarrow> run_outcome \<Rightarrow> bool" where
  "storable_outcome S out \<longleftrightarrow> nul_free (fst (failure_of S out)) \<and>
     (case out of Returned d \<Rightarrow> storable (JObj d) | _ \<Rightarrow> True)"

lemma execute_outcome:
  "shaped j \<Longrightarrow> nul_free (run_hex12 env) \<Longrightarrow> execute S env j = (pcts, out) \<Longrightarrow> storable_outcome S out"
  using execute_storable [of j env S pcts out] failure_message [of j env S pcts out]
  by (cases out) (simp_all add: storable_outcome_def)

section \<open>The whole system\<close>

text \<open>
  The events the program really causes: submissions of validated bodies, workers whose names have no
  U+0000, and outcomes that come from running the handler of the job the worker holds.
\<close>

definition genuine :: "settings \<Rightarrow> system \<Rightarrow> event \<Rightarrow> bool" where
  "genuine S s ev \<longleftrightarrow>
     (case ev of
        Submit i now data key \<Rightarrow> payload_shape (jc_job_type data) (jc_payload data)
      | ClaimBy w i now db_now \<Rightarrow> nul_free w
      | FinishBy w now out \<Rightarrow> (\<forall>l. running s w = Some l \<longrightarrow>
          (\<exists>env j pcts. nul_free (run_hex12 env) \<and> identity j = identity l \<and> execute S env j = (pcts, out)))
      | _ \<Rightarrow> True)"

definition storable_log :: "job_log \<Rightarrow> bool" where
  "storable_log l \<longleftrightarrow> nul_free (log_message l) \<and> (case log_metadata l of None \<Rightarrow> True | Some m \<Rightarrow> storable m)"

lemma storable_logD:
  "storable_log l \<Longrightarrow> storable (JStr (log_message l)) \<and> (\<forall>m. log_metadata l = Some m \<longrightarrow> storable m)"
  by (simp add: storable_log_def split: option.splits)

definition all_storable :: "system \<Rightarrow> bool" where
  "all_storable s \<longleftrightarrow> (\<forall>k j. get_row k (jobs (sys_db s)) = Some j \<longrightarrow> shaped j \<and> storable_row j) \<and>
     list_all storable_log (job_logs (sys_db s)) \<and> (\<forall>w l. running s w = Some l \<longrightarrow> shaped l \<and> nul_free w)"

lemma shaped_identity: "identity j' = identity j \<Longrightarrow> shaped j' = shaped j"
  by (simp add: identity_def shaped_def)

lemma genuine_outcome:
  assumes "all_storable s" "genuine S s (FinishBy w now out)" "running s w = Some l"
  shows "storable_outcome S out"
proof -
  obtain env j pcts where "nul_free (run_hex12 env)" "identity j = identity l" "execute S env j = (pcts, out)"
    using assms(2,3) by (auto simp: genuine_def)
  moreover have "shaped l" using assms(1,3) by (simp add: all_storable_def)
  ultimately show ?thesis using execute_outcome shaped_identity by blast
qed

lemma row_effect_storable:
  assumes "all_storable s" "genuine S s ev" "storable_row j"
  shows "storable_row (row_effect S s ev j)"
proof -
  have pay: "payload (row_effect S s ev j) = payload j" using row_effect_identity [of S s ev j] by (simp add: identity_def)
  have cols: "result (row_effect S s ev j) = result j" "error_message (row_effect S s ev j) = error_message j"
    if "\<And>w now out. ev \<noteq> FinishBy w now out" "\<And>l now. ev \<noteq> RetryWrite l now"
    using that by (cases ev; simp add: claim_set_def renew_set_def reap_set_def promote_set_def cleanup_set_def
        cancel_values_def progress_values_def row_simps merge_col_def split: option.split)+
  show ?thesis
  proof (cases ev)
    case (FinishBy w now out)
    with assms genuine_outcome [OF assms(1), of S w now out] pay show ?thesis
      by (auto simp: storable_row_def storable_outcome_def row_simps merge_col_def final_row_def complete_values_def
          failure_values_def Let_def split: option.splits run_outcome.splits)
  next
    case (RetryWrite l now)
    with assms(3) pay show ?thesis
      by (auto simp: storable_row_def row_simps merge_col_def retry_values_def split: option.splits)
  qed (use pay cols assms(3) in \<open>simp_all add: storable_row_def\<close>)
qed

lemma nul_free_isoformat: "nul_free (isoformat t)"
proof -
  have "nul_free (replicate n (CHR ''0''))" for n by (induction n) simp_all
  then have "nul_free (pad k n)" for k n by (simp add: pad_def Let_def nul_free_dec)
  then show ?thesis by (simp add: isoformat_def Let_def case_prod_unfold)
qed

lemma nul_free_values: "nul_free (status_value st)" "nul_free (job_type_value t)"
  by (cases st; simp) (cases t; simp)

lemma staged_storable:
  assumes "all_storable s" "genuine S s ev"
  shows "list_all storable_log (staged S s ev)"
proof (cases ev)
  case (FinishBy w now out)
  with assms genuine_outcome [OF assms(1), of S w now out] show ?thesis
    by (auto simp: storable_log_def storable_outcome_def staged_defs nul_free_isoformat nul_free_values split: option.split run_outcome.splits)
next
  case (StartBy w)
  with assms(1) show ?thesis
    by (auto simp: all_storable_def storable_log_def staged_defs nul_free_values split: option.split)
qed (auto simp: storable_log_def staged_defs nul_free_values row_simps split: option.split)

lemma step_held_storable:
  assumes ok: "db_ok (sys_db s)" and all: "all_storable s" and g: "genuine S s ev"
    and run: "running (step S ev s) w = Some l'"
  shows "shaped l' \<and> nul_free w"
proof (cases "running s w")
  case None
  with run obtain i now t where ev: "ev = ClaimBy w i now t"
    and c: "fst (claim_job now t i w (worker_lease_seconds S) (sys_db s)) = Some l'"
    by (auto simp: step_running split: event.splits if_splits)
  then obtain d where d: "claim_job now t i w (worker_lease_seconds S) (sys_db s) = (Some l', d)"
    by (cases "claim_job now t i w (worker_lease_seconds S) (sys_db s)") simp
  obtain j where "get_row i (jobs (sys_db s)) = Some j" "l' = claim_set w (now + seconds (worker_lease_seconds S)) t j"
    by (rule claim_job_Some [OF ok d]) (rule that)
  moreover from this(1) all have "shaped j" unfolding all_storable_def by blast
  moreover from g ev have "nul_free w" by (simp add: genuine_def)
  ultimately show ?thesis using shaped_identity [OF identity_kept(1)] by simp
next
  case (Some l)
  with run have "identity l' = identity l"
    by (auto simp: step_running identity_kept split: event.splits if_splits)
  moreover have "shaped l \<and> nul_free w" using Some all unfolding all_storable_def by blast
  ultimately show ?thesis using shaped_identity by blast
qed

lemma step_all_storable:
  assumes ok: "db_ok (sys_db s)" and all: "all_storable s" and g: "genuine S s ev"
  shows "all_storable (step S ev s)"
proof -
  have "shaped j' \<and> storable_row j'" if "get_row k (jobs (sys_db (step S ev s))) = Some j'" for k j'
    using ok that
  proof (cases rule: step_row_cases)
    case (old j)
    with all row_effect_storable [OF all g, of j] shaped_identity [OF row_effect_identity] show ?thesis
      by (auto simp: all_storable_def)
  next
    case (new i now data key)
    from new(3) have "storable (JObj (jc_payload data))" by (simp add: can_insert_def)
    moreover from this new g have "shaped j'" by (simp add: genuine_def shaped_def row_simps)
    ultimately show ?thesis using new(5) new_job_storable by blast
  qed
  moreover have "list_all storable_log (job_logs (sys_db (step S ev s)))"
    using all staged_storable [OF all g] by (simp add: step_logs all_storable_def)
  ultimately show ?thesis
    using step_held_storable [OF ok all g] unfolding all_storable_def by blast
qed

lemma genuine_run_storable: "run_of S (genuine S) evs s \<Longrightarrow> all_storable s"
proof (induction rule: run_of.induct)
  case start
  then show ?case by (simp add: all_storable_def initial_def empty_db_def get_row_def)
next
  case (next_event evs s ev)
  with reachable_ok [OF run_of_reachable] step_all_storable show ?case by blast
qed

section \<open>Property\<close>

text \<open>
  C5. Every value the program writes into a text or \<^verbatim>\<open>jsonb\<close> column is one PostgreSQL stores: in
  every run whose submissions are validated and whose outcomes come from the handlers, whatever
  cancels, crashes, retries and timeouts interleave, the payload, the result and the error message of
  every row and the message and metadata of every log row are free of U+0000.
\<close>

theorem stored_values_storable:
  assumes "run_of S (genuine S) evs s"
  shows "(\<forall>j \<in> set (jobs (sys_db s)). storable (JObj (payload j)) \<and>
      (\<forall>v. result j = Some v \<longrightarrow> storable v) \<and> (\<forall>m. error_message j = Some m \<longrightarrow> storable (JStr m))) \<and>
    (\<forall>l \<in> set (job_logs (sys_db s)). storable (JStr (log_message l)) \<and>
      (\<forall>m. log_metadata l = Some m \<longrightarrow> storable m))"
proof -
  have ok: "db_ok (sys_db s)" using reachable_ok [OF run_of_reachable [OF assms]] by simp
  have all: "all_storable s" by (rule genuine_run_storable [OF assms])
  have "storable_row j" if "j \<in> set (jobs (sys_db s))" for j
    using all get_row_unique [OF db_ok_distinct [OF ok] that] by (auto simp: all_storable_def)
  moreover have "storable_log l" if "l \<in> set (job_logs (sys_db s))" for l
    using all that by (simp add: all_storable_def list_all_iff)
  then have "storable (JStr (log_message l)) \<and> (\<forall>m. log_metadata l = Some m \<longrightarrow> storable m)"
    if "l \<in> set (job_logs (sys_db s))" for l using storable_logD that by blast
  ultimately show ?thesis using storable_rowD by blast
qed

definition named_report :: JobCreate where
  "named_report = \<lparr>jc_job_type = Report, jc_payload = [(''name'', JStr ''q1'')], jc_priority = 0, jc_scheduled_at = None\<rparr>"

theorem stored_values_storable_witness:
  "\<exists>evs s j. run_of default_settings (genuine default_settings) evs s \<and> get_row 1 (jobs (sys_db s)) = Some j \<and>
     payload j = [(''name'', JStr ''q1'')] \<and> storable (JObj (payload j))"
proof -
  let ?S = default_settings and ?ev = "Submit 1 50 named_report None"
  have i: "db_ok (sys_db initial)" "get_row 1 (jobs (sys_db initial)) = None"
    by (simp add: initial_def, simp add: initial_def empty_db_def get_row_def)
  then have "can_insert ?S 1 named_report None (sys_db initial)"
    by (simp add: can_insert_def named_report_def submit_lookup_def)
  with i have row: "get_row 1 (jobs (sys_db (step ?S ?ev initial))) = Some (new_job ?S 1 50 named_report None)"
    by (simp add: step_row fresh_row_def)
  have "run_of ?S (genuine ?S) ([] @ [?ev]) (step ?S ?ev initial)"
    by (intro run_of.intros) (simp add: genuine_def payload_shape_def named_report_def)
  with row stored_values_storable [OF this] get_row_Some [OF row] show ?thesis
    by (intro exI [of _ "[] @ [?ev]"] exI [of _ "step ?S ?ev initial"] exI conjI) (auto simp: new_job_def named_report_def Let_def)
qed

end
