(* ===== verification/Coherence.thy ===== *)
theory Coherence
  imports Orderly
begin

text \<open>
  The columns of a row fit its status in every strict run.  A commit of the ORM writes only the
  columns in which the object differs from what was loaded, so this needs to know that nobody has
  changed the row under the worker: its object is the row, but for the lease, which the heartbeat
  renews, and the idempotency key, which the cleanup clears.
\<close>

section \<open>Rows and objects\<close>

definition coherent :: "job \<Rightarrow> bool" where
  "coherent j \<longleftrightarrow>
     (result j \<noteq> None \<longleftrightarrow> status j = Completed) \<and>
     (completed_at j \<noteq> None \<longleftrightarrow> status j \<in> {Completed, Failed}) \<and>
     (leased_until j \<noteq> None \<longleftrightarrow> status j = Processing) \<and>
     (worker_id j \<noteq> None \<longrightarrow> status j \<in> {Processing, Completed}) \<and>
     (status j \<in> {Processing, Completed, Failed} \<longrightarrow> started_at j \<noteq> None \<and> 0 < attempt_count j) \<and>
     (status j \<in> {Completed, Failed} \<longrightarrow> next_run_at j = None) \<and>
     (status j = Completed \<longrightarrow> progress_pct j = 100 \<and> error_message j = None) \<and>
     (status j = Failed \<longrightarrow> error_message j \<noteq> None) \<and>
     (status j = Scheduled \<longrightarrow> scheduled_at j \<noteq> None)"

text \<open>\<open>mirrors l j\<close>: the object \<open>l\<close> of a worker shows the row \<open>j\<close> but for the lease and the key.\<close>

definition mirrors :: "job \<Rightarrow> job \<Rightarrow> bool" where
  "mirrors l j \<longleftrightarrow> j = l\<lparr>leased_until := leased_until j, idempotency_key := idempotency_key j\<rparr>"

definition mirrored :: "system \<Rightarrow> bool" where
  "mirrored s \<longleftrightarrow> (\<forall>w l. running s w = Some l \<longrightarrow>
     (\<exists>j. get_row (job_id l) (jobs (sys_db s)) = Some j \<and> mirrors l j))"

lemma mirroredD:
  assumes "mirrored s" "running s w = Some l"
  obtains j where "get_row (job_id l) (jobs (sys_db s)) = Some j" "mirrors l j"
  using assms unfolding mirrored_def by blast

definition all_coherent :: "system \<Rightarrow> bool" where
  "all_coherent s \<longleftrightarrow> (\<forall>k j. get_row k (jobs (sys_db s)) = Some j \<longrightarrow> coherent j) \<and>
     (\<forall>l \<in> set (cancelling s) \<union> set (retrying s). coherent l)"

lemma mirrors_refl: "mirrors l l"
  by (simp add: mirrors_def)

lemma mirrorsE:
  assumes "mirrors l j"
  obtains t k where "j = l\<lparr>leased_until := t, idempotency_key := k\<rparr>"
  using assms unfolding mirrors_def by (rule that)

lemma mirrorsI: "j = l\<lparr>leased_until := t, idempotency_key := k\<rparr> \<Longrightarrow> mirrors l j"
  by (simp add: mirrors_def)

lemma mirrors_set: "mirrors l j \<Longrightarrow> mirrors l (renew_set t j)" "mirrors l j \<Longrightarrow> mirrors l (cleanup_set j)"
  by (erule mirrorsE, simp add: mirrors_def renew_set_def cleanup_set_def)+

text \<open>What is written is what the worker computed.\<close>

lemma orm_row_mirrors:
  assumes "mirrors l j" "identity new = identity l" "error_details new = error_details l"
  shows "orm_row l new j =
    new\<lparr>leased_until := merge_col leased_until l new j, idempotency_key := merge_col idempotency_key l new j\<rparr>"
proof -
  obtain t k where j: "j = l\<lparr>leased_until := t, idempotency_key := k\<rparr>" by (rule mirrorsE [OF assms(1)])
  show ?thesis
    using assms(2,3) by (intro job.equality) (simp_all add: j orm_row_def merge_col_def identity_def)
qed

lemma progress_mirrors:
  assumes "mirrors l j"
  shows "mirrors (progress_values p l) (orm_row l (progress_values p l) j)"
  by (rule mirrorsI, rule orm_row_mirrors [OF assms identity_kept(6)]) (simp add: progress_values_def)

lemma finish_row:
  assumes "mirrors l j" "leased_until l \<noteq> None"
  shows "orm_row l (final_row S now out l) j = (final_row S now out l)\<lparr>idempotency_key := idempotency_key j\<rparr>"
proof -
  have new: "error_details (final_row S now out l) = error_details l" "idempotency_key (final_row S now out l) = idempotency_key l"
    "leased_until (final_row S now out l) = None"
    by (simp_all add: final_row_def complete_values_def failure_values_def Let_def split: run_outcome.split)
  then show ?thesis
    using orm_row_mirrors [OF assms(1) identity_kept(7), of S now out] assms(2) by (simp add: merge_col_def)
qed

lemma final_row_coherent:
  assumes "coherent j" "status j = Processing"
  shows "coherent (final_row S now out j)"
  using assms by (auto simp: coherent_def row_simps final_row_def complete_values_def failure_values_def Let_def
      split: run_outcome.split)

lemmas column_defs = claim_set_def renew_set_def reap_set_def promote_set_def progress_values_def cancel_values_def
  retry_values_def orm_row_def merge_col_def

lemma claim_coherent: "coherent j \<Longrightarrow> status j = Pending \<Longrightarrow> 0 \<le> attempt_count j \<Longrightarrow> coherent (claim_set w t u j)"
  by (simp add: coherent_def column_defs)

lemma coherent_idle:
  "coherent j \<Longrightarrow> status j \<noteq> Processing \<Longrightarrow> status j \<noteq> Completed \<Longrightarrow>
    worker_id j = None \<and> leased_until j = None \<and> result j = None"
  "coherent j \<Longrightarrow> status j \<noteq> Completed \<Longrightarrow> status j \<noteq> Failed \<Longrightarrow> completed_at j = None"
  "coherent j \<Longrightarrow> status j = Failed \<Longrightarrow> \<exists>t. completed_at j = Some t"
  by (simp_all add: coherent_def)

lemma cancel_coherent:
  assumes "coherent j" "coherent l" "status j = status l" "status l = Pending \<or> status l = Scheduled"
  shows "coherent (orm_row l (cancel_values l) j)"
proof -
  let ?r = "orm_row l (cancel_values l) j"
  have l: "worker_id l = None" "leased_until l = None" "status l \<noteq> Cancelled"
    and j: "worker_id j = None" "leased_until j = None" "result j = None" "completed_at j = None"
    using assms coherent_idle(1,2) [of j] coherent_idle(1) [of l] by (elim disjE; simp)+
  have "status ?r = Cancelled" "worker_id ?r = worker_id j" "leased_until ?r = leased_until j"
    "result ?r = result j" "completed_at ?r = completed_at j"
    using l by (simp_all add: column_defs)
  with j show ?thesis by (simp add: coherent_def)
qed

lemma retry_coherent:
  assumes "coherent j" "coherent l" "status j = Failed" "status l = Failed"
  shows "coherent (orm_row l (retry_values now l) j)"
proof -
  let ?r = "orm_row l (retry_values now l) j"
  have l: "worker_id l = None" "leased_until l = None" "completed_at l \<noteq> None"
    and j: "worker_id j = None" "leased_until j = None" "result j = None"
    using assms coherent_idle(1) [of j] coherent_idle(1,3) [of l] by simp_all
  have "status ?r = Pending" "worker_id ?r = worker_id j" "leased_until ?r = leased_until j"
    "result ?r = result j" "completed_at ?r = None"
    using l assms(4) by (auto simp: column_defs)
  with j show ?thesis by (simp add: coherent_def)
qed

lemma coherent_key: "coherent (j\<lparr>idempotency_key := k\<rparr>) = coherent j"
  by (simp add: coherent_def)

section \<open>A row in the hands of its worker\<close>

lemma strict_run_ok:
  assumes "run_of S strict evs s"
  shows "db_ok (sys_db s)" "snapshots_ok s" "holders_ok s" "loose_rows_ok s"
  using orderly_run_ok [OF strict_run_orderly [OF assms]] by auto

text \<open>What an event of someone else does to a row in progress.\<close>

lemma row_effect_mirrors:
  assumes run: "run_of S strict evs s" and st: "strict s ev" and held: "running s w = Some l"
    and row: "get_row (job_id l) (jobs (sys_db s)) = Some j" and m: "mirrors l j"
    and other: "\<And>now out. ev \<noteq> FinishBy w now out" "\<And>pct. ev \<noteq> ProgressBy w pct"
  shows "mirrors l (row_effect S s ev j)"
proof -
  note ok = strict_run_ok [OF run]
  have p: "status j = Processing" by (rule strict_run_processing [OF run held row])
  have id: "job_id j = job_id l" using get_row_Some [OF row] by simp
  have mine: "w' = w" if "running s w' = Some l'" "job_id l' = job_id j" for w' l'
    using one_holder [OF ok(3) that(1) held] that(2) id by simp
  show ?thesis
  proof (cases ev)
    case (Reap i t)
    with st held row id have "\<not> reap_guard i t j" by (auto simp: strict_def orderly_def reap_guard_def)
    with Reap m show ?thesis by simp
  next
    case (CancelWrite c)
    with st row id p snapshots_okD(2) [OF ok(2), of c] show ?thesis
      using m by (auto simp: strict_def cancel_snapshot_def)
  next
    case (RetryWrite c now)
    with st row id p have "job_id j \<noteq> job_id c" by (auto simp: strict_def orderly_def)
    with RetryWrite m show ?thesis by simp
  next
    case (ProgressBy w' pct)
    then have "w' \<noteq> w" using other(2) by blast
    then have "running s w' = Some l' \<Longrightarrow> job_id l' \<noteq> job_id j" for l' using mine by blast
    with ProgressBy m show ?thesis by (auto split: option.split)
  next
    case (FinishBy w' now out)
    then have "w' \<noteq> w" using other(1) by blast
    then have "running s w' = Some l' \<Longrightarrow> job_id l' \<noteq> job_id j" for l' using mine by blast
    with FinishBy m show ?thesis by (auto split: option.split)
  next
    case (Promote i t)
    with p m show ?thesis by (simp add: promote_guard_def due_def)
  qed (use p m mirrors_set in \<open>simp_all add: claim_guard_def\<close>)
qed

lemma step_mirrored:
  assumes run: "run_of S strict evs s" and st: "strict s ev" and mir: "mirrored s"
  shows "mirrored (step S ev s)"
  unfolding mirrored_def
proof (intro allI impI)
  fix w l'
  assume run': "running (step S ev s) w = Some l'"
  note ok = strict_run_ok [OF run]
  show "\<exists>j. get_row (job_id l') (jobs (sys_db (step S ev s))) = Some j \<and> mirrors l' j"
  proof (cases "running s w")
    case None
    with run' obtain i now t where ev: "ev = ClaimBy w i now t"
      and c: "fst (claim_job now t i w (worker_lease_seconds S) (sys_db s)) = Some l'"
      by (auto simp: step_running split: event.splits if_splits)
    then obtain d where d: "claim_job now t i w (worker_lease_seconds S) (sys_db s) = (Some l', d)"
      by (cases "claim_job now t i w (worker_lease_seconds S) (sys_db s)") simp
    from claim_snapshot [OF ok(1) this] ev None d show ?thesis by (simp add: step.simps mirrors_refl)
  next
    case (Some l)
    obtain j where j: "get_row (job_id l) (jobs (sys_db s)) = Some j" "mirrors l j"
      by (rule mirroredD [OF mir Some])
    have id: "job_id j = job_id l" using get_row_Some [OF j(1)] by simp
    have row': "get_row (job_id l) (jobs (sys_db (step S ev s))) = Some (row_effect S s ev j)"
      by (rule step_row_kept [OF ok(1) j(1)])
    show ?thesis
    proof (cases "\<exists>pct. ev = ProgressBy w pct")
      case True
      then obtain pct where ev: "ev = ProgressBy w pct" by blast
      with run' Some have "l' = progress_values pct l" by (simp add: step_running)
      with row' ev Some id progress_mirrors [OF j(2)] show ?thesis by (simp add: row_simps)
    next
      case False
      have nf: "ev \<noteq> FinishBy w now out" for now out using run' Some by (auto simp: step_running)
      have "l' = l" using run' Some False by (auto simp: step_running split: event.splits if_splits)
      with row' row_effect_mirrors [OF run st Some j nf] False show ?thesis by auto
    qed
  qed
qed

section \<open>The invariant of strict runs\<close>

lemma row_effect_coherent:
  assumes run: "run_of S strict evs s" and st: "strict s ev" and mir: "mirrored s" and all: "all_coherent s"
    and row: "get_row k (jobs (sys_db s)) = Some j"
  shows "coherent (row_effect S s ev j)"
proof -
  note ok = strict_run_ok [OF run]
  have c: "coherent j" using all row unfolding all_coherent_def by blast
  have id: "job_id j = k" using get_row_Some [OF row] by simp
  have held: "mirrors l j \<and> status j = Processing \<and> worker_snapshot w l"
    if l: "running s w = Some l" "job_id l = k" for w l
  proof -
    obtain j' where "get_row (job_id l) (jobs (sys_db s)) = Some j'" "mirrors l j'"
      by (rule mirroredD [OF mir l(1)])
    with row l strict_run_processing [OF run l(1)] snapshots_okD(1) [OF ok(2) l(1)] show ?thesis by simp
  qed
  show ?thesis
  proof (cases ev)
    case (ClaimBy w i now t)
    have "0 \<le> attempt_count j" using db_ok_row [OF ok(1) row] by (simp add: row_ok_def)
    with ClaimBy c claim_coherent show ?thesis by (simp add: claim_guard_def)
  next
    case (ProgressBy w pct)
    have "coherent (orm_row l (progress_values pct l) j)" if l: "running s w = Some l" "job_id l = k" for l
    proof -
      have "status j = Processing" using held [OF l] by simp
      with c show ?thesis by (simp add: coherent_def column_defs)
    qed
    with ProgressBy c id show ?thesis by (auto split: option.split)
  next
    case (FinishBy w now out)
    have "coherent (orm_row l (final_row S now out l) j)" if l: "running s w = Some l" "job_id l = k" for l
    proof -
      have m: "mirrors l j" and w: "status l = Processing" "leased_until l \<noteq> None"
        using held [OF l] by (auto simp: worker_snapshot_def)
      moreover from m c w held [OF l] have "coherent l" by (elim mirrorsE) (simp add: coherent_def)
      ultimately show ?thesis by (simp add: finish_row coherent_key final_row_coherent)
    qed
    with FinishBy c id show ?thesis by (auto split: option.split)
  next
    case (RenewBy w i now)
    with c show ?thesis by (auto simp: coherent_def column_defs renew_guard_def)
  next
    case (Reap i t)
    with c show ?thesis by (auto simp: coherent_def column_defs reap_guard_def expired_def)
  next
    case (Promote i t)
    with c show ?thesis by (auto simp: coherent_def column_defs promote_guard_def due_def)
  next
    case (Cleanup t)
    with c show ?thesis by (simp add: cleanup_set_def coherent_key)
  next
    case (CancelWrite l)
    show ?thesis
    proof (cases "l \<in> set (cancelling s) \<and> job_id j = job_id l")
      case True
      then have "coherent l" "status j = status l" "cancel_snapshot l"
        using all st CancelWrite row id snapshots_okD(2) [OF ok(2), of l] by (auto simp: all_coherent_def strict_def)
      with CancelWrite True c cancel_coherent show ?thesis by (simp add: cancel_snapshot_def)
    qed (use CancelWrite c in auto)
  next
    case (RetryWrite l now)
    show ?thesis
    proof (cases "l \<in> set (retrying s) \<and> job_id j = job_id l")
      case True
      then have "coherent l" "status j = Failed" "status l = Failed"
        using all st RetryWrite row id snapshots_okD(3) [OF ok(2), of l]
        by (auto simp: all_coherent_def strict_def orderly_def retry_snapshot_def)
      with RetryWrite True c retry_coherent show ?thesis by simp
    qed (use RetryWrite c in auto)
  qed (use c in simp_all)
qed

lemma step_requests:
  "l \<in> set (cancelling (step S ev s)) \<union> set (retrying (step S ev s)) \<Longrightarrow>
    l \<in> set (cancelling s) \<union> set (retrying s) \<or> (\<exists>i. get_row i (jobs (sys_db s)) = Some l)"
  by (cases ev)
    (auto simp: step.simps cancel_check_Inr retry_check_Inr get_job_def report_progress_pair
      split: sum.splits option.splits prod.splits if_splits dest: notin_set_remove1)

lemma step_all_coherent:
  assumes run: "run_of S strict evs s" and st: "strict s ev" and mir: "mirrored s" and all: "all_coherent s"
  shows "all_coherent (step S ev s)"
proof -
  have "coherent j'" if "get_row k (jobs (sys_db (step S ev s))) = Some j'" for k j'
    using strict_run_ok(1) [OF run] that
  proof (cases rule: step_row_cases)
    case (old j)
    with row_effect_coherent [OF run st mir all] show ?thesis by simp
  next
    case (new i now data key)
    then show ?thesis by (auto simp: coherent_def new_job_def Let_def)
  qed
  then show ?thesis using all step_requests unfolding all_coherent_def by blast
qed

lemma strict_run_coherent: "run_of S strict evs s \<Longrightarrow> mirrored s \<and> all_coherent s"
proof (induction rule: run_of.induct)
  case start
  then show ?case by (simp add: mirrored_def all_coherent_def initial_def empty_db_def get_row_def)
next
  case (next_event evs s ev)
  then show ?case using step_mirrored step_all_coherent by blast
qed

section \<open>Properties\<close>

text \<open>
  C8. Invariant: in a strict run the columns of every row fit its status, whatever crashes,
  progress reports, heartbeats, retries and cleanups interleave.  A row has a result exactly when it is
  completed (then with progress 100 and no error), a completion time exactly when it is completed or
  failed, a lease exactly while it is in processing, an error message when it has failed, and a
  started attempt when it is in processing or done.
\<close>

theorem strict_rows_coherent:
  assumes "run_of S strict evs s" and "get_row k (jobs (sys_db s)) = Some j"
  shows "(result j \<noteq> None \<longleftrightarrow> status j = Completed) \<and>
    (completed_at j \<noteq> None \<longleftrightarrow> status j \<in> {Completed, Failed}) \<and>
    (leased_until j \<noteq> None \<longleftrightarrow> status j = Processing) \<and>
    (worker_id j \<noteq> None \<longrightarrow> status j \<in> {Processing, Completed}) \<and>
    (status j \<in> {Processing, Completed, Failed} \<longrightarrow> started_at j \<noteq> None \<and> 0 < attempt_count j) \<and>
    (status j \<in> {Completed, Failed} \<longrightarrow> next_run_at j = None) \<and>
    (status j = Completed \<longrightarrow> progress_pct j = 100 \<and> error_message j = None) \<and>
    (status j = Failed \<longrightarrow> error_message j \<noteq> None) \<and>
    (status j = Scheduled \<longrightarrow> scheduled_at j \<noteq> None)"
proof -
  have "coherent j" using strict_run_coherent [OF assms(1)] assms(2) unfolding all_coherent_def by blast
  then show ?thesis unfolding coherent_def .
qed

definition completed_example :: system where
  "completed_example = step default_settings (FinishBy ''w1'' 200 (Returned [])) claimed"

theorem strict_rows_coherent_witness:
  "\<exists>j. get_row 1 (jobs (sys_db completed_example)) = Some j \<and> status j = Completed \<and> result j \<noteq> None \<and> leased_until j = None"
proof -
  let ?l = "claim_set ''w1'' (100 + seconds 60) 100 (new_job default_settings 1 50 example_data None)"
  let ?ev = "FinishBy ''w1'' 200 (Returned [])"
  have run: "run_of default_settings strict (example_run @ [?ev]) completed_example"
    unfolding completed_example_def using claimed_row(1) by (rule run_of.next_event) (simp add: strict_def orderly_def)
  have "get_row 1 (jobs (sys_db completed_example)) = Some (final_row default_settings 200 (Returned []) ?l)"
    using step_row_kept [OF strict_run_ok(1) [OF claimed_row(1)] claimed_row(2), of default_settings ?ev]
    unfolding completed_example_def
    by (simp only: row_effect.simps claimed_row(3) option.case if_True simp_thms orm_row_same [OF finalizing.new_id])
  with strict_rows_coherent [OF run this] show ?thesis by (simp add: final_row_def row_simps)
qed

text \<open>
  C9. No lost update: when a worker ends an attempt in a strict run, its row becomes the object it
  computed, column for column; only the idempotency key, which the cleanup may have cleared, is the row's.
\<close>

theorem strict_finish_writes_object:
  assumes "run_of S strict evs s" and "running s w = Some l"
  shows "\<exists>j. get_row (job_id l) (jobs (sys_db s)) = Some j \<and>
    get_row (job_id l) (jobs (sys_db (step S (FinishBy w now out) s))) =
      Some ((final_row S now out l)\<lparr>idempotency_key := idempotency_key j\<rparr>)"
proof -
  note ok = strict_run_ok [OF assms(1)]
  obtain j where j: "get_row (job_id l) (jobs (sys_db s)) = Some j" "mirrors l j"
    using strict_run_coherent [OF assms(1)] mirroredD [OF _ assms(2)] by blast
  moreover have "job_id j = job_id l" using get_row_Some [OF j(1)] by simp
  moreover have "leased_until l \<noteq> None" using snapshots_okD(1) [OF ok(2) assms(2)] by (simp add: worker_snapshot_def)
  ultimately show ?thesis
    using step_row_kept [OF ok(1) j(1), of S "FinishBy w now out"] assms(2) finish_row by simp
qed

theorem strict_finish_writes_object_witness:
  "\<exists>j. get_row 1 (jobs (sys_db completed_example)) = Some j \<and> status j = Completed \<and> progress_pct j = 100"
  using strict_finish_writes_object [OF claimed_row(1) claimed_row(3), of 200 "Returned []"]
  by (auto simp: completed_example_def final_row_def row_simps)

end
