(* ===== verification/Stale_Index.thy ===== *)
theory Stale_Index
  imports Cluster
begin

text \<open>
  What \<open>Cluster\<close> does not promise: an entry of Redis names a row, but its row may have moved on.  For
  the pending and the scheduled set that is harmless, since a claim and a promotion check the row;
  the dead-letter list has no such check.
\<close>

lemma retry_keeps_other_commands:
  assumes "db_ok (sys_db (core c))" "rows_of c i = Some j" "status j = Failed"
    and "c1 = act S Z (Commit (RetryRead i)) c" and "c2 = act S Z (Commit (RetryWrite j now)) c1"
  shows "rows_of c2 i = Some (retry_values now j)" "todo c2 = todo c @ [RemoveDeadLetter i]" "store c2 = store c"
proof -
  have id: "job_id j = i" using get_row_Some [OF assms(2)] by simp
  have "retry_check i (Some j) = Inr j" using assms(3) by (simp add: retry_check_Inr)
  then have c1: "core c1 = (core c)\<lparr>retrying := j # retrying (core c)\<rparr>" "todo c1 = todo c" "store c1 = store c"
    using assms(2) by (simp_all add: assms(4) step.simps get_job_def)
  then show "todo c2 = todo c @ [RemoveDeadLetter i]" "store c2 = store c" by (simp_all add: assms(5) id)
  have "db_ok (sys_db (core c1))" "get_row i (jobs (sys_db (core c1))) = Some j" using c1 assms(1,2) by simp_all
  from step_row_kept [OF this, of S "RetryWrite j now"] show "rows_of c2 i = Some (retry_values now j)"
    by (simp add: assms(5) c1 id orm_row_same row_simps)
qed

text \<open>
  Finding: a worker has committed the final failure of a job but not yet sent its \<^verbatim>\<open>LPUSH\<close>; a manual
  retry runs in between.  Its \<^verbatim>\<open>LREM\<close> finds nothing, the \<^verbatim>\<open>LPUSH\<close> follows, and the job, pending
  again, is listed among the dead letters.
\<close>

theorem late_dead_letter_stays:
  assumes "reachable S (core c)" and "rows_of c i = Some j" and "status j = Failed" and "DeadLetter i \<in> set (todo c)"
    and "c' = execute_all S Z [Commit (RetryRead i), Commit (RetryWrite j now), Send (RemoveDeadLetter i), Send (DeadLetter i)] c"
  shows "rows_of c' i = Some (retry_values now j) \<and> status (retry_values now j) = Pending \<and>
    i \<in> set (jobs_dead_letter (store c'))"
proof -
  define c2 where "c2 = act S Z (Commit (RetryWrite j now)) (act S Z (Commit (RetryRead i)) c)"
  have ok: "db_ok (sys_db (core c))" using reachable_ok [OF assms(1)] by simp
  note c2 = retry_keeps_other_commands [OF ok assms(2,3) refl c2_def]
  define c3 where "c3 = act S Z (Send (RemoveDeadLetter i)) c2"
  have c3: "core c3 = core c2" "DeadLetter i \<in> set (todo c3)"
    using c2(2) assms(4) by (simp_all add: c3_def in_set_remove1)
  have c': "c' = act S Z (Send (DeadLetter i)) c3" by (simp add: assms(5) c3_def c2_def del: act.simps)
  then have "core c' = core c2" "i \<in> set (jobs_dead_letter (store c'))"
    using c3 by (simp_all add: dead_letter_def DEAD_LETTER_MAX_LEN_def)
  then show ?thesis using c2(1) by (simp add: row_simps)
qed

end
