(* ===== verification/Lifecycle.thy ===== *)
theory Lifecycle
  imports Prelude
begin

text \<open>
  \<^verbatim>\<open>app/worker/lifecycle.py\<close> and the shape all loops of the workers share: do the work, then wait
  for the poll interval or for the shutdown signal.  Time is a rational number of seconds;
  \<open>stop\<close> is the moment at which the shutdown event is set, \<open>None\<close> if it never is (it is never
  cleared).
\<close>

definition is_set :: "rat option \<Rightarrow> rat \<Rightarrow> bool" where
  "is_set stop now = (case stop of None \<Rightarrow> False | Some s \<Rightarrow> s \<le> now)"

text \<open>What \<^verbatim>\<open>wait_or_stop\<close> returns, and when.\<close>

definition wait_or_stop :: "rat option \<Rightarrow> rat \<Rightarrow> rat \<Rightarrow> bool \<times> rat" where
  "wait_or_stop stop now timeout =
     (if is_set stop now then (True, now)
      else if timeout \<le> 0 then (is_set stop now, now)
      else case stop of
             None \<Rightarrow> (False, now + timeout)
           | Some s \<Rightarrow> if s \<le> now + timeout then (True, s) else (False, now + timeout))"

text \<open>
  How far a coroutine has come: still running when the fuel ends, or ended, after how many rounds,
  when, and with which exception, if any.
\<close>

datatype 'e task = Running rat | Ended nat rat "'e option"

text \<open>
  The loop: the \<open>k\<close>-th round takes \<open>fst (body k)\<close> and raises \<open>snd (body k)\<close>, if any, which ends the
  loop; otherwise it waits for \<open>wait k\<close>.
\<close>

fun poll_loop ::
    "nat \<Rightarrow> (nat \<Rightarrow> rat \<times> 'e option) \<Rightarrow> (nat \<Rightarrow> rat) \<Rightarrow> rat option \<Rightarrow> nat \<Rightarrow> rat \<Rightarrow> 'e task" where
  "poll_loop 0 body wait stop k now = Running now"
| "poll_loop (Suc fuel) body wait stop k now =
     (if is_set stop now then Ended k now None
      else case body k of
             (d, Some e) \<Rightarrow> Ended (Suc k) (now + d) (Some e)
           | (d, None) \<Rightarrow> poll_loop fuel body wait stop (Suc k) (snd (wait_or_stop stop (now + d) (wait k))))"

section \<open>Lemmas\<close>

lemma is_set_simps [simp]: "is_set None now = False" "is_set (Some s) now = (s \<le> now)"
  by (simp_all add: is_set_def)

lemma wait_or_stop_result:
  "0 \<le> timeout \<Longrightarrow> fst (wait_or_stop stop now timeout) \<longleftrightarrow> is_set stop (now + timeout)"
  by (auto simp: wait_or_stop_def split: option.split)

lemma wait_or_stop_end:
  assumes "0 \<le> timeout"
  shows "s \<le> snd (wait_or_stop (Some s) now timeout) \<and> snd (wait_or_stop (Some s) now timeout) \<le> max s now \<or>
    snd (wait_or_stop (Some s) now timeout) = now + timeout \<and> now + timeout < s"
  using assms by (auto simp: wait_or_stop_def)

lemma wait_in_full: "0 \<le> timeout \<Longrightarrow> \<not> is_set stop (now + timeout) \<Longrightarrow> snd (wait_or_stop stop now timeout) = now + timeout"
  by (auto simp: wait_or_stop_def split: option.split)

text \<open>More fuel changes nothing once the loop has ended.\<close>

lemma poll_loop_fuel:
  "poll_loop fuel body wait stop k now = Ended n t e \<Longrightarrow> fuel \<le> fuel' \<Longrightarrow> poll_loop fuel' body wait stop k now = Ended n t e"
proof (induction fuel arbitrary: fuel' k now)
  case (Suc fuel)
  then obtain n where "fuel' = Suc n" "fuel \<le> n" by (metis Suc_le_D Suc_le_mono)
  with Suc show ?case by (auto split: if_splits prod.splits option.splits)
qed simp

text \<open>A loop whose rounds never raise: it ends only after the signal, and then soon.\<close>

lemma poll_loop_stops:
  assumes "\<And>k. snd (body k) = None" "\<And>k. 0 \<le> fst (body k) \<and> fst (body k) \<le> D" "\<And>k. 0 \<le> wait k"
    and "\<And>k. m \<le> fst (body k) + wait k" "0 < m" "s \<le> now + of_nat n * m" "now \<le> s + D"
  shows "\<exists>rounds t. poll_loop (n + 2) body wait (Some s) k now = Ended rounds t None \<and> s \<le> t \<and> t \<le> s + D"
  using assms(6,7)
proof (induction n arbitrary: k now)
  case 0
  then show ?case by simp
next
  case (Suc n)
  show ?case
  proof (cases "s \<le> now")
    case True
    with Suc.prems show ?thesis by simp
  next
    case False
    let ?d = "fst (body k)"
    let ?w = "snd (wait_or_stop (Some s) (now + ?d) (wait k))"
    have bound: "now + ?d \<le> s + D" "0 \<le> D" using False assms(2) [of k] by linarith+
    have "s \<le> ?w + of_nat n * m \<and> ?w \<le> s + D"
      using wait_or_stop_end [OF assms(3) [of k], of s "now + ?d"]
    proof
      assume *: "s \<le> ?w \<and> ?w \<le> max s (now + ?d)"
      have "0 \<le> of_nat n * m" using assms(5) by simp
      with * bound show ?thesis by (auto simp: max_def split: if_splits)
    next
      assume "?w = now + ?d + wait k \<and> now + ?d + wait k < s"
      with Suc.prems(1) assms(4) [of k] bound show ?thesis by (simp add: distrib_right)
    qed
    then obtain rounds t where "poll_loop (n + 2) body wait (Some s) (Suc k) ?w = Ended rounds t None" "s \<le> t" "t \<le> s + D"
      using Suc.IH by blast
    with False assms(1) [of k] show ?thesis by (cases "body k") auto
  qed
qed

lemma poll_loop_ends:
  assumes "\<And>k. snd (body k) = None" "\<And>k. 0 \<le> fst (body k) \<and> fst (body k) \<le> D" "\<And>k. 0 \<le> wait k"
    and "\<And>k. m \<le> fst (body k) + wait k" "0 < m" "0 \<le> s"
  obtains fuel rounds t where "\<And>f. fuel \<le> f \<Longrightarrow> poll_loop f body wait (Some s) 0 0 = Ended rounds t None" "s \<le> t" "t \<le> s + D"
proof -
  obtain n :: nat where "s / m < of_nat n" using reals_Archimedean2 by blast
  then have "s \<le> 0 + of_nat n * m" using assms(5) by (simp add: pos_divide_less_eq)
  moreover have "0 \<le> s + D" using assms(2) [of 0] assms(6) by linarith
  ultimately obtain rounds t where "poll_loop (n + 2) body wait (Some s) 0 0 = Ended rounds t None" "s \<le> t" "t \<le> s + D"
    using poll_loop_stops [of body D wait m, OF assms(1-5)] by blast
  then show thesis using poll_loop_fuel by (intro that [of "n + 2"]) blast+
qed

text \<open>Without a signal it is never over, whatever the fuel; and fuel buys time.\<close>

lemma poll_loop_forever: "(\<And>k. snd (body k) = None) \<Longrightarrow> \<exists>t. poll_loop fuel body wait None k now = Running t"
proof (induction fuel arbitrary: k now)
  case (Suc fuel)
  from Suc.prems [of k] Suc.IH [OF Suc.prems] show ?case by (cases "body k") simp
qed simp

lemma poll_loop_running:
  assumes "\<And>k. 0 \<le> fst (body k)" "\<And>k. 0 \<le> wait k" "\<And>k. m \<le> fst (body k) + wait k" "0 < m"
  shows "poll_loop fuel body wait stop k now = Running t \<Longrightarrow> now + of_nat fuel * m \<le> t + m"
proof (induction fuel arbitrary: k now)
  case 0
  with assms(4) show ?case by simp
next
  case (Suc fuel)
  let ?d = "fst (body k)"
  let ?w = "snd (wait_or_stop stop (now + ?d) (wait k))"
  from Suc.prems have run: "poll_loop fuel body wait stop (Suc k) ?w = Running t"
    by (auto split: if_splits prod.splits option.splits)
  show ?case
  proof (cases "is_set stop ?w")
    case True
    with run have "fuel = 0" "t = ?w" by (cases fuel; simp)+
    moreover have "now \<le> ?w"
      using assms(1,2) [of k] by (auto simp: wait_or_stop_def split: option.split)
    ultimately show ?thesis by simp
  next
    case False
    then have "?w = now + ?d + wait k"
      using assms(2) [of k] by (auto simp: wait_or_stop_def split: option.splits if_splits)
    with Suc.IH [OF run] assms(3) [of k] show ?thesis by (simp add: distrib_right)
  qed
qed

text \<open>When the rounds start, as long as no signal comes.\<close>

primrec round_start :: "(nat \<Rightarrow> rat) \<Rightarrow> (nat \<Rightarrow> rat) \<Rightarrow> rat \<Rightarrow> nat \<Rightarrow> rat" where
  "round_start dur wait t0 0 = t0"
| "round_start dur wait t0 (Suc k) = round_start dur wait t0 k + dur k + wait k"

lemma round_start_mono:
  assumes "\<And>i. 0 \<le> dur i" "\<And>i. 0 \<le> wait i" "k \<le> n"
  shows "round_start dur wait t0 k \<le> round_start dur wait t0 n"
  using assms(3)
proof (induction rule: dec_induct)
  case (step n)
  with assms(1,2) [of n] show ?case by simp
qed simp

lemma poll_loop_time:
  assumes "\<And>i. 0 \<le> fst (body i)" "\<And>i. 0 \<le> wait i"
  shows "poll_loop fuel body wait stop k now = Ended n t e \<Longrightarrow> now \<le> t"
proof (induction fuel arbitrary: k now)
  case (Suc fuel)
  let ?w = "snd (wait_or_stop stop (now + fst (body k)) (wait k))"
  have "now \<le> ?w" using assms [of k] by (auto simp: wait_or_stop_def split: option.split)
  moreover from Suc.prems have "t = now \<or> t = now + fst (body k) \<or> poll_loop fuel body wait stop (Suc k) ?w = Ended n t e"
    by (cases "body k") (auto split: if_splits option.splits)
  ultimately show ?case using Suc.IH assms(1) [of k] by force
qed simp

text \<open>No round starts once the signal is there, and the round under way is finished.\<close>

lemma poll_loop_rounds:
  assumes "\<And>i. 0 \<le> fst (body i)" "\<And>i. 0 \<le> wait i"
    and "poll_loop fuel body wait (Some s) k (start k) = Ended n t e"
    and start: "start = round_start (\<lambda>i. fst (body i)) wait t0"
  shows "k \<le> n \<and> (\<forall>i. k \<le> i \<and> i < n \<longrightarrow> start i < s \<and> start i + fst (body i) \<le> t)"
  using assms(3)
proof (induction fuel arbitrary: k)
  case (Suc fuel)
  let ?d = "fst (body k)"
  let ?w = "snd (wait_or_stop (Some s) (start k + ?d) (wait k))"
  show ?case
  proof (cases "s \<le> start k \<or> snd (body k) \<noteq> None")
    case True
    with Suc.prems show ?thesis by (cases "body k") (auto split: if_splits option.splits simp: less_Suc_eq)
  next
    case False
    with Suc.prems have run: "poll_loop fuel body wait (Some s) (Suc k) ?w = Ended n t e"
      by (cases "body k") auto
    have here: "start k + ?d \<le> ?w"
      using assms(2) [of k] by (auto simp: wait_or_stop_def)
    show ?thesis
    proof (cases "s \<le> ?w")
      case True
      with run have "n = Suc k" "t = ?w" by (cases fuel; simp)+
      with False here show ?thesis by (auto simp: less_Suc_eq)
    next
      case no: False
      then have w: "?w = start (Suc k)"
        using assms(2) [of k] by (auto simp: start wait_or_stop_def split: if_splits)
      have IH: "Suc k \<le> n \<and> (\<forall>i. Suc k \<le> i \<and> i < n \<longrightarrow> start i < s \<and> start i + fst (body i) \<le> t)"
        using Suc.IH run unfolding w by blast
      have "start (Suc k) \<le> t" using poll_loop_time [OF assms(1,2) run] w by simp
      with here w False have k: "start k < s \<and> start k + ?d \<le> t" by simp
      show ?thesis
      proof (intro conjI allI impI, goal_cases)
        case 1
        with IH show ?case by simp
      next
        case (2 i)
        with k IH show ?case by (cases "i = k") auto
      next
        case (3 i)
        with k IH show ?case by (cases "i = k") auto
      qed
    qed
  qed
qed simp

lemma poll_loop_reaches:
  assumes "\<And>i. i < k \<Longrightarrow> snd (body i) = None" "\<And>i. 0 \<le> fst (body i)" "\<And>i. 0 \<le> wait i"
    and "\<And>i. i \<le> k \<Longrightarrow> \<not> is_set stop (round_start (\<lambda>i. fst (body i)) wait t0 i)"
  shows "poll_loop (k + fuel) body wait stop 0 t0 = poll_loop fuel body wait stop k (round_start (\<lambda>i. fst (body i)) wait t0 k)"
  using assms(1,4)
proof (induction k arbitrary: fuel)
  case (Suc k)
  let ?t = "round_start (\<lambda>i. fst (body i)) wait t0"
  have "poll_loop (Suc k + fuel) body wait stop 0 t0 = poll_loop (k + Suc fuel) body wait stop 0 t0"
    by (simp only: add_Suc_shift)
  also have "\<dots> = poll_loop (Suc fuel) body wait stop k (?t k)"
    using Suc.prems by (intro Suc.IH) simp_all
  also have "\<dots> = poll_loop fuel body wait stop (Suc k) (?t (Suc k))"
  proof -
    have "snd (wait_or_stop stop (?t k + fst (body k)) (wait k)) = ?t (Suc k)"
      using wait_in_full [OF assms(3) [of k], of stop "?t k + fst (body k)"] Suc.prems(2) [of "Suc k"] by simp
    then show ?thesis using Suc.prems(1) [of k] Suc.prems(2) [of k] by (cases "body k") simp
  qed
  finally show ?case .
qed simp

text \<open>Rounds follow each other closely: after any moment one starts within a round and a wait.\<close>

lemma round_start_unbounded:
  assumes "\<And>k. m \<le> dur k + wait k" "0 < m"
  shows "\<exists>k. t < round_start dur wait t0 k"
proof -
  have "t0 + of_nat k * m \<le> round_start dur wait t0 k" for k
  proof (induction k)
    case (Suc k)
    with assms(1) [of k] show ?case by (simp add: distrib_right)
  qed simp
  moreover obtain k :: nat where "(t - t0) / m < of_nat k" using reals_Archimedean2 by blast
  then have "t < t0 + of_nat k * m" using assms(2) by (simp add: pos_divide_less_eq)
  ultimately show ?thesis by (metis less_le_trans)
qed

lemma next_round:
  assumes "\<And>k. m \<le> dur k + wait k" "0 < m" "\<And>k. dur k \<le> D" "\<And>k. wait k \<le> W" "t0 \<le> t"
  obtains k where "t < round_start dur wait t0 k" "round_start dur wait t0 k \<le> t + D + W"
proof -
  define k where "k = (LEAST k. t < round_start dur wait t0 k)"
  have k: "t < round_start dur wait t0 k"
    unfolding k_def by (rule LeastI_ex [OF round_start_unbounded [OF assms(1,2)]])
  with assms(5) obtain n where n: "k = Suc n" by (cases k) auto
  then have "round_start dur wait t0 n \<le> t"
    using not_less_Least [of n "\<lambda>k. t < round_start dur wait t0 k"] unfolding k_def [symmetric] by simp
  with n assms(3,4) [of n] have "round_start dur wait t0 k \<le> t + D + W" by simp
  with k show thesis by (rule that)
qed

end
