(* ===== verification/Processes.thy ===== *)
theory Processes
  imports Lifecycle Scheduler
begin

text \<open>
  The entry points: \<^verbatim>\<open>app/worker/__main__.py\<close>, \<^verbatim>\<open>app/maintenance/__main__.py\<close>, \<^verbatim>\<open>app/main.py\<close>,
  with what they need of \<^verbatim>\<open>app/db/session.py\<close> and \<^verbatim>\<open>QueueClient.connect\<close>.  A process checks its
  two services, installs the signal handlers, runs its loops side by side with \<^verbatim>\<open>asyncio.gather\<close>
  and cleans up when they are over.  What happens inside a round is the matter of the other
  theories; here a round has a duration and may raise.  Time is counted in seconds from the start
  of the loops; a process does what it does before and after them at once.
\<close>

section \<open>The services\<close>

text \<open>What each call to PostgreSQL and Redis at start-up and shutdown raises, if anything.\<close>

record 'e services =
  select_1 :: "'e option"
  redis_ping :: "'e option"
  redis_aclose :: "'e option"
  engine_dispose :: "'e option"

definition check_db :: "'e services \<Rightarrow> ('e, unit) result" where
  "check_db B = (case select_1 B of Some e \<Rightarrow> Inl e | None \<Rightarrow> Inr ())"

definition dispose_engine :: "'e services \<Rightarrow> ('e, unit) result" where
  "dispose_engine B = (case engine_dispose B of Some e \<Rightarrow> Inl e | None \<Rightarrow> Inr ())"

text \<open>\<^verbatim>\<open>QueueClient.connect\<close> and \<^verbatim>\<open>close\<close>; a client is known by the URL it talks to.\<close>

definition connect :: "settings \<Rightarrow> 'e services \<Rightarrow> string option \<Rightarrow> ('e, string) result" where
  "connect S B url =
     (let target = (case url of None \<Rightarrow> redis_url S | Some u \<Rightarrow> if u = [] then redis_url S else u)
      in case redis_ping B of Some e \<Rightarrow> Inl e | None \<Rightarrow> Inr target)"

definition close_queue :: "'e services \<Rightarrow> ('e, unit) result" where
  "close_queue B = (case redis_aclose B of Some e \<Rightarrow> Inl e | None \<Rightarrow> Inr ())"

section \<open>The API process\<close>

text \<open>\<^verbatim>\<open>app.state\<close>: the queue client, once the start-up has set it.\<close>

type_synonym app_state = "string option"

definition api_startup :: "settings \<Rightarrow> 'e services \<Rightarrow> app_state \<Rightarrow> ('e, app_state) result" where
  "api_startup S B st =
     (case check_db B of Inl e \<Rightarrow> Inl e
      | Inr _ \<Rightarrow> (case connect S B None of Inl e \<Rightarrow> Inl e | Inr queue \<Rightarrow> Inr (Some queue)))"

definition api_shutdown :: "'e services \<Rightarrow> ('e, unit) result" where
  "api_shutdown B = (case close_queue B of Inl e \<Rightarrow> Inl e | Inr _ \<Rightarrow> dispose_engine B)"

text \<open>The client a request handler gets; \<open>None\<close> is the \<^verbatim>\<open>AttributeError\<close> before the start-up.\<close>

definition get_queue :: "app_state \<Rightarrow> string option" where
  "get_queue st = st"

section \<open>Signals and clean-up\<close>

datatype signal = SIGTERM | SIGINT

text \<open>What a process does to its surroundings; a notice carries the worker's id, if there is one.\<close>

datatype process_event =
    Notice string "string option"
  | Handles signal
  | Unhandles signal
  | Offline string
  | QueueClosed
  | EngineDisposed

definition make_worker_id :: "string \<Rightarrow> int \<Rightarrow> uuid \<Rightarrow> string" where
  "make_worker_id hostname pid u = hostname @ ''-'' @ py_str_int pid @ ''-'' @ take 8 (hex_fixed 32 (uint u))"

text \<open>The handler of both signals, on the stop event and the notices so far.\<close>

definition request_shutdown ::
    "string option \<Rightarrow> rat \<Rightarrow> rat option \<times> process_event list \<Rightarrow> rat option \<times> process_event list" where
  "request_shutdown w now = (\<lambda>(stop, out).
     if \<not> is_set stop now then (Some now, out @ [Notice ''shutdown_signal_received'' w]) else (stop, out))"

definition handle_signals :: "string option \<Rightarrow> rat list \<Rightarrow> rat option \<times> process_event list" where
  "handle_signals w signals = fold (request_shutdown w) signals (None, [])"

definition add_handlers :: "process_event list" where
  "add_handlers = map Handles [SIGTERM, SIGINT]"

text \<open>The \<^verbatim>\<open>finally\<close> block: what it does, and the exception it raises itself, if any.\<close>

definition clean_up :: "'e services \<Rightarrow> process_event \<Rightarrow> process_event list \<times> 'e option" where
  "clean_up B farewell =
     (let out = map Unhandles [SIGTERM, SIGINT] in
      case close_queue B of Inl e \<Rightarrow> (out, Some e)
      | Inr _ \<Rightarrow>
          (case dispose_engine B of Inl e \<Rightarrow> (out @ [QueueClosed], Some e)
           | Inr _ \<Rightarrow> (out @ [QueueClosed, EngineDisposed, farewell], None)))"

section \<open>Loops side by side\<close>

fun running :: "'e task \<Rightarrow> bool" where
  "running (Running t) = True"
| "running (Ended n t e) = False"

fun reached :: "'e task \<Rightarrow> rat" where
  "reached (Running t) = t"
| "reached (Ended n t e) = t"

fun failure :: "'e task \<Rightarrow> (rat \<times> 'e) option" where
  "failure (Ended n t (Some e)) = Some (t, e)"
| "failure _ = None"

fun first_failure :: "'e task list \<Rightarrow> (rat \<times> 'e) option" where
  "first_failure [] = None"
| "first_failure (x # xs) =
     (case (failure x, first_failure xs) of
        (Some a, Some b) \<Rightarrow> Some (if fst b < fst a then b else a)
      | (Some a, None) \<Rightarrow> Some a
      | (None, b) \<Rightarrow> b)"

text \<open>
  \<^verbatim>\<open>asyncio.gather\<close>: when it returns or raises, and what.  The first exception is raised at once and
  the other coroutines are left running.  \<open>None\<close>: not enough fuel to tell.
\<close>

definition gather :: "'e task list \<Rightarrow> (rat \<times> 'e option) option" where
  "gather tasks =
     (case first_failure tasks of
        Some (t, e) \<Rightarrow> if \<exists>x \<in> set tasks. running x \<and> reached x < t then None else Some (t, Some e)
      | None \<Rightarrow> if \<exists>x \<in> set tasks. running x then None else Some (Max (set (map reached tasks)), None))"

definition ended_by :: "rat \<Rightarrow> 'e task \<Rightarrow> bool" where
  "ended_by t task = (\<not> running task \<and> reached task \<le> t)"

section \<open>The worker process\<close>

text \<open>
  What the rounds do: the \<open>k\<close>-th round of the executor takes \<open>fst (executing R k)\<close>, raises
  \<open>snd (executing R k)\<close>, if any, and finds a job if \<open>processed R k\<close>; \<open>offlining R\<close> is what
  \<^verbatim>\<open>worker_offline\<close> raises.
\<close>

record 'e worker_rounds =
  executing :: "nat \<Rightarrow> rat \<times> 'e option"
  processed :: "nat \<Rightarrow> bool"
  beating :: "nat \<Rightarrow> rat \<times> 'e option"
  offlining :: "'e option"

definition executor_task :: "nat \<Rightarrow> settings \<Rightarrow> 'e worker_rounds \<Rightarrow> rat option \<Rightarrow> 'e task" where
  "executor_task fuel S R stop =
     poll_loop fuel (executing R) (\<lambda>k. if \<not> processed R k then executor_poll_interval_seconds S else 0) stop 0 0"

text \<open>The \<^verbatim>\<open>finally\<close> block of the heartbeat loop: an exception there replaces that of the loop.\<close>

fun go_offline :: "'e option \<Rightarrow> 'e task \<Rightarrow> 'e task" where
  "go_offline err (Running t) = Running t"
| "go_offline err (Ended n t e) = Ended n t (if err = None then e else err)"

definition heartbeat_task :: "nat \<Rightarrow> settings \<Rightarrow> 'e worker_rounds \<Rightarrow> rat option \<Rightarrow> 'e task" where
  "heartbeat_task fuel S R stop =
     go_offline (offlining R) (poll_loop fuel (beating R) (\<lambda>k. worker_heartbeat_interval_seconds S) stop 0 0)"

text \<open>
  \<^verbatim>\<open>run\<close> under \<^verbatim>\<open>asyncio.run\<close>: the events in order, the end of the loops and the exception the
  process ends with.  A heartbeat loop still running when \<^verbatim>\<open>gather\<close> raises is cancelled by
  \<^verbatim>\<open>asyncio.run\<close> at the very end, and its \<^verbatim>\<open>finally\<close> block takes the worker offline only then.
\<close>

definition worker_run ::
    "nat \<Rightarrow> settings \<Rightarrow> 'e services \<Rightarrow> string \<Rightarrow> rat list \<Rightarrow> 'e worker_rounds \<Rightarrow>
     (process_event list \<times> rat \<times> 'e option) option" where
  "worker_run fuel S B w signals R =
     (case check_db B of Inl e \<Rightarrow> Some ([], 0, Some e)
      | Inr _ \<Rightarrow>
     (case connect S B None of Inl e \<Rightarrow> Some ([], 0, Some e)
      | Inr queue \<Rightarrow>
          (let stop = fst (handle_signals (Some w) signals);
               heartbeat = heartbeat_task fuel S R stop
           in case gather [executor_task fuel S R stop, heartbeat] of None \<Rightarrow> None
              | Some (t, raised) \<Rightarrow>
                  (let received = snd (handle_signals (Some w) (filter (\<lambda>s. s \<le> t) signals));
                       (closing, failed) = clean_up B (Notice ''worker_shutdown'' (Some w));
                       gone = (if offlining R = None then [Offline w] else []);
                       off = ended_by t heartbeat
                   in Some ([Notice ''worker_connected'' (Some w)] @ add_handlers @ received @
                        (if off then gone else []) @ closing @ (if off then [] else gone),
                      t, if failed = None then raised else failed)))))"

section \<open>The maintenance process\<close>

record 'e maintenance_rounds =
  feeding :: "nat \<Rightarrow> rat \<times> 'e option"
  scheduling :: "nat \<Rightarrow> rat \<times> 'e option"
  next_due :: "nat \<Rightarrow> rat option \<times> rat"
  reaping :: "nat \<Rightarrow> rat \<times> 'e option"
  cleaning :: "nat \<Rightarrow> rat \<times> 'e option"

text \<open>The round of the cleanup loop: what the cleanup raises is logged and swallowed.\<close>

definition guarded :: "(nat \<Rightarrow> rat \<times> 'e option) \<Rightarrow> nat \<Rightarrow> rat \<times> 'e option" where
  "guarded body k = (case body k of (d, _) \<Rightarrow> (d, None))"

definition maintenance_tasks :: "nat \<Rightarrow> settings \<Rightarrow> 'e maintenance_rounds \<Rightarrow> rat option \<Rightarrow> 'e task list" where
  "maintenance_tasks fuel S R stop =
     [poll_loop fuel (feeding R) (\<lambda>k. scheduler_poll_interval_seconds S) stop 0 0,
      poll_loop fuel (scheduling R) (\<lambda>k. scheduler_sleep S (fst (next_due R k)) (snd (next_due R k))) stop 0 0,
      poll_loop fuel (reaping R) (\<lambda>k. reaper_poll_interval_seconds S) stop 0 0,
      poll_loop fuel (guarded (cleaning R)) (\<lambda>k. idempotency_cleanup_interval_seconds S) stop 0 0]"

definition maintenance_run ::
    "nat \<Rightarrow> settings \<Rightarrow> 'e services \<Rightarrow> rat list \<Rightarrow> 'e maintenance_rounds \<Rightarrow>
     (process_event list \<times> rat \<times> 'e option) option" where
  "maintenance_run fuel S B signals R =
     (case check_db B of Inl e \<Rightarrow> Some ([], 0, Some e)
      | Inr _ \<Rightarrow>
     (case connect S B None of Inl e \<Rightarrow> Some ([], 0, Some e)
      | Inr queue \<Rightarrow>
          (case gather (maintenance_tasks fuel S R (fst (handle_signals None signals))) of None \<Rightarrow> None
           | Some (t, raised) \<Rightarrow>
               (let received = snd (handle_signals None (filter (\<lambda>s. s \<le> t) signals));
                    (closing, failed) = clean_up B (Notice ''maintenance_shutdown'' None)
                in Some ([Notice ''maintenance_connected'' None] @ add_handlers @ received @ closing,
                   t, if failed = None then raised else failed)))))"

section \<open>Lemmas\<close>

lemma services_up [simp]:
  "select_1 B = None \<Longrightarrow> check_db B = Inr ()"
  "redis_ping B = None \<Longrightarrow> connect S B None = Inr (redis_url S)"
  by (simp_all add: check_db_def connect_def)

lemma clean_up_quiet:
  "redis_aclose B = None \<Longrightarrow> engine_dispose B = None \<Longrightarrow>
    clean_up B farewell = ([Unhandles SIGTERM, Unhandles SIGINT, QueueClosed, EngineDisposed, farewell], None)"
  by (simp add: clean_up_def close_queue_def dispose_engine_def Let_def)

text \<open>The first signal decides; the others find the event set.\<close>

lemma later_signals: "\<forall>t \<in> set signals. s \<le> t \<Longrightarrow> fold (request_shutdown w) signals (Some s, out) = (Some s, out)"
  by (induction signals) (simp_all add: request_shutdown_def)

lemma handle_signals_first:
  "sorted (s # rest) \<Longrightarrow> handle_signals w (s # rest) = (Some s, [Notice ''shutdown_signal_received'' w])"
  by (simp add: handle_signals_def request_shutdown_def later_signals)

lemma handle_signals_until:
  assumes "sorted (s # rest)" "s \<le> t"
  shows "handle_signals w (filter (\<lambda>x. x \<le> t) (s # rest)) = (Some s, [Notice ''shutdown_signal_received'' w])"
proof -
  have "sorted (s # filter (\<lambda>x. x \<le> t) rest)" using assms(1) by (auto intro: sorted_wrt_filter)
  from handle_signals_first [OF this] assms(2) show ?thesis by simp
qed

lemma handle_signals_none: "handle_signals w [] = (None, [])"
  by (simp add: handle_signals_def)

text \<open>What \<^verbatim>\<open>gather\<close> makes of coroutines that all return, and of one that raises.\<close>

lemma gather_ended:
  assumes "tasks \<noteq> []" "\<And>x. x \<in> set tasks \<Longrightarrow> \<exists>n t. x = Ended n t None \<and> lo \<le> t \<and> t \<le> hi"
  shows "\<exists>t. gather tasks = Some (t, None) \<and> lo \<le> t \<and> t \<le> hi \<and> (\<forall>x \<in> set tasks. reached x \<le> t)"
proof -
  have "first_failure tasks = None" using assms(2)
  proof (induction tasks)
    case (Cons x xs)
    then obtain n t where "x = Ended n t None" by (metis list.set_intros(1))
    with Cons show ?case by simp
  qed simp
  moreover have "\<not> (\<exists>x \<in> set tasks. running x)" using assms(2) by fastforce
  ultimately have g: "gather tasks = Some (Max (set (map reached tasks)), None)" by (simp add: gather_def)
  let ?M = "Max (set (map reached tasks))"
  have "?M \<in> set (map reached tasks)" by (rule Max_in) (use assms(1) in auto)
  then have "lo \<le> ?M \<and> ?M \<le> hi" using assms(2) by fastforce
  with g show ?thesis by simp
qed

lemma handlers_listed: "add_handlers = [Handles SIGTERM, Handles SIGINT]"
  by (simp add: add_handlers_def)

text \<open>A loop of a process that gets a signal: it ends in time.\<close>

lemma loop_ends:
  assumes "0 \<le> s" "0 < m"
    and "\<And>k. snd (body k) = None \<and> 0 \<le> fst (body k) \<and> fst (body k) \<le> D \<and> 0 \<le> wait k \<and> m \<le> fst (body k) + wait k"
  shows "\<exists>fuel rounds t. s \<le> t \<and> t \<le> s + D \<and> (\<forall>f \<ge> fuel. poll_loop f body wait (Some s) 0 0 = Ended rounds t None)"
proof -
  obtain fuel rounds t where "\<And>f. fuel \<le> f \<Longrightarrow> poll_loop f body wait (Some s) 0 0 = Ended rounds t None" "s \<le> t" "t \<le> s + D"
    by (rule poll_loop_ends [of body D wait m s]) (use assms in blast)+
  then show ?thesis by blast
qed

text \<open>An API that has started serves its requests with a client of the configured Redis.\<close>

lemma started_api_has_queue: "api_startup S B st = Inr st' \<Longrightarrow> get_queue st' = Some (redis_url S)"
  by (auto simp: api_startup_def get_queue_def connect_def check_db_def split: option.splits)

text \<open>Decimal and hexadecimal texts determine their numbers.\<close>

lemma dec_nat_digits: "0 \<le> n \<Longrightarrow> CHR ''-'' \<notin> set (dec_nat n)"
proof (induction n rule: dec_nat.induct)
  case (1 n)
  have "char_of (48 + nat k) \<noteq> CHR ''-''" if "0 \<le> k" "k < 10" for k
  proof -
    have "\<forall>e \<in> set [0..9]. char_of (48 + nat e) \<noteq> CHR ''-''" by code_simp
    with that show ?thesis by auto
  qed
  from this [of n] this [of "n mod 10"] 1 show ?case by (subst dec_nat.simps) auto
qed

lemma digit_char_inj: "0 \<le> a \<Longrightarrow> a < 10 \<Longrightarrow> 0 \<le> b \<Longrightarrow> b < 10 \<Longrightarrow> (char_of (48 + nat a) :: char) = char_of (48 + nat b) \<Longrightarrow> a = b"
proof -
  assume a: "0 \<le> a" "a < 10" "0 \<le> b" "b < 10" "(char_of (48 + nat a) :: char) = char_of (48 + nat b)"
  from arg_cong [OF a(5), of "of_char :: char \<Rightarrow> nat"] a(2,4) have "48 + nat a = 48 + nat b"
    by (simp only: of_char_of) simp
  with a(1,3) show "a = b" by simp
qed

lemma dec_nat_inj: "0 \<le> m \<Longrightarrow> 0 \<le> n \<Longrightarrow> dec_nat m = dec_nat n \<Longrightarrow> m = n"
proof (induction m arbitrary: n rule: dec_nat.induct)
  case (1 m)
  have one: "length (dec_nat k) = 1 \<longleftrightarrow> k < 10" for k
    by (subst dec_nat.simps) simp
  show ?case
  proof (cases "m < 10")
    case True
    with 1(4) one [of m] one [of n] have "n < 10" by metis
    from True have "dec_nat m = [char_of (48 + nat m)]" by (subst dec_nat.simps) simp
    moreover from \<open>n < 10\<close> have "dec_nat n = [char_of (48 + nat n)]" by (subst dec_nat.simps) simp
    ultimately have "(char_of (48 + nat m) :: char) = char_of (48 + nat n)" using 1(4) by (simp only: list.inject)
    then show ?thesis by (rule digit_char_inj [OF 1(2) True 1(3) \<open>n < 10\<close>])
  next
    case False
    with 1(4) one [of m] one [of n] have n: "\<not> n < 10" by metis
    have "dec_nat k = dec_nat (k div 10) @ [char_of (48 + nat (k mod 10))]" if "\<not> k < 10" for k
      using that by (subst dec_nat.simps) simp
    from this [OF False] this [OF n] 1(4) have "dec_nat (m div 10) = dec_nat (n div 10)"
      and l: "(char_of (48 + nat (m mod 10)) :: char) = char_of (48 + nat (n mod 10))" by (metis append1_eq_conv)+
    with False 1(1) [of "n div 10"] 1(2,3) have "m div 10 = n div 10" by simp
    moreover have "m mod 10 = n mod 10" using digit_char_inj [OF _ _ _ _ l] by simp
    ultimately show ?thesis by (metis mult_div_mod_eq)
  qed
qed

lemma hex_fixed_add: "hex_fixed (k + n) x = hex_fixed k (x div 16 ^ n) @ hex_fixed n x"
proof (induction n arbitrary: x)
  case (Suc n)
  then show ?case by (simp add: zdiv_zmult2_eq mult.commute)
qed simp

lemma uuid_prefix_inj:
  fixes u v :: uuid
  shows "take 8 (hex_fixed 32 (uint u)) = take 8 (hex_fixed 32 (uint v)) \<longleftrightarrow> uint u div 2 ^ 96 = uint v div 2 ^ 96"
proof -
  have t: "take 8 (hex_fixed 32 (uint u)) = hex_fixed 8 (uint u div 2 ^ 96)" for u :: uuid
    using hex_fixed_add [of 8 24 "uint u"] by simp
  have inj: "x = y" if "hex_fixed 8 x = hex_fixed 8 y" "0 \<le> x" "0 \<le> y" "x < 16 ^ 8" "y < 16 ^ 8" for x y :: int
  proof -
    have "x mod 16 ^ 8 = y mod 16 ^ 8"
      using hex_int_hex_fixed [OF that(2), of 0 8] hex_int_hex_fixed [OF that(3), of 0 8] unfolding that(1) by auto
    then show ?thesis using that(2-5) by (simp only: mod_pos_pos_trivial)
  qed
  have bound: "0 \<le> uint u div 2 ^ 96 \<and> uint u div 2 ^ 96 < 16 ^ 8" for u :: uuid
    using uint_bounded [of u] by (simp add: pos_imp_zdiv_nonneg_iff)
  show ?thesis unfolding t
  proof
    assume "hex_fixed 8 (uint u div 2 ^ 96) = hex_fixed 8 (uint v div 2 ^ 96)"
    then show "uint u div 2 ^ 96 = uint v div 2 ^ 96"
      by (rule inj) (use bound in blast)+
  qed (simp only:)
qed

lemma append_sep_inj:
  assumes "xs @ c # ys = xs' @ c # ys'" "c \<notin> set ys" "c \<notin> set ys'"
  shows "xs = xs' \<and> ys = ys'"
proof -
  from assms(1) have "rev ys @ c # rev xs = rev ys' @ c # rev xs'"
    by (metis append.assoc append_Cons append_Nil rev.simps(2) rev_append)
  moreover have "takeWhile (\<lambda>x. x \<noteq> c) (rev zs @ c # ws) = rev zs" if "c \<notin> set zs" for zs ws
    using that by (subst takeWhile_append2) auto
  ultimately have "rev ys = rev ys'" using assms(2,3) by metis
  with assms(1) show ?thesis by simp
qed

text \<open>
  Two workers have the same id only on the same host, with the same process id and the same first
  32 bits of their random UUIDs: the rows and heartbeats of two live workers are not confused.
\<close>

lemma worker_ids_distinct:
  assumes "0 \<le> p" "0 \<le> q"
  shows "make_worker_id g p u = make_worker_id h q v \<longleftrightarrow> g = h \<and> p = q \<and> uint u div 2 ^ 96 = uint v div 2 ^ 96"
proof
  assume eq: "make_worker_id g p u = make_worker_id h q v"
  let ?x = "take 8 (hex_fixed 32 (uint u))" and ?y = "take 8 (hex_fixed 32 (uint v))"
  have nd: "CHR ''-'' \<notin> set (take 8 (hex_fixed 32 (uint u)))" for u :: uuid
    by (meson hex_fixed_no_dash in_set_takeD)
  have "(g @ CHR ''-'' # dec_nat p) @ CHR ''-'' # ?x = (h @ CHR ''-'' # dec_nat q) @ CHR ''-'' # ?y"
    using eq assms by (simp add: make_worker_id_def py_str_int_def)
  from append_sep_inj [OF this nd nd]
  have "g @ CHR ''-'' # dec_nat p = h @ CHR ''-'' # dec_nat q" and xy: "?x = ?y" by simp_all
  from append_sep_inj [OF this(1) dec_nat_digits [OF assms(1)] dec_nat_digits [OF assms(2)]]
  have "g = h" "dec_nat p = dec_nat q" by simp_all
  with xy show "g = h \<and> p = q \<and> uint u div 2 ^ 96 = uint v div 2 ^ 96"
    using dec_nat_inj [OF assms] by (simp add: uuid_prefix_inj)
qed (simp add: make_worker_id_def uuid_prefix_inj)

text \<open>The four loops of the maintenance process after a signal.\<close>

lemma maintenance_tasks_end:
  assumes "0 \<le> s" "0 < m"
    and "\<And>k. snd (feeding R k) = None \<and> snd (scheduling R k) = None \<and> snd (reaping R k) = None"
    and "\<And>k. \<forall>d \<in> {fst (feeding R k), fst (scheduling R k), fst (reaping R k), fst (cleaning R k)}. 0 \<le> d \<and> d \<le> D"
    and "m \<le> scheduler_poll_interval_seconds S" "m \<le> MIN_SLEEP"
    and "m \<le> reaper_poll_interval_seconds S" "m \<le> idempotency_cleanup_interval_seconds S"
  obtains fuel tasks where "\<And>f. fuel \<le> f \<Longrightarrow> maintenance_tasks f S R (Some s) = tasks" "tasks \<noteq> []"
    "\<And>x. x \<in> set tasks \<Longrightarrow> \<exists>n t. x = Ended n t None \<and> s \<le> t \<and> t \<le> s + D"
proof -
  let ?sleep = "\<lambda>k. scheduler_sleep S (fst (next_due R k)) (snd (next_due R k))"
  have sleep: "m \<le> ?sleep k" for k using assms(6) by (simp add: scheduler_sleep_def Let_def max_def)
  have ends: "\<exists>fuel n t. s \<le> t \<and> t \<le> s + D \<and> (\<forall>f \<ge> fuel. poll_loop f body wait (Some s) 0 0 = Ended n t None)"
    if "\<And>k. snd (body k) = None" "\<And>k. 0 \<le> fst (body k) \<and> fst (body k) \<le> D" "\<And>k. m \<le> wait k"
    for body :: "nat \<Rightarrow> rat \<times> 'a option" and wait
  proof (rule loop_ends [OF assms(1,2)])
    show "snd (body k) = None \<and> 0 \<le> fst (body k) \<and> fst (body k) \<le> D \<and> 0 \<le> wait k \<and> m \<le> fst (body k) + wait k" for k
      using that(1,2,3) [of k] assms(2) by simp
  qed
  have r: "snd (feeding R k) = None" "snd (scheduling R k) = None" "snd (reaping R k) = None"
    "0 \<le> fst (feeding R k) \<and> fst (feeding R k) \<le> D" "0 \<le> fst (scheduling R k) \<and> fst (scheduling R k) \<le> D"
    "0 \<le> fst (reaping R k) \<and> fst (reaping R k) \<le> D" "snd (guarded (cleaning R) k) = None"
    "0 \<le> fst (guarded (cleaning R) k) \<and> fst (guarded (cleaning R) k) \<le> D" for k
    using assms(3,4) [of k] by (simp_all add: guarded_def case_prod_unfold)
  obtain f1 n1 t1 where l1: "s \<le> t1" "t1 \<le> s + D"
    "\<forall>f \<ge> f1. poll_loop f (feeding R) (\<lambda>k. scheduler_poll_interval_seconds S) (Some s) 0 0 = Ended n1 t1 None"
    using ends [of "feeding R" "\<lambda>k. scheduler_poll_interval_seconds S", OF r(1,4) assms(5)] by blast
  obtain f2 n2 t2 where l2: "s \<le> t2" "t2 \<le> s + D"
    "\<forall>f \<ge> f2. poll_loop f (scheduling R) ?sleep (Some s) 0 0 = Ended n2 t2 None"
    using ends [of "scheduling R" ?sleep, OF r(2,5) sleep] by blast
  obtain f3 n3 t3 where l3: "s \<le> t3" "t3 \<le> s + D"
    "\<forall>f \<ge> f3. poll_loop f (reaping R) (\<lambda>k. reaper_poll_interval_seconds S) (Some s) 0 0 = Ended n3 t3 None"
    using ends [of "reaping R" "\<lambda>k. reaper_poll_interval_seconds S", OF r(3,6) assms(7)] by blast
  obtain f4 n4 t4 where l4: "s \<le> t4" "t4 \<le> s + D"
    "\<forall>f \<ge> f4. poll_loop f (guarded (cleaning R)) (\<lambda>k. idempotency_cleanup_interval_seconds S) (Some s) 0 0 = Ended n4 t4 None"
    using ends [of "guarded (cleaning R)" "\<lambda>k. idempotency_cleanup_interval_seconds S", OF r(7,8) assms(8)] by blast
  show thesis
  proof (rule that)
    show "maintenance_tasks f S R (Some s) = [Ended n1 t1 None, Ended n2 t2 None, Ended n3 t3 None, Ended n4 t4 None]"
      if "max (max f1 f2) (max f3 f4) \<le> f" for f
      using that l1 l2 l3 l4 by (simp add: maintenance_tasks_def)
  qed (use l1 l2 l3 l4 in auto)
qed

text \<open>How often the executor waits after a round.\<close>

abbreviation executor_wait :: "settings \<Rightarrow> 'e worker_rounds \<Rightarrow> nat \<Rightarrow> rat" where
  "executor_wait S R k \<equiv> if \<not> processed R k then executor_poll_interval_seconds S else 0"

text \<open>A heartbeat that raises, and an executor that goes on beyond any moment.\<close>

lemma heartbeat_task_fails:
  assumes "\<And>i. 0 \<le> fst (beating R i)" "\<And>i. i < k \<Longrightarrow> snd (beating R i) = None" "snd (beating R k) = Some e"
    and "0 \<le> worker_heartbeat_interval_seconds S"
    and "t = round_start (\<lambda>i. fst (beating R i)) (\<lambda>i. worker_heartbeat_interval_seconds S) 0 k + fst (beating R k)"
    and "Suc k \<le> f"
  shows "heartbeat_task f S R None = Ended (Suc k) t (Some (case offlining R of None \<Rightarrow> e | Some e2 \<Rightarrow> e2))"
proof -
  obtain g where "f = k + Suc g" using assms(6) by (metis add_Suc_right add_Suc le_Suc_ex)
  then show ?thesis
    using poll_loop_reaches [of k "beating R" "\<lambda>i. worker_heartbeat_interval_seconds S" None 0 "Suc g"] assms(1-5)
    by (cases "beating R k") (simp add: heartbeat_task_def split: option.split)
qed

lemma executor_goes_on:
  assumes "\<And>k. snd (executing R k) = None \<and> 0 \<le> fst (executing R k)" "\<And>k. processed R k \<Longrightarrow> m \<le> fst (executing R k)"
    and "0 < m" "m \<le> executor_poll_interval_seconds S"
  shows "\<exists>n. \<forall>f \<ge> n. \<exists>u. executor_task f S R None = Running u \<and> t \<le> u"
proof -
  obtain n :: nat where n: "(t + m) / m < of_nat n" using reals_Archimedean2 by blast
  have "\<exists>u. executor_task f S R None = Running u \<and> t \<le> u" if f: "n \<le> f" for f
  proof -
    obtain u where u: "executor_task f S R None = Running u"
      unfolding executor_task_def using poll_loop_forever [of "executing R"] assms(1) by blast
    have "0 + of_nat f * m \<le> u + m"
    proof (rule poll_loop_running [OF _ _ _ assms(3) u [unfolded executor_task_def]])
      show "0 \<le> fst (executing R k)" "0 \<le> executor_wait S R k" "m \<le> fst (executing R k) + executor_wait S R k" for k
        using assms(1,2) [of k] assms(3,4) by (cases "processed R k"; force)+
    qed
    moreover have "t + m < of_nat n * m" using n assms(3) by (simp add: pos_divide_less_eq)
    moreover have "(of_nat n :: rat) * m \<le> of_nat f * m" using f assms(3) by simp
    ultimately show ?thesis using u by auto
  qed
  then show ?thesis by blast
qed

section \<open>Properties\<close>

text \<open>
  C22. Graceful shutdown of a worker: if the services answer and no round raises or takes more than
  \<open>D\<close> seconds, then after the first SIGTERM or SIGINT, at \<open>s\<close>, the worker ends by itself within \<open>D\<close>
  seconds; every round of the executor, so every job, was started before the signal and is
  finished; later signals change nothing; and it goes offline, removes its handlers and closes both
  connections, in this order.
\<close>

theorem worker_shuts_down:
  assumes "select_1 B = None" and "redis_ping B = None" and "redis_aclose B = None" and "engine_dispose B = None"
    and "sorted (s # rest)" and "0 \<le> s"
    and "\<And>k. snd (executing R k) = None \<and> 0 \<le> fst (executing R k) \<and> fst (executing R k) \<le> D"
    and "\<And>k. processed R k \<Longrightarrow> m \<le> fst (executing R k)"
    and "\<And>k. snd (beating R k) = None \<and> 0 \<le> fst (beating R k) \<and> fst (beating R k) \<le> D"
    and "offlining R = None"
    and "0 < m" and "m \<le> executor_poll_interval_seconds S" and "m \<le> worker_heartbeat_interval_seconds S"
    and "start = round_start (\<lambda>k. fst (executing R k)) (executor_wait S R) 0"
  shows "\<exists>fuel t rounds u. s \<le> t \<and> t \<le> s + D \<and> u \<le> t \<and>
    (\<forall>k < rounds. start k < s \<and> start k + fst (executing R k) \<le> u) \<and>
    (\<forall>f \<ge> fuel. executor_task f S R (Some s) = Ended rounds u None \<and>
      worker_run f S B w (s # rest) R =
        Some ([Notice ''worker_connected'' (Some w), Handles SIGTERM, Handles SIGINT,
               Notice ''shutdown_signal_received'' (Some w), Offline w, Unhandles SIGTERM, Unhandles SIGINT,
               QueueClosed, EngineDisposed, Notice ''worker_shutdown'' (Some w)], t, None))"
proof -
  have ex: "snd (executing R k) = None \<and> 0 \<le> fst (executing R k) \<and> fst (executing R k) \<le> D \<and>
      0 \<le> executor_wait S R k \<and> m \<le> fst (executing R k) + executor_wait S R k" for k
    using assms(7,8) [of k] assms(11,12) by (cases "processed R k") force+
  have beat: "snd (beating R k) = None \<and> 0 \<le> fst (beating R k) \<and> fst (beating R k) \<le> D \<and>
      0 \<le> worker_heartbeat_interval_seconds S \<and> m \<le> fst (beating R k) + worker_heartbeat_interval_seconds S" for k
    using assms(9) [of k] assms(11,13) by force
  obtain f1 rounds u where e: "\<And>f. f1 \<le> f \<Longrightarrow> executor_task f S R (Some s) = Ended rounds u None" "s \<le> u" "u \<le> s + D"
    using loop_ends [of s m "executing R" D "executor_wait S R", OF assms(6,11) ex] unfolding executor_task_def by blast
  obtain f2 beats v where h: "\<And>f. f2 \<le> f \<Longrightarrow> heartbeat_task f S R (Some s) = Ended beats v None" "s \<le> v" "v \<le> s + D"
    using loop_ends [of s m "beating R" D "\<lambda>k. worker_heartbeat_interval_seconds S", OF assms(6,11) beat]
    unfolding heartbeat_task_def assms(10) by fastforce
  obtain t where g: "gather [Ended rounds u None, Ended beats v (None :: 'a option)] = Some (t, None)"
      "s \<le> t" "t \<le> s + D" "u \<le> t" "v \<le> t"
    using gather_ended [of "[Ended rounds u None, Ended beats v (None :: 'a option)]" s "s + D"] e(2,3) h(2,3) by auto
  have "\<forall>k < rounds. start k < s \<and> start k + fst (executing R k) \<le> u"
    using poll_loop_rounds [of "executing R" "executor_wait S R" f1 s 0 start rounds u None 0] ex e(1) [of f1] assms(14)
    by (simp add: executor_task_def)
  moreover have "worker_run f S B w (s # rest) R =
        Some ([Notice ''worker_connected'' (Some w), Handles SIGTERM, Handles SIGINT,
               Notice ''shutdown_signal_received'' (Some w), Offline w, Unhandles SIGTERM, Unhandles SIGINT,
               QueueClosed, EngineDisposed, Notice ''worker_shutdown'' (Some w)], t, None)" if "max f1 f2 \<le> f" for f
    using that e(1) [of f] h(1) [of f] g assms(1-4,10)
    by (simp add: worker_run_def handle_signals_first [OF assms(5)] handle_signals_until [OF assms(5) g(2)]
        clean_up_quiet ended_by_def handlers_listed Let_def del: filter.simps)
  ultimately show ?thesis using e(1) g by (intro exI [of _ "max f1 f2"] exI [of _ t] exI [of _ rounds] exI [of _ u]) simp
qed

theorem worker_shuts_down_witness:
  "\<exists>fuel t. 1 \<le> t \<and> t \<le> 1 + 1 / 4 \<and> (\<forall>f \<ge> fuel. worker_run f default_settings
     \<lparr>select_1 = None, redis_ping = None, redis_aclose = None, engine_dispose = None :: string option\<rparr> ''w'' [1, 2]
     \<lparr>executing = \<lambda>k. (1 / 4, None), processed = \<lambda>k. even k, beating = \<lambda>k. (0, None), offlining = None\<rparr> =
       Some ([Notice ''worker_connected'' (Some ''w''), Handles SIGTERM, Handles SIGINT,
               Notice ''shutdown_signal_received'' (Some ''w''), Offline ''w'', Unhandles SIGTERM, Unhandles SIGINT,
               QueueClosed, EngineDisposed, Notice ''worker_shutdown'' (Some ''w'')], t, None))"
proof -
  let ?B = "\<lparr>select_1 = None, redis_ping = None, redis_aclose = None, engine_dispose = None :: string option\<rparr>"
  let ?R = "\<lparr>executing = \<lambda>k. (1 / 4, None), processed = \<lambda>k. even k, beating = \<lambda>k. (0, None), offlining = None\<rparr> :: string worker_rounds"
  have poll: "(1 / 4 :: rat) \<le> executor_poll_interval_seconds default_settings" by code_simp
  show ?thesis
    using worker_shuts_down [of ?B 1 "[2]" ?R "1 / 4" "1 / 4" default_settings
        "round_start (\<lambda>k. fst (executing ?R k)) (executor_wait default_settings ?R) 0" "''w''"] poll
    by simp blast
qed

text \<open>
  C32. Graceful shutdown of the maintenance process: after the first signal it ends within the
  length of a round, all four loops having returned, although the rounds of the cleanup loop may
  raise what they like.
\<close>

theorem maintenance_shuts_down:
  assumes "select_1 B = None" and "redis_ping B = None" and "redis_aclose B = None" and "engine_dispose B = None"
    and "sorted (s # rest)" and "0 \<le> s"
    and "\<And>k. snd (feeding R k) = None \<and> snd (scheduling R k) = None \<and> snd (reaping R k) = None"
    and "\<And>k. \<forall>d \<in> {fst (feeding R k), fst (scheduling R k), fst (reaping R k), fst (cleaning R k)}. 0 \<le> d \<and> d \<le> D"
    and "0 < m" and "m \<le> scheduler_poll_interval_seconds S" and "m \<le> MIN_SLEEP"
    and "m \<le> reaper_poll_interval_seconds S" and "m \<le> idempotency_cleanup_interval_seconds S"
  shows "\<exists>fuel t. s \<le> t \<and> t \<le> s + D \<and>
    (\<forall>f \<ge> fuel. (\<forall>x \<in> set (maintenance_tasks f S R (Some s)). ended_by t x) \<and>
      maintenance_run f S B (s # rest) R =
        Some ([Notice ''maintenance_connected'' None, Handles SIGTERM, Handles SIGINT,
               Notice ''shutdown_signal_received'' None, Unhandles SIGTERM, Unhandles SIGINT,
               QueueClosed, EngineDisposed, Notice ''maintenance_shutdown'' None], t, None))"
proof -
  obtain fuel tasks where tasks: "\<And>f. fuel \<le> f \<Longrightarrow> maintenance_tasks f S R (Some s) = tasks" "tasks \<noteq> []"
    "\<And>x. x \<in> set tasks \<Longrightarrow> \<exists>n t. x = Ended n t None \<and> s \<le> t \<and> t \<le> s + D"
    using maintenance_tasks_end [OF assms(6,9,7,8,10-13)] by blast
  obtain t where g: "gather tasks = Some (t, None)" "s \<le> t" "t \<le> s + D" "\<forall>x \<in> set tasks. reached x \<le> t"
    using gather_ended [OF tasks(2,3)] by blast
  have "maintenance_run f S B (s # rest) R =
        Some ([Notice ''maintenance_connected'' None, Handles SIGTERM, Handles SIGINT,
               Notice ''shutdown_signal_received'' None, Unhandles SIGTERM, Unhandles SIGINT,
               QueueClosed, EngineDisposed, Notice ''maintenance_shutdown'' None], t, None)" if "fuel \<le> f" for f
    using assms(1-4) g(1)
    by (simp add: maintenance_run_def handle_signals_first [OF assms(5)] handle_signals_until [OF assms(5) g(2)]
        tasks(1) [OF that] clean_up_quiet handlers_listed Let_def del: filter.simps)
  moreover have "ended_by t x" if "x \<in> set tasks" for x
    using tasks(3) [OF that] g(4) that by (auto simp: ended_by_def)
  ultimately show ?thesis using g(2,3) tasks(1) by (intro exI [of _ fuel] exI [of _ t]) simp
qed

theorem maintenance_shuts_down_witness:
  "\<exists>fuel t. 1 \<le> t \<and> t \<le> 1 + 1 / 4 \<and> (\<forall>f \<ge> fuel. maintenance_run f default_settings
     \<lparr>select_1 = None, redis_ping = None, redis_aclose = None, engine_dispose = None\<rparr> [1]
     \<lparr>feeding = \<lambda>k. (1 / 4, None), scheduling = \<lambda>k. (0, None), next_due = \<lambda>k. (None, 0), reaping = \<lambda>k. (0, None),
       cleaning = \<lambda>k. (0, Some ''OperationalError'')\<rparr> =
        Some ([Notice ''maintenance_connected'' None, Handles SIGTERM, Handles SIGINT,
               Notice ''shutdown_signal_received'' None, Unhandles SIGTERM, Unhandles SIGINT,
               QueueClosed, EngineDisposed, Notice ''maintenance_shutdown'' None], t, None))"
proof -
  let ?B = "\<lparr>select_1 = None, redis_ping = None, redis_aclose = None, engine_dispose = None :: string option\<rparr>"
  let ?R = "\<lparr>feeding = \<lambda>k. (1 / 4, None), scheduling = \<lambda>k. (0, None), next_due = \<lambda>k. (None, 0), reaping = \<lambda>k. (0, None),
       cleaning = \<lambda>k. (0, Some ''OperationalError'')\<rparr> :: string maintenance_rounds"
  let ?S = default_settings
  have "0 < MIN_SLEEP \<and> MIN_SLEEP \<le> scheduler_poll_interval_seconds ?S \<and> MIN_SLEEP \<le> reaper_poll_interval_seconds ?S \<and>
      MIN_SLEEP \<le> idempotency_cleanup_interval_seconds ?S"
    by code_simp
  then show ?thesis using maintenance_shuts_down [of ?B 1 "[]" ?R "1 / 4" MIN_SLEEP ?S] by simp blast
qed

text \<open>
  C31. A round that raises ends the process: if the \<open>k\<close>-th heartbeat raises (Redis or PostgreSQL out
  of reach), then at that moment the worker tries to go offline, closes its connections and ends with
  that exception, or the one that going offline raises, even if the executor is in the middle of a job, which then waits for the reaper.  When
  a service does not answer at the start, the process ends with its exception and does nothing.
\<close>

theorem failing_heartbeat_ends_worker:
  assumes "redis_aclose B = None" and "engine_dispose B = None"
    and "\<And>k. snd (executing R k) = None \<and> 0 \<le> fst (executing R k)"
    and "\<And>k. processed R k \<Longrightarrow> m \<le> fst (executing R k)"
    and "\<And>i. 0 \<le> fst (beating R i)" and "\<And>i. i < k \<Longrightarrow> snd (beating R i) = None" and "snd (beating R k) = Some e"
    and "0 < m" and "m \<le> executor_poll_interval_seconds S" and "0 \<le> worker_heartbeat_interval_seconds S"
    and "t = round_start (\<lambda>i. fst (beating R i)) (\<lambda>i. worker_heartbeat_interval_seconds S) 0 k + fst (beating R k)"
  shows "\<exists>fuel. \<forall>f \<ge> fuel. worker_run f S B w [] R = Some (case (select_1 B, redis_ping B) of
      (Some e0, _) \<Rightarrow> ([], 0, Some e0)
    | (None, Some e1) \<Rightarrow> ([], 0, Some e1)
    | (None, None) \<Rightarrow> ([Notice ''worker_connected'' (Some w), Handles SIGTERM, Handles SIGINT] @
        (if offlining R = None then [Offline w] else []) @ [Unhandles SIGTERM, Unhandles SIGINT, QueueClosed, EngineDisposed, Notice ''worker_shutdown'' (Some w)],
        t, Some (case offlining R of None \<Rightarrow> e | Some e2 \<Rightarrow> e2)))"
proof -
  let ?e = "case offlining R of None \<Rightarrow> e | Some e2 \<Rightarrow> e2"
  obtain n where x: "\<And>f. n \<le> f \<Longrightarrow> \<exists>u. executor_task f S R None = Running u \<and> t \<le> u"
    using executor_goes_on [OF assms(3,4,8,9)] by blast
  note h = heartbeat_task_fails [OF assms(5-7,10,11)]
  show ?thesis
  proof (intro exI [of _ "max n (Suc k)"] allI impI)
    fix f assume "max n (Suc k) \<le> f"
    then obtain u where "executor_task f S R None = Running u" "t \<le> u" "heartbeat_task f S R None = Ended (Suc k) t (Some ?e)"
      using x [of f] h [of f] by auto
    then show "worker_run f S B w [] R = Some (case (select_1 B, redis_ping B) of
      (Some e0, _) \<Rightarrow> ([], 0, Some e0)
    | (None, Some e1) \<Rightarrow> ([], 0, Some e1)
    | (None, None) \<Rightarrow> ([Notice ''worker_connected'' (Some w), Handles SIGTERM, Handles SIGINT] @
        (if offlining R = None then [Offline w] else []) @ [Unhandles SIGTERM, Unhandles SIGINT, QueueClosed, EngineDisposed, Notice ''worker_shutdown'' (Some w)],
        t, Some (case offlining R of None \<Rightarrow> e | Some e2 \<Rightarrow> e2)))"
      using assms(1,2)
      by (simp add: worker_run_def handle_signals_none gather_def clean_up_quiet ended_by_def handlers_listed
          check_db_def connect_def split: option.split)
  qed
qed

theorem failing_heartbeat_ends_worker_witness:
  "\<exists>fuel. \<forall>f \<ge> fuel. worker_run f default_settings
     \<lparr>select_1 = None, redis_ping = None, redis_aclose = None, engine_dispose = None\<rparr> ''w'' []
     \<lparr>executing = \<lambda>k. (25, None), processed = \<lambda>k. True,
       beating = \<lambda>k. (0, if k = 2 then Some ''ConnectionError'' else None), offlining = Some ''TimeoutError''\<rparr> =
     Some ([Notice ''worker_connected'' (Some ''w''), Handles SIGTERM, Handles SIGINT, Unhandles SIGTERM, Unhandles SIGINT,
            QueueClosed, EngineDisposed, Notice ''worker_shutdown'' (Some ''w'')], 10, Some ''TimeoutError'')"
proof -
  let ?B = "\<lparr>select_1 = None, redis_ping = None, redis_aclose = None, engine_dispose = None :: string option\<rparr>"
  let ?R = "\<lparr>executing = \<lambda>k. (25, None), processed = \<lambda>k. True,
       beating = \<lambda>k. (0, if k = 2 then Some ''ConnectionError'' else None), offlining = Some ''TimeoutError''\<rparr>"
  have m: "0 < (1 / 2 :: rat) \<and> 1 / 2 \<le> executor_poll_interval_seconds default_settings" by code_simp
  have t: "10 = round_start (\<lambda>i. fst (beating ?R i)) (\<lambda>i. worker_heartbeat_interval_seconds default_settings) 0 2 + fst (beating ?R 2)"
    by (simp add: numeral_2_eq_2)
  show ?thesis
    using failing_heartbeat_ends_worker [of ?B ?R "1 / 2" 2 "''ConnectionError''" default_settings 10 "''w''"] m t by simp
qed

end
