(* ===== verification/Logging.thy ===== *)
theory Logging
  imports Prelude
begin

text \<open>
  \<^verbatim>\<open>app/logging_config.py\<close>: what \<^verbatim>\<open>configure_logging\<close> leaves behind in structlog and in the root
  logger of the standard library.  The processors are structlog's and appear by name, with their
  arguments; a level is its number.
\<close>

datatype processor =
    merge_contextvars
  | add_log_level
  | add_logger_name
  | TimeStamper string
  | StackInfoRenderer
  | format_exc_info
  | wrap_for_formatter
  | remove_processors_meta
  | JSONRenderer
  | ConsoleRenderer

datatype stream = Stdout | Stderr

text \<open>A handler with its \<^verbatim>\<open>ProcessorFormatter\<close>.\<close>

record log_handler =
  stream :: stream
  foreign_pre_chain :: "processor list"
  formatter_processors :: "processor list"

record logging_state =
  structlog_processors :: "processor list"
  cache_logger :: bool
  root_handlers :: "log_handler list"
  root_level :: int
  capture_warnings :: bool

definition INFO :: int where
  "INFO = 20"

definition shared_processors :: "processor list" where
  "shared_processors =
     [merge_contextvars, add_log_level, add_logger_name, TimeStamper ''iso'', StackInfoRenderer, format_exc_info]"

definition configure_logging :: "bool \<Rightarrow> int \<Rightarrow> logging_state \<Rightarrow> logging_state" where
  "configure_logging json_logs level st =
     (let st = st\<lparr>structlog_processors := shared_processors @ [wrap_for_formatter], cache_logger := True\<rparr>;
          renderer = (if json_logs then JSONRenderer else ConsoleRenderer);
          handler = \<lparr>stream = Stdout, foreign_pre_chain = shared_processors,
                     formatter_processors = [remove_processors_meta, renderer]\<rparr>;
          st = st\<lparr>root_handlers := []\<rparr>;
          st = st\<lparr>root_handlers := root_handlers st @ [handler]\<rparr>
      in st\<lparr>root_level := level, capture_warnings := True\<rparr>)"

text \<open>
  The processors a record of a level runs through on its way to each line of output: records of
  structlog loggers come with structlog's chain, which ends by handing them to the formatter,
  records of other libraries with the formatter's own.
\<close>

definition lines_of :: "logging_state \<Rightarrow> bool \<Rightarrow> int \<Rightarrow> (stream \<times> processor list) list" where
  "lines_of st foreign level =
     (if level < root_level st then []
      else map (\<lambda>h. (stream h, (if foreign then foreign_pre_chain h else structlog_processors st) @ formatter_processors h))
        (root_handlers st))"

section \<open>Lemmas\<close>

text \<open>
  Whatever was configured before, by an earlier call or by another library, a record of at least
  the level gives exactly one line on standard output and a lower one none; records of other
  libraries are rendered by the same processors as the program's own, but for the hand-over.
\<close>

lemma configured_lines:
  "lines_of (configure_logging json_logs level st) foreign l =
     (if l < level then []
      else [(Stdout, shared_processors @ (if foreign then [] else [wrap_for_formatter]) @
              [remove_processors_meta, if json_logs then JSONRenderer else ConsoleRenderer])])"
  by (simp add: lines_of_def configure_logging_def Let_def)

lemma configure_logging_last_wins:
  "configure_logging j' l' (configure_logging j l st) = configure_logging j' l' st"
  by (simp add: configure_logging_def Let_def)

end
