(* ===== verification/Spec2Isabelle.thy ===== *)
theory Spec2Isabelle
  imports Outages Races Timed Storable Coherence Stale_Index Processes Logging
begin

text \<open>
  \<^bold>\<open>mcareers: a job queue on PostgreSQL and Redis.\<close>

  The program (\<^verbatim>\<open>src/app\<close>) is an HTTP API through which clients submit, list, cancel and retry
  jobs, a set of worker processes that execute them, and one maintenance process.  PostgreSQL
  holds the jobs and is the source of truth; Redis holds three indexes over job ids (pending,
  scheduled, dead letters) and the liveness of the workers, and only decides who tries what next.

  \<^bold>\<open>The theories\<close>, in the order of the code:

  \<^item> \<^verbatim>\<open>Prelude\<close>, \<^verbatim>\<open>Doubles\<close>, \<^verbatim>\<open>Py_Text\<close>, \<^verbatim>\<open>Json\<close>: what the program uses of Python: times in
    microseconds, errors as the left of a sum, rounding to IEEE doubles, text operations,
    \<^verbatim>\<open>json.dumps\<close>.
  \<^item> \<^verbatim>\<open>Config\<close>: \<^verbatim>\<open>config.py\<close>.  \<^verbatim>\<open>Models\<close>: \<^verbatim>\<open>db/models.py\<close> with the constraints of
    \<^verbatim>\<open>db/schema.sql\<close>, and the specification \<open>lifecycle\<close> of the status changes the documents describe.
  \<^item> \<^verbatim>\<open>Job_Table\<close>: the SQL statements as operations on the list of rows, what a session's commit
    writes, and two interfaces as locales: \<open>guarded_update\<close> (one conditional \<^verbatim>\<open>UPDATE\<close>) and
    \<open>object_update\<close> (load, change, commit).  Every operation that writes is an interpretation
    of one of them: the cleanup, the claim, the lease renewal; cancel, manual retry, failure,
    completion, progress.  \<^verbatim>\<open>Sweep\<close> adds the locale of the scheduler's and the reaper's loops.
  \<^item> \<^verbatim>\<open>Redis_Zset\<close>: the sorted set, a service outside the repository: the locale \<open>zset\<close> states its
    documented laws, and every theorem about queues assumes them (\<open>job_queue Z\<close>, \<open>worker_set H\<close>);
    \<open>list_zset\<close> is an instance on which the witnesses run.  \<^verbatim>\<open>Keys\<close>, \<^verbatim>\<open>Queue_Client\<close>:
    \<^verbatim>\<open>queue/keys.py\<close> and \<^verbatim>\<open>queue/client.py\<close>, method by method.
  \<^item> \<^verbatim>\<open>Idempotency\<close>, \<^verbatim>\<open>Job_Service\<close>, \<^verbatim>\<open>Health\<close>: \<^verbatim>\<open>services/\<close>.  \<^verbatim>\<open>Schemas\<close>, \<^verbatim>\<open>Routes\<close>:
    \<^verbatim>\<open>api/schemas.py\<close> and \<^verbatim>\<open>api/routes/\<close>, a response being a status code and a body.
  \<^item> \<^verbatim>\<open>Handlers\<close>: \<^verbatim>\<open>jobs/\<close>; a handler's run is its list of awaits and its end, the protocol
    is the locale \<open>job_handler\<close>.
  \<^item> \<^verbatim>\<open>Claim\<close>, \<^verbatim>\<open>Retry\<close>, \<^verbatim>\<open>Executor\<close>, \<^verbatim>\<open>Heartbeat\<close>, \<^verbatim>\<open>Feeder\<close>, \<^verbatim>\<open>Scheduler\<close>, \<^verbatim>\<open>Reaper\<close>,
    \<^verbatim>\<open>Lifecycle\<close>: \<^verbatim>\<open>worker/\<close>, one theory per file.
  \<^item> \<^verbatim>\<open>Processes\<close>: the entry points \<^verbatim>\<open>main.py\<close>, \<^verbatim>\<open>worker/__main__.py\<close> and
    \<^verbatim>\<open>maintenance/__main__.py\<close>: start-up, signals, the loops under \<^verbatim>\<open>asyncio.gather\<close>, clean-up.
    \<^verbatim>\<open>Logging\<close>: \<^verbatim>\<open>logging_config.py\<close>.
  \<^item> \<^verbatim>\<open>System\<close>: all processes as events on the database and the workers' memories, with what holds
    in every interleaving.  \<^verbatim>\<open>Orderly\<close>: what holds in addition when no lease ends under a live
    worker and no request is overtaken.  \<^verbatim>\<open>Timed\<close>: clocks and heartbeats that ensure it.
    \<^verbatim>\<open>Races\<close>: interleavings in which the program misbehaves.  \<^verbatim>\<open>Audit_Trail\<close>: the job log.
    \<^verbatim>\<open>Coherence\<close>: the columns of a row and its status.  \<^verbatim>\<open>Storable\<close>: what PostgreSQL can store.
  \<^item> \<^verbatim>\<open>Refinement\<close>, \<^verbatim>\<open>Cluster\<close>: the events of \<open>System\<close> refined to actions on database and Redis, where
    each Redis command is sent some time after its transaction, or never; the locale \<open>refinement\<close>
    carries what holds of \<open>System\<close> over.  \<^verbatim>\<open>Operations\<close>: the operations of the components, run whole,
    are runs of \<open>Cluster\<close>.  \<^verbatim>\<open>Stale_Index\<close>: an entry of Redis that its row has left behind.
  \<^item> \<^verbatim>\<open>Quiescence\<close>: maintenance cycles and worker rounds after a state reached in any way, until
    every job is finished.  \<^verbatim>\<open>Outages\<close>: the operations with calls to Redis that raise, which no code
    catches; they are runs of \<open>Cluster\<close> too.
  \<^item> this theory: properties that span components.

  \<^bold>\<open>State and operations.\<close>  The record \<open>job\<close> has the columns of the table, \<open>database\<close> the two
  tables, \<open>redis\<close> the four keys.  An operation takes and returns them; an \<^verbatim>\<open>async\<close> function that
  does several transactions is the composition of definitions for each, so that \<^verbatim>\<open>System\<close> can put
  other processes in between.  Clocks, new ids, random draws and delays are arguments; where the
  code reads the clock of the process and of the database, these are two arguments.  Rows that tie on
  an \<^verbatim>\<open>ORDER BY\<close> come to a batch in the order of the table, which no theorem fixes; the pages of a listing
  are queries of their own, so each has its own order of ties as an argument.

  \<^bold>\<open>What the lemmas show.\<close>  Per component: every branch of every operation, errors included, with
  the rows it changes and those it leaves (\<open>\<dots>_spec\<close>, \<open>\<dots>_cycle\<close>).  For the scores: rounding to
  doubles does not disturb the order for priorities up to 1000 and times up to the year 2041.
  For the system: in every interleaving the table is well-formed, the log explains it, and every
  entry of Redis names a row and carries its score, so that workers pop the highest priority first;
  without untimely reaps and overtaken retries one worker at a time executes a job and attempts are
  bounded by the limit plus the number of reaps, and no reap is untimely while workers renew their
  leases in time; with cancel requests that are not overtaken either, statuses follow \<open>lifecycle\<close>,
  the columns of a row fit its status and no update is lost.  What the workers write can be stored,
  since the \<^verbatim>\<open>INSERT\<close> has refused every payload from which something else could come.
  \<^verbatim>\<open>Races\<close> shows that these conditions are needed, since the code does not enforce them.  For the
  processes: they end within a round of the first signal, with the round under way finished and
  everything closed.  Whatever has happened before, maintenance cycles and worker rounds bring every
  job to an end; the number of attempts a job has left is the variant.  When Redis fails, what was
  to be stored is stored, and only answers and entries of Redis are lost.  Here: a submitted job gets
  done, a scheduled job starts in time, a crashed worker's job comes back within a bound, the backoff
  holds, a maintenance cycle is one bulk update, a backlog is worked off without pauses.

  \<^bold>\<open>Fuel and bounds.\<close>  Only \<open>poll_loop\<close>, and the processes built from it, takes fuel, one unit
  per round; \<open>poll_loop_ends\<close> and the theorems on the processes show that enough of it exists, and
  \<open>poll_loop_fuel\<close> that more changes nothing.  A loop has two views: its timing in \<open>Lifecycle\<close> and
  \<open>Processes\<close>, where a round is a duration and perhaps an exception, and its effect in the theory
  of its file, as a recursion over the list of its rounds; \<open>backlog_drained_in_time\<close> joins them for the
  executor, \<open>recovery_in_bounded_time\<close> and \<open>scheduled_job_promoted_in_time\<close> for the rounds of the
  maintenance process.  The batch sizes of 100 are arguments; theorems on completeness assume that the work
  fits the limit.

  \<^bold>\<open>Not modelled.\<close>  Failing calls to PostgreSQL inside an operation, other than a refused \<^verbatim>\<open>INSERT\<close>
  (the schema's constraints, and U+0000 in a payload) and an offset the driver cannot bind: they
  appear as a crash or as a round that raises, since what a session can still do after a failed
  flush is SQLAlchemy's.  A timeout in the middle of a commit (the report that is cut off counts as
  not made).  Texts with code points above U+00FF, and JSON numbers that are not finite.  The formats
  of email addresses and URLs (parameters), the JSON of responses (pydantic), routing and dependency
  injection (FastAPI), the processors of structlog and the notices the components send to it, and
  deployment.  Of the loops of the maintenance process the theorems follow the timing over all rounds and
  the effect of the one round that matters for a job; only the executor's loop has a theorem on the
  state after each of its timed rounds.
\<close>


section \<open>Lemmas\<close>

lemma dequeue_only:
  assumes "job_queue Z" "pending_score Z r = [i \<mapsto> x]"
  shows "fst (dequeue Z r) = Some i"
proof -
  have "fst (dequeue Z r) \<noteq> None"
    using job_queue.dequeue_None [OF assms(1), of r] assms(2) by (metis map_upd_nonempty)
  then obtain k r' where d: "dequeue Z r = (Some k, r')" by (metis option.exhaust prod.collapse)
  then have "pending_score Z r k \<noteq> None"
    using job_queue.dequeue_Some [OF assms(1) d] by (metis option.distinct(1))
  with assms(2) d show ?thesis by (simp split: if_splits)
qed

lemma claim_succeeds:
  assumes "db_ok db" "get_row i (jobs db) = Some j" "claim_guard i t j"
  shows "fst (claim_job now t i w lease db) \<noteq> None"
  using assms by (simp add: claim_job_eq db_ok_distinct)

lemma claim_fails:
  assumes "db_ok db" "get_row i (jobs db) = Some j" "\<not> claim_guard i t j"
  shows "claim_job now t i w lease db = (None, db)"
  using assms by (simp add: claim_job_eq db_ok_distinct)

text \<open>A created, unscheduled job: its row, and where Redis lists it.\<close>

lemma create_route_created:
  assumes "create_job_route S Z email_str http_url i recv now t d p None idem db r = ((201, JobBody v), db', r')"
  obtains data key where "job_create email_str http_url recv t d p None = Inr data"
    "jc_scheduled_at data = None" "can_insert S i data key db" "v = job_response_of (new_job S i now data key)"
    "db' = db\<lparr>jobs := jobs db @ [new_job S i now data key],
              job_logs := job_logs db @ created_log (new_job S i now data key)\<rparr>"
    "r' = snd (enqueue Z i (priority_score (jc_priority data) now) False r)"
proof (cases "job_create email_str http_url recv t d p None")
  case (Inl e)
  with assms show ?thesis by (simp add: create_job_route_def)
next
  case (Inr data)
  then have none: "jc_scheduled_at data = None"
    using job_create_Inr(7) [OF Inr] by (simp add: scheduled_at_must_be_future_def)
  show ?thesis
  proof (cases rule: submit_job_cases [of S Z i now data idem db r])
    case (created key)
    with Inr assms none show ?thesis
      by (intro that [OF Inr none created(2)])
        (simp_all add: create_job_route_def submit_dispatch_def row_simps)
  qed (use Inr assms in \<open>simp_all add: create_job_route_def\<close>)
qed

text \<open>A dead worker's job after a round of the reaper and one of the feeder.\<close>

lemma reaped_and_fed:
  assumes "job_queue Z" "db_ok db" "get_row i (jobs db) = Some j" "status j = Processing" "leased_until j = Some l"
    and "l < t1" "t1 \<le> clk i" "length (filter (expired t1) (jobs db)) \<le> n1"
    and "db1 = snd (reap_expired_leases n1 t1 clk db)"
    and "db_ok db2" "get_row i (jobs db2) = get_row i (jobs db1)" "length (filter (ready t2) (jobs db2)) \<le> n2"
  shows "(\<exists>j1. get_row i (jobs db2) = Some j1 \<and> status j1 = Pending \<and> attempt_count j1 = attempt_count j) \<and>
    pending_score Z (snd (promote_ready_jobs Z n2 t2 db2 r)) i \<noteq> None \<and>
    (\<forall>now t w lease. fst (claim_job now t i w lease db2) \<noteq> None)"
proof -
  have e: "expired t1 j" using assms(4-6) by (simp add: expired_def)
  have row: "get_row i (jobs db2) = Some (reap_set j)"
    using reap_covers(1) [OF assms(2,8,3) e, of clk] assms(7,9,11) by simp
  have "ready t2 (reap_set j)" by (simp add: ready_def row_simps)
  note queued = feeder_covers [OF assms(1,10,12) row this, of r]
  have "claim_guard i t (reap_set j)" for t
    using get_row_Some [OF assms(3)] by (simp add: claim_guard_def row_simps)
  with queued claim_succeeds [OF assms(10) row] row show ?thesis by (simp add: row_simps)
qed

text \<open>A due job after a cycle of the scheduler.\<close>

lemma promoted_when_due:
  assumes "job_queue Z" "db_ok db" "get_row i (jobs db) = Some j" "status j = Scheduled" "scheduled_at j = Some t"
    and "moment \<le> clk i" "length (filter (due moment) (jobs db)) \<le> limit" "t \<le> moment"
    and p: "promote_due_scheduled Z limit moment clk db r = (n, db', r')"
  shows "get_row i (jobs db') = Some (j\<lparr>status := Pending, next_run_at := None\<rparr>) \<and>
    pending_score Z r' i = Some (rnd53 (of_int (priority_score (priority j) (created_at j)))) \<and>
    scheduled_score Z r' i = None \<and> (\<forall>now db_now w lease. fst (claim_job now db_now i w lease db') \<noteq> None)"
proof -
  let ?ids = "candidates Z limit moment db r"
  note f = fold_promote_one [OF assms(1,2) distinct_candidates [of Z limit moment db r] p [unfolded promote_due_scheduled_def]]
  have d: "due moment j" using assms(4,5,8) by (simp add: due_def)
  have i: "i \<in> set ?ids" by (rule all_due_candidates [OF assms(7,3) d])
  have g: "promote_guard i (clk i) j" "due (clk i) j"
    using due_mono [OF d assms(6)] get_row_Some [OF assms(3)] by (simp_all add: promote_guard_def)
  have db': "db' = db\<lparr>jobs := sweep_rows promote_guard promote_set clk ?ids (jobs db)\<rparr>" using f by blast
  have ok: "db_ok db'" using assms(2) by (simp add: db' db_ok_def promoting.sweep_table_ok)
  have row: "get_row i (jobs db') = Some (promote_set j)"
    by (simp add: db' promoting.sweep_get_row [OF distinct_candidates] assms(3) i g)
  have "claim_guard i u (promote_set j)" for u
    using get_row_Some [OF assms(3)] by (simp add: claim_guard_def row_simps)
  with claim_succeeds [OF ok row] have "fst (claim_job now u i w lease db') \<noteq> None" for now u w lease by blast
  moreover have "pending_score Z r' i = Some (job_score j)" "scheduled_score Z r' i = None" using f assms(3) i g(2) by simp_all
  ultimately show ?thesis using row unfolding promote_set_def job_score_def by blast
qed

text \<open>What a clock shows \<open>t\<close> seconds after the epoch.\<close>

definition clock_at :: "rat \<Rightarrow> datetime" where
  "clock_at t = \<lfloor>t * 1000000\<rfloor>"

section \<open>Properties across components\<close>

text \<open>
  C17. Crash recovery takes bounded time.  Let a job's worker be gone, so that its lease ends at \<open>l\<close>, and
  let the reaper and the feeder loop with their poll intervals \<open>P\<close> and \<open>Q\<close> and rounds of at most \<open>D\<close>
  seconds.  Then within \<open>3 D + P + Q\<close> seconds of the end of the lease a round of the reaper and
  after it one of the feeder (limits covering the work) have put the job back: it is pending with
  its attempts counted, it is in the queue, and the next worker that pops it gets it; whatever
  happens to other jobs between the two rounds.
\<close>

theorem recovery_in_bounded_time:
  assumes "job_queue Z" and "\<And>k. 0 \<le> reap_dur k \<and> reap_dur k \<le> D" and "\<And>k. 0 \<le> feed_dur k \<and> feed_dur k \<le> D"
    and "0 < P" and "0 < Q" and "P = reaper_poll_interval_seconds S" and "Q = scheduler_poll_interval_seconds S"
    and "up \<le> of_int (l + 1) / 1000000"
    and "reap_at = round_start reap_dur (\<lambda>k. P) up" and "feed_at = round_start feed_dur (\<lambda>k. Q) up"
  shows "\<exists>k n. l < clock_at (reap_at k) \<and> reap_at k + reap_dur k < feed_at n \<and>
    feed_at n \<le> of_int (l + 1) / 1000000 + 3 * D + P + Q \<and>
    (\<forall>db j n1 clk db1 db2 n2 r.
      db_ok db \<and> get_row i (jobs db) = Some j \<and> status j = Processing \<and> leased_until j = Some l \<and>
      clock_at (reap_at k) \<le> clk i \<and> length (filter (expired (clock_at (reap_at k))) (jobs db)) \<le> n1 \<and>
      db1 = snd (reap_expired_leases n1 (clock_at (reap_at k)) clk db) \<and>
      db_ok db2 \<and> get_row i (jobs db2) = get_row i (jobs db1) \<and>
      length (filter (ready (clock_at (feed_at n))) (jobs db2)) \<le> n2 \<longrightarrow>
        (\<exists>j1. get_row i (jobs db2) = Some j1 \<and> status j1 = Pending \<and> attempt_count j1 = attempt_count j) \<and>
        pending_score Z (snd (promote_ready_jobs Z n2 (clock_at (feed_at n)) db2 r)) i \<noteq> None \<and>
        (\<forall>now t w lease. fst (claim_job now t i w lease db2) \<noteq> None))"
proof -
  obtain k where k: "of_int (l + 1) / 1000000 < reap_at k" "reap_at k \<le> of_int (l + 1) / 1000000 + D + P"
    unfolding assms(9)
    by (rule next_round [of P reap_dur "\<lambda>k. P" D P up "of_int (l + 1) / 1000000"]) (use assms(2,4,8) in auto)
  have "up \<le> reap_at k + reap_dur k" using k(1) assms(2) [of k] assms(8) by linarith
  then obtain n where n: "reap_at k + reap_dur k < feed_at n" "feed_at n \<le> reap_at k + reap_dur k + D + Q"
    unfolding assms(10) by - (rule next_round [of Q feed_dur "\<lambda>k. Q" D Q up "reap_at k + reap_dur k"], use assms(3,5) in auto)
  have lease_over: "l < clock_at (reap_at k)" using k(1) by (simp add: clock_at_def le_floor_iff less_le_not_le) linarith
  have bound: "feed_at n \<le> of_int (l + 1) / 1000000 + 3 * D + P + Q" using n(2) k(2) assms(2) [of k] by linarith
  show ?thesis
    by (intro exI [of _ k] exI [of _ n], rule conjI [OF lease_over], rule conjI [OF n(1)], rule conjI [OF bound],
        (rule allI)+, rule impI, elim conjE, rule reaped_and_fed [OF assms(1) _ _ _ _ lease_over], assumption+)
qed

theorem recovery_in_bounded_time_witness:
  "\<exists>t. t \<le> (40 + 1) / 1000000 + 3 * (1 / 10) + 5 + 1 \<and>
    pending_score list_zset (snd (promote_ready_jobs list_zset 1 (clock_at t)
      (empty_db\<lparr>jobs := [reap_set (sample_job 1 Processing 0\<lparr>worker_id := Some ''w1'', leased_until := Some 40\<rparr>)]\<rparr>)
      empty_redis)) 1 \<noteq> None"
proof -
  let ?j = "sample_job 1 Processing 0\<lparr>worker_id := Some ''w1'', leased_until := Some 40\<rparr>"
  let ?db = "empty_db\<lparr>jobs := [?j]\<rparr>"
  let ?db2 = "empty_db\<lparr>jobs := [reap_set ?j]\<rparr>"
  have a: "db_ok ?db" "get_row 1 (jobs ?db) = Some ?j" "status ?j = Processing" "leased_until ?j = Some 40"
    "db_ok ?db2" "get_row 1 (jobs ?db2) = Some (reap_set ?j)"
    by (simp_all add: db_ok_def table_ok_def keys_unique_def row_ok_def get_row_def reap_set_def)
  have P: "reaper_poll_interval_seconds default_settings = 5" "scheduler_poll_interval_seconds default_settings = 1"
    by code_simp+
  define ra where "ra = round_start (\<lambda>k. 1 / 10) (\<lambda>k. 5) 0"
  define fa where "fa = round_start (\<lambda>k. 1 / 10) (\<lambda>k. 1) 0"
  have "\<exists>k n. 40 < clock_at (ra k) \<and> ra k + 1 / 10 < fa n \<and> fa n \<le> of_int (40 + 1) / 1000000 + 3 * (1 / 10) + 5 + 1 \<and>
    (\<forall>db j n1 clk db1 db2 n2 r.
      db_ok db \<and> get_row 1 (jobs db) = Some j \<and> status j = Processing \<and> leased_until j = Some 40 \<and>
      clock_at (ra k) \<le> clk 1 \<and> length (filter (expired (clock_at (ra k))) (jobs db)) \<le> n1 \<and>
      db1 = snd (reap_expired_leases n1 (clock_at (ra k)) clk db) \<and>
      db_ok db2 \<and> get_row 1 (jobs db2) = get_row 1 (jobs db1) \<and>
      length (filter (ready (clock_at (fa n))) (jobs db2)) \<le> n2 \<longrightarrow>
        (\<exists>j1. get_row 1 (jobs db2) = Some j1 \<and> status j1 = Pending \<and> attempt_count j1 = attempt_count j) \<and>
        pending_score list_zset (snd (promote_ready_jobs list_zset n2 (clock_at (fa n)) db2 (r :: list_redis))) 1 \<noteq> None \<and>
        (\<forall>now t w lease. fst (claim_job now t 1 w lease db2) \<noteq> None))"
    by (rule recovery_in_bounded_time [OF list_queue, where S = default_settings and up = 0]) (simp_all add: P ra_def fa_def)
  then obtain k n where c: "40 < clock_at (ra k)" "fa n \<le> of_int (40 + 1) / 1000000 + 3 * (1 / 10) + 5 + 1"
    and all: "(\<forall>db j n1 clk db1 db2 n2 r.
      db_ok db \<and> get_row 1 (jobs db) = Some j \<and> status j = Processing \<and> leased_until j = Some 40 \<and>
      clock_at (ra k) \<le> clk 1 \<and> length (filter (expired (clock_at (ra k))) (jobs db)) \<le> n1 \<and>
      db1 = snd (reap_expired_leases n1 (clock_at (ra k)) clk db) \<and>
      db_ok db2 \<and> get_row 1 (jobs db2) = get_row 1 (jobs db1) \<and>
      length (filter (ready (clock_at (fa n))) (jobs db2)) \<le> n2 \<longrightarrow>
        (\<exists>j1. get_row 1 (jobs db2) = Some j1 \<and> status j1 = Pending \<and> attempt_count j1 = attempt_count j) \<and>
        pending_score list_zset (snd (promote_ready_jobs list_zset n2 (clock_at (fa n)) db2 (r :: list_redis))) 1 \<noteq> None \<and>
        (\<forall>now t w lease. fst (claim_job now t 1 w lease db2) \<noteq> None))"
    by (elim exE conjE) (rule that)
  let ?t = "clock_at (ra k)"
  have "get_row 1 (jobs (snd (reap_expired_leases 1 ?t (\<lambda>_. ?t) ?db))) = Some (reap_set ?j)"
    by (rule reap_covers(1) [OF a(1) _ a(2)]) (use c(1) in \<open>simp_all add: expired_def\<close>)
  with a have "db_ok ?db \<and> get_row 1 (jobs ?db) = Some ?j \<and> status ?j = Processing \<and> leased_until ?j = Some 40 \<and>
      ?t \<le> ?t \<and> length (filter (expired ?t) (jobs ?db)) \<le> 1 \<and>
      snd (reap_expired_leases 1 ?t (\<lambda>_. ?t) ?db) = snd (reap_expired_leases 1 ?t (\<lambda>_. ?t) ?db) \<and>
      db_ok ?db2 \<and> get_row 1 (jobs ?db2) = get_row 1 (jobs (snd (reap_expired_leases 1 ?t (\<lambda>_. ?t) ?db))) \<and>
      length (filter (ready (clock_at (fa n))) (jobs ?db2)) \<le> 1"
    by simp
  from all [rule_format, OF this] have "pending_score list_zset (snd (promote_ready_jobs list_zset 1 (clock_at (fa n)) ?db2 empty_redis)) 1 \<noteq> None"
    by blast
  with c(2) show ?thesis by (intro exI [of _ "fa n"]) simp
qed

text \<open>
  C18. A scheduled job starts in time.  The scheduler loops with rounds of at most \<open>D\<close> seconds and waits as
  it computes them, from whatever it reads of Redis and the clock.  Then within \<open>D\<close> seconds and one poll
  interval of the time \<open>t\<close> the job is scheduled for, there is a round that finds it due: whatever
  has become of Redis, the round makes it pending, queues it with its score, drops it from the scheduled
  set, and the next worker that pops it gets it.
\<close>

theorem scheduled_job_promoted_in_time:
  assumes "job_queue Z" and "\<And>k. 0 \<le> dur k \<and> dur k \<le> D" and "MIN_SLEEP \<le> scheduler_poll_interval_seconds S"
    and "up \<le> of_int (t + 1) / 1000000"
    and "tick = round_start dur (\<lambda>k. scheduler_sleep S (next_scheduled_score Z (found k)) (reads k)) up"
  shows "\<exists>k. tick k \<le> of_int (t + 1) / 1000000 + D + scheduler_poll_interval_seconds S \<and>
    (\<forall>db j limit clk r n db' r'.
      db_ok db \<and> get_row i (jobs db) = Some j \<and> status j = Scheduled \<and> scheduled_at j = Some t \<and>
      clock_at (tick k) \<le> clk i \<and> length (filter (due (clock_at (tick k))) (jobs db)) \<le> limit \<and>
      promote_due_scheduled Z limit (clock_at (tick k)) clk db r = (n, db', r') \<longrightarrow>
        get_row i (jobs db') = Some (j\<lparr>status := Pending, next_run_at := None\<rparr>) \<and>
        pending_score Z r' i = Some (rnd53 (of_int (priority_score (priority j) (created_at j)))) \<and>
        scheduled_score Z r' i = None \<and>
        (\<forall>now db_now w lease. fst (claim_job now db_now i w lease db') \<noteq> None))"
proof -
  have positive: "0 < MIN_SLEEP" by code_simp
  have wait: "MIN_SLEEP \<le> scheduler_sleep S x y" "scheduler_sleep S x y \<le> scheduler_poll_interval_seconds S" for x y
    using scheduler_sleep_bounds [OF assms(3), of x y] by auto
  have round: "MIN_SLEEP \<le> dur k + scheduler_sleep S x y" for k x y using assms(2) [of k] wait(1) [of x y] by linarith
  obtain k where k: "of_int (t + 1) / 1000000 < tick k" "tick k \<le> of_int (t + 1) / 1000000 + D + scheduler_poll_interval_seconds S"
    unfolding assms(5)
    by (rule next_round [of MIN_SLEEP dur "\<lambda>k. scheduler_sleep S (next_scheduled_score Z (found k)) (reads k)" D
          "scheduler_poll_interval_seconds S", OF _ positive _ _ assms(4)])
      (use assms(2) round wait(2) in auto)
  have t: "t \<le> clock_at (tick k)" using k(1) by (simp add: clock_at_def le_floor_iff)
  show ?thesis
  proof (intro exI [of _ k], rule conjI [OF k(2)], (rule allI)+, rule impI, elim conjE)
    fix db j limit clk r n db' r'
    assume a: "db_ok db" "get_row i (jobs db) = Some j" "status j = Scheduled" "scheduled_at j = Some t"
      "clock_at (tick k) \<le> clk i" "length (filter (due (clock_at (tick k))) (jobs db)) \<le> limit"
      and p: "promote_due_scheduled Z limit (clock_at (tick k)) clk db r = (n, db', r')"
    show "get_row i (jobs db') = Some (j\<lparr>status := Pending, next_run_at := None\<rparr>) \<and>
        pending_score Z r' i = Some (rnd53 (of_int (priority_score (priority j) (created_at j)))) \<and>
        scheduled_score Z r' i = None \<and>
        (\<forall>now db_now w lease. fst (claim_job now db_now i w lease db') \<noteq> None)"
      by (rule promoted_when_due [of Z db i j t "clock_at (tick k)", OF assms(1) a t p])
  qed
qed

theorem scheduled_job_promoted_in_time_witness:
  "\<exists>t n db' (r' :: list_redis). t \<le> (40 + 1) / 1000000 + 1 / 10 + 1 \<and>
    promote_due_scheduled list_zset 100 (clock_at t) (\<lambda>_. clock_at t)
      (empty_db\<lparr>jobs := [sample_job 1 Scheduled 0\<lparr>scheduled_at := Some 40\<rparr>]\<rparr>) empty_redis = (n, db', r') \<and>
    map_option status (get_row 1 (jobs db')) = Some Pending \<and> pending_score list_zset r' 1 \<noteq> None"
proof -
  let ?S = default_settings
  let ?j = "sample_job 1 Scheduled 0\<lparr>scheduled_at := Some 40\<rparr>"
  let ?db = "empty_db\<lparr>jobs := [?j]\<rparr>"
  have P: "scheduler_poll_interval_seconds ?S = 1" "MIN_SLEEP \<le> 1" by code_simp+
  have a: "db_ok ?db" "get_row 1 (jobs ?db) = Some ?j"
    by (simp_all add: db_ok_def table_ok_def keys_unique_def row_ok_def get_row_def)
  define tick where "tick = round_start (\<lambda>k. 1 / 10)
    (\<lambda>k. scheduler_sleep ?S (next_scheduled_score list_zset (empty_redis :: list_redis)) 0) 0"
  obtain k where k: "tick k \<le> (40 + 1) / 1000000 + 1 / 10 + 1" and
    all: "\<forall>db j limit clk (r :: list_redis) n db' r'.
      db_ok db \<and> get_row 1 (jobs db) = Some j \<and> status j = Scheduled \<and> scheduled_at j = Some 40 \<and>
      clock_at (tick k) \<le> clk 1 \<and> length (filter (due (clock_at (tick k))) (jobs db)) \<le> limit \<and>
      promote_due_scheduled list_zset limit (clock_at (tick k)) clk db r = (n, db', r') \<longrightarrow>
        get_row 1 (jobs db') = Some (j\<lparr>status := Pending, next_run_at := None\<rparr>) \<and>
        pending_score list_zset r' 1 = Some (rnd53 (of_int (priority_score (priority j) (created_at j)))) \<and>
        scheduled_score list_zset r' 1 = None \<and>
        (\<forall>now db_now w lease. fst (claim_job now db_now 1 w lease db') \<noteq> None)"
    using scheduled_job_promoted_in_time [OF list_queue, of "\<lambda>k. 1 / 10" "1 / 10" ?S 0 40 tick "\<lambda>k. empty_redis" "\<lambda>k. 0" 1] P
    by (auto simp: tick_def)
  obtain n db' r' where p: "promote_due_scheduled list_zset 100 (clock_at (tick k)) (\<lambda>_. clock_at (tick k)) ?db empty_redis = (n, db', r')"
    by (metis prod.exhaust)
  have "length (filter (due (clock_at (tick k))) (jobs ?db)) \<le> 100" by simp
  with all [rule_format, of ?db ?j "\<lambda>_. clock_at (tick k)" 100 empty_redis n db' r'] a p
  have "get_row 1 (jobs db') = Some (?j\<lparr>status := Pending, next_run_at := None\<rparr>)" "pending_score list_zset r' 1 \<noteq> None"
    by simp_all
  with p k show ?thesis
    by (intro exI [of _ "tick k"] exI [of _ n] exI [of _ db'] exI [of _ r']) simp
qed

text \<open>
  C24. A maintenance cycle is one bulk statement.  While the clocks stand still and the limits cover
  the work, the reaper's select-then-update loop changes the table as one \<^verbatim>\<open>UPDATE\<close> of all
  expired rows and reports how many there were; and so does the scheduler's loop over the
  candidates of Redis and of the table with all due rows, whatever Redis contains.
\<close>

theorem maintenance_cycles_are_bulk_updates:
  assumes "job_queue Z" and "db_ok db"
    and "length (filter (expired t) (jobs db)) \<le> n1" and "length (filter (due t) (jobs db)) \<le> n2"
  shows "reap_expired_leases n1 t (\<lambda>i. t) db =
      (length (filter (expired t) (jobs db)), db\<lparr>jobs := map (\<lambda>j. if expired t j then reap_set j else j) (jobs db)\<rparr>) \<and>
    (\<exists>r'. promote_due_scheduled Z n2 t (\<lambda>i. t) db r =
      (length (filter (due t) (jobs db)), db\<lparr>jobs := map (\<lambda>j. if due t j then promote_set j else j) (jobs db)\<rparr>, r'))"
proof
  show "reap_expired_leases n1 t (\<lambda>i. t) db =
      (length (filter (expired t) (jobs db)), db\<lparr>jobs := map (\<lambda>j. if expired t j then reap_set j else j) (jobs db)\<rparr>)"
    using reap_bulk [OF assms(2,3)] by (simp add: update_where_def)
  obtain n db' r' where p: "promote_due_scheduled Z n2 t (\<lambda>i. t) db r = (n, db', r')" by (metis prod.exhaust)
  with promote_bulk [OF assms(1,2,4) p]
  show "\<exists>r'. promote_due_scheduled Z n2 t (\<lambda>i. t) db r =
      (length (filter (due t) (jobs db)), db\<lparr>jobs := map (\<lambda>j. if due t j then promote_set j else j) (jobs db)\<rparr>, r')"
    by (simp add: update_where_def)
qed

theorem maintenance_cycles_are_bulk_updates_witness:
  "\<exists>r'. promote_due_scheduled list_zset 100 50 (\<lambda>i. 50)
     (empty_db\<lparr>jobs := [sample_job 1 Scheduled 0\<lparr>scheduled_at := Some 40\<rparr>, sample_job 2 Scheduled 0\<lparr>scheduled_at := Some 60\<rparr>]\<rparr>)
     empty_redis =
   (1, empty_db\<lparr>jobs := [promote_set (sample_job 1 Scheduled 0\<lparr>scheduled_at := Some 40\<rparr>),
      sample_job 2 Scheduled 0\<lparr>scheduled_at := Some 60\<rparr>]\<rparr>, r' :: list_redis)"
proof -
  let ?db = "empty_db\<lparr>jobs := [sample_job 1 Scheduled 0\<lparr>scheduled_at := Some 40\<rparr>, sample_job 2 Scheduled 0\<lparr>scheduled_at := Some 60\<rparr>]\<rparr>"
  have "db_ok ?db" by (simp add: db_ok_def table_ok_def keys_unique_def row_ok_def)
  from maintenance_cycles_are_bulk_updates [OF list_queue this, of 50 100 100 empty_redis]
  show ?thesis by (simp add: due_def expired_def)
qed

text \<open>
  C20. The backoff is respected: after a failed attempt with attempts left, no claim before the
  backoff is over succeeds and the feeder does not queue the job; from then on a feeder cycle
  queues it and the next claim succeeds.
\<close>

theorem backoff_respected:
  assumes "job_queue Z" and "db_ok db" and "get_row i (jobs db) = Some j" and "attempt_count j < max_attempts j"
    and "db1 = fst (apply_failure S now True msg False j (db, r))"
    and "retry_at = now + timedelta_seconds (if attempt_count j = 1 then retry_backoff_after_attempt_1_seconds S
                else retry_backoff_after_attempt_2_seconds S)"
  shows "if t < retry_at then
      claim_job t t i w lease db1 = (None, db1) \<and>
      pending_score Z (snd (promote_ready_jobs Z limit t db1 q)) i = pending_score Z q i
    else fst (claim_job t t i w lease db1) \<noteq> None \<and>
      (length (filter (ready t) (jobs db1)) \<le> limit \<longrightarrow>
        pending_score Z (snd (promote_ready_jobs Z limit t db1 q)) i \<noteq> None)"
proof -
  let ?new = "failure_values S now msg False j"
  have db1: "db1 = orm_commit j ?new (failure_log S now msg False j) db"
    unfolding assms(5) by (simp add: row_simps)
  have row: "get_row i (jobs db1) = Some ?new" unfolding db1 by (rule failing.commit_fresh [OF assms(3)])
  have ok: "db_ok db1" unfolding db1 by (rule failing.commit_db_ok [OF assms(2) db_ok_row [OF assms(2,3)]])
  have new: "status ?new = Pending" "next_run_at ?new = Some retry_at" "job_id ?new = i"
    using assms(4,6) get_row_Some [OF assms(3)]
    by (simp_all add: row_simps retries_def should_retry_def backoff_seconds_def)
  show ?thesis
  proof (cases "t < retry_at")
    case True
    then have "\<not> claim_guard i t ?new" "\<not> ready t ?new" using new by (simp_all add: claim_guard_def ready_def)
    with True claim_fails [OF ok row] feeder_skips [OF assms(1) ok row, of t limit q] show ?thesis by simp
  next
    case False
    then have "claim_guard i t ?new" "ready t ?new" using new by (simp_all add: claim_guard_def ready_def)
    with False claim_succeeds [OF ok row] feeder_covers [OF assms(1) ok _ row, of t limit q] show ?thesis by simp
  qed
qed

theorem backoff_respected_witness:
  "fst (claim_job 29000000 29000000 1 ''w'' 60 (fst (apply_failure default_settings 0 True ''boom'' False
     (sample_job 1 Processing 0\<lparr>attempt_count := 1\<rparr>)
     (empty_db\<lparr>jobs := [sample_job 1 Processing 0\<lparr>attempt_count := 1\<rparr>]\<rparr>, empty_redis)))) = None"
proof -
  let ?j = "sample_job 1 Processing 0\<lparr>attempt_count := 1\<rparr>"
  let ?db = "empty_db\<lparr>jobs := [?j]\<rparr>"
  have a: "db_ok ?db" "get_row 1 (jobs ?db) = Some ?j" "attempt_count ?j < max_attempts ?j"
    by (simp_all add: db_ok_def table_ok_def keys_unique_def row_ok_def get_row_def)
  have "timedelta_seconds 30 = 30000000" by code_simp
  with backoff_respected [OF list_queue a refl refl, where S = default_settings and now = 0 and msg = "''boom''"
      and r = empty_redis and t = 29000000 and w = "''w''" and lease = 60 and q = empty_redis and limit = 1]
  show ?thesis by simp
qed

text \<open>
  C16. End to end: on an idle system under the default settings, a submission answered 201 (not
  scheduled, a batch of fewer than 600 items, a webhook whose draw succeeds) is executed by the next
  round of a worker without delays, and \<^verbatim>\<open>GET /jobs/{id}\<close> then shows the job completed at 100
  percent after one attempt, with the payload that was accepted.
\<close>

theorem submitted_job_is_done:
  assumes "job_queue Z" and "db_ok db" and "pending_score Z r = Map.empty"
    and "create_job_route default_settings Z email_str http_url i recv now t d p None idem db r =
      ((201, JobBody v), db', r')"
    and "\<And>s. email_str s \<noteq> Some []" and "\<And>s. http_url s \<noteq> Some []"
    and "\<And>items. resp_payload v = [(''items'', JArr items)] \<Longrightarrow> length items < 600"
    and "\<And>seed. rnd53 (2 / 10) \<le> run_rng env seed" and "\<And>k. run_delay env k = 0"
  shows "\<exists>h' db'' r'' v'. process_one default_settings Z w env (h, db', r') = (True, h', db'', r'') \<and>
    read_job_route db'' i = (200, JobBody v') \<and> resp_status v' = Completed \<and> resp_progress_pct v' = 100 \<and>
    resp_attempt_count v' = 1 \<and> resp_payload v' = resp_payload v"
proof -
  obtain data key where data: "job_create email_str http_url recv t d p None = Inr data"
    and none: "jc_scheduled_at data = None" and ci: "can_insert default_settings i data key db"
    and v: "v = job_response_of (new_job default_settings i now data key)"
    and db': "db' = db\<lparr>jobs := jobs db @ [new_job default_settings i now data key],
              job_logs := job_logs db @ created_log (new_job default_settings i now data key)\<rparr>"
    and r': "r' = snd (enqueue Z i (priority_score (jc_priority data) now) False r)"
    by (rule create_route_created [OF assms(4)]) (rule that)
  let ?j = "new_job default_settings i now data key"
  have "insert_row ?j (jobs db) = Inr (jobs db @ [?j])" using ci by (simp add: insert_new_job)
  then have ok: "db_ok db'" using assms(2) table_ok_insert unfolding db' by (simp add: db_ok_def)
  have row: "get_row i (jobs db') = Some ?j" using get_row_new_job [OF ci] by (simp add: db')
  have "pending_score Z r' = [i \<mapsto> rnd53 (of_int (priority_score (jc_priority data) now))]"
    using assms(3) by (simp add: r' job_queue.enqueue_scores [OF assms(1)])
  then have dq: "fst (dequeue Z r') = Some i" by (rule dequeue_only [OF assms(1)])
  have guard: "claim_guard i (clk_db env) ?j" by (simp add: claim_guard_def row_simps none)
  have valid: "validate_payload_by_type email_str http_url (job_type ?j) d = Some (payload ?j)"
    using job_create_Inr(1,5) [OF data] by (simp add: row_simps)
  have small: "length items < 600" if "payload ?j = [(''items'', JArr items)]" for items
    using assms(7) that by (simp add: v job_response_of_def)
  obtain h' db'' r'' j' where fin: "process_one default_settings Z w env (h, db', r') = (True, h', db'', r'')"
    "get_row i (jobs db'') = Some j'" "status j' = Completed" "progress_pct j' = 100"
    "attempt_count j' = attempt_count ?j + 1" "payload j' = payload ?j"
    using accepted_job_completes [OF assms(1) ok dq row guard valid assms(5,6) small assms(8,9), of w h] by blast
  then show ?thesis
    by (simp add: read_job_route_def get_job_def job_response_of_def v row_simps)
qed

theorem submitted_job_is_done_witness:
  "\<exists>db' (r' :: list_redis) v h' db'' r'' v'. create_job_route default_settings list_zset (\<lambda>s. Some ''a'') (\<lambda>s. Some ''b'') 7 10 20
       Report [] 0 None None empty_db empty_redis = ((201, JobBody v), db', r') \<and>
    process_one default_settings list_zset ''w'' \<lparr>clk_claim = 30, clk_db = 30, clk_done = 40, run_hex12 = ''0'',
      run_rng = (\<lambda>_. 1), run_delay = (\<lambda>_. 0)\<rparr> (None, db', r') = (True, h', db'', r'') \<and>
    read_job_route db'' 7 = (200, JobBody v') \<and> resp_status v' = Completed"
proof -
  let ?e = "\<lambda>s :: string. Some ''a''" and ?u = "\<lambda>s :: string. Some ''b''"
  let ?env = "\<lparr>clk_claim = 30, clk_db = 30, clk_done = 40, run_hex12 = ''0'', run_rng = (\<lambda>_. 1), run_delay = (\<lambda>_. 0)\<rparr>"
  have c: "job_create ?e ?u 10 Report [] 0 None =
      Inr \<lparr>jc_job_type = Report, jc_payload = [(''name'', JStr ''report'')], jc_priority = 0, jc_scheduled_at = None\<rparr>"
    by (simp add: job_create_def scheduled_at_must_be_future_def validate_payload_for_job_type_def
        PAYLOAD_MAX_BYTES_def validate_report_def only_keys_def)
  let ?data = "\<lparr>jc_job_type = Report, jc_payload = [(''name'', JStr ''report'')], jc_priority = 0, jc_scheduled_at = None\<rparr>"
  have "can_insert default_settings 7 ?data None empty_db"
    by (simp add: can_insert_def empty_db_def get_row_def submit_lookup_def)
  then obtain db' r' where s: "submit_job default_settings list_zset 7 20 ?data None empty_db empty_redis =
      (Inr (new_job default_settings 7 20 ?data None, True), db', r')"
    by (auto simp: submit_job_def normalize_idempotency_key_def submit_lookup_def submit_new_eq insert_new_job Let_def)
  let ?v = "job_response_of (new_job default_settings 7 20 ?data None)"
  have route: "create_job_route default_settings list_zset ?e ?u 7 10 20 Report [] 0 None None empty_db empty_redis =
      ((201, JobBody ?v), db', r')"
    by (simp add: create_job_route_def c s)
  have "rnd53 (2 / 10) \<le> 1" by code_simp
  then have "\<exists>h' db'' r'' v'. process_one default_settings list_zset ''w'' ?env (None, db', r') = (True, h', db'', r'') \<and>
    read_job_route db'' 7 = (200, JobBody v') \<and> resp_status v' = Completed \<and> resp_progress_pct v' = 100 \<and>
    resp_attempt_count v' = 1 \<and> resp_payload v' = resp_payload ?v"
    by (intro submitted_job_is_done [OF list_queue db_ok_empty _ route])
      (simp_all add: empty_redis_def job_response_of_def row_simps)
  with route show ?thesis by blast
qed

text \<open>
  C19. A backlog is worked off without pauses: a worker that starts on \<open>n\<close> queued jobs, alone and
  undisturbed, with rounds of at most \<open>D\<close> seconds, has taken all of them by \<open>n D\<close> seconds after its
  start, unless the signal comes before; its loop then stands before round \<open>n\<close> with an empty queue.
\<close>

theorem backlog_drained_in_time:
  assumes "job_queue Z" and "db_ok db" and "pending_depth Z r = n"
    and "run_executor_loop S Z w (map env [0..<n]) (h, db, r) = (flags, h', db', r')"
    and "\<And>k. k < n \<Longrightarrow> processed R k = flags ! k"
    and "\<And>k. snd (executing R k) = None \<and> 0 \<le> fst (executing R k) \<and> fst (executing R k) \<le> D"
    and "0 \<le> executor_poll_interval_seconds S" and "\<And>s. stop = Some s \<Longrightarrow> of_nat n * D < s"
  shows "flags = replicate n True \<and> pending_depth Z r' = 0 \<and>
    (\<exists>t. t \<le> of_nat n * D \<and>
      (\<forall>fuel. executor_task (n + fuel) S R stop = poll_loop fuel (executing R) (executor_wait S R) stop n t))"
proof -
  have drained: "flags = replicate n True" "pending_depth Z r' = 0"
    using executor_drains_queue [OF assms(1,2,4)] assms(3) by simp_all
  define start where "start = round_start (\<lambda>k. fst (executing R k)) (executor_wait S R) 0"
  have early: "start k \<le> of_nat k * D" if "k \<le> n" for k
    using that
  proof (induction k)
    case (Suc k)
    then have "processed R k" using assms(5) [of k] drained(1) by simp
    with Suc assms(6) [of k] show ?case by (simp add: start_def distrib_right)
  qed (simp add: start_def)
  have "\<not> is_set stop (start k)" if "k \<le> n" for k
  proof (cases stop)
    case (Some s)
    have "0 \<le> D" using assms(6) [of 0] by linarith
    with that have "of_nat k * D \<le> of_nat n * D" by (simp add: mult_right_mono)
    with early [OF that] assms(8) [OF Some] Some show ?thesis by simp
  qed simp
  then have "executor_task (n + fuel) S R stop = poll_loop fuel (executing R) (executor_wait S R) stop n (start n)" for fuel
    unfolding executor_task_def start_def
    by (intro poll_loop_reaches) (use assms(6,7) in auto)
  with drained early [OF order.refl] show ?thesis by blast
qed

theorem backlog_drained_in_time_witness:
  "\<exists>h' db' r' t. run_executor_loop default_settings list_zset ''w1'' [sample_env]
      (None, empty_db, empty_redis\<lparr>jobs_pending := [(1, 5)]\<rparr>) = ([True], h', db', r') \<and> pending_depth list_zset r' = 0 \<and> t \<le> 1 / 4 \<and>
    executor_task 2 default_settings \<lparr>executing = \<lambda>k. (1 / 4, None :: string option), processed = \<lambda>k. k = 0, beating = \<lambda>k. (0, None), offlining = None\<rparr>
      (Some 1) = poll_loop 1 (\<lambda>k. (1 / 4, None)) (\<lambda>k. if \<not> k = 0 then executor_poll_interval_seconds default_settings else 0) (Some 1) 1 t"
proof -
  let ?R = "\<lparr>executing = \<lambda>k. (1 / 4, None :: string option), processed = \<lambda>k. k = 0, beating = \<lambda>k. (0, None), offlining = None\<rparr>"
  let ?r = "empty_redis\<lparr>jobs_pending := [(1, 5)]\<rparr> :: list_redis"
  obtain flags h' db' r' where run: "run_executor_loop default_settings list_zset ''w1'' (map (\<lambda>k. sample_env) [0..<1]) (None, empty_db, ?r) =
      (flags, h', db', r')" by (metis prod.exhaust)
  have depth: "pending_depth list_zset ?r = 1" by (simp add: pending_depth_def list_zset_def)
  have "length flags = 1" using executor_drains_queue [OF list_queue db_ok_empty run] depth by simp
  moreover have "flags = [True]" using executor_drains_queue [OF list_queue db_ok_empty run] depth by simp
  moreover have "0 \<le> executor_poll_interval_seconds default_settings" by code_simp
  ultimately obtain t where "pending_depth list_zset r' = 0" "t \<le> 1 / 4"
    "\<And>fuel. executor_task (1 + fuel) default_settings ?R (Some 1) =
      poll_loop fuel (executing ?R) (executor_wait default_settings ?R) (Some 1) 1 t"
    using backlog_drained_in_time [OF list_queue db_ok_empty depth run, of ?R "1 / 4" "Some 1"] by auto
  moreover from this(3) [of 1] have "executor_task 2 default_settings ?R (Some 1) = poll_loop 1 (\<lambda>k. (1 / 4, None))
      (\<lambda>k. if \<not> k = 0 then executor_poll_interval_seconds default_settings else 0) (Some 1) 1 t"
    by (simp only: one_add_one worker_rounds.simps)
  moreover have "map (\<lambda>k. sample_env) [0..<1] = [sample_env]" by simp
  ultimately show ?thesis using run \<open>flags = [True]\<close> by metis
qed

end
